(* ===== verification/Prelude.thy ===== *)
theory Prelude
  imports Main "HOL-Library.Word" "HOL-Library.Monad_Syntax"
begin

text \<open>
  Shared vocabulary of the development: the machine integers of the sources as words, the
  outcome types of Rust functions, and the generic lemmas on lists, numbers and bits that the
  component theories use.

  \<^item> A Rust \<^verbatim>\<open>Result<T, E>\<close> is a value of \<open>result\<close>.
  \<^item> A function that may panic (a failed \<^verbatim>\<open>assert!\<close>, an out-of-range index, an \<^verbatim>\<open>unwrap\<close> of
    \<^verbatim>\<open>None\<close>) returns an \<open>option\<close>, and \<open>None\<close> is the panic.  Loops that need fuel use the same
    \<open>None\<close> for "fuel ran out", so a theorem that such a function returns \<open>Some\<close> excludes both.
  \<^item> Arithmetic is that of the release profile: it wraps, and a \<^verbatim>\<open>debug_assert!\<close> is not executed.
    Where the sources state a \<^verbatim>\<open>debug_assert!\<close> of a modelled operation, its condition is a lemma.
\<close>

section \<open>Machine integers and byte strings\<close>

type_synonym u8 = "8 word"
type_synonym u16 = "16 word"
type_synonym u32 = "32 word"
type_synonym u64 = "64 word"
type_synonym usize = "64 word"
type_synonym bytes = "u8 list"

lemma u8_bound: "unat (x :: u8) < 256"
  by (rule order_less_le_trans [OF unsigned_less]) simp

lemma u16_bound: "unat (x :: u16) < 2 ^ 16"
  by (rule order_less_le_trans [OF unsigned_less]) simp

lemma u32_bound: "unat (x :: u32) < 2 ^ 32"
  by (rule order_less_le_trans [OF unsigned_less]) simp

lemma u64_bound: "unat (x :: u64) < 2 ^ 64"
  by (rule order_less_le_trans [OF unsigned_less]) simp

section \<open>Outcomes\<close>

datatype ('a, 'e) result = Ok (ok: 'a) | Err (err: 'e)

primrec bind_ok :: "('a, 'e) result \<Rightarrow> ('a \<Rightarrow> ('b, 'e) result) \<Rightarrow> ('b, 'e) result" where
  "bind_ok (Ok x) f = f x"
| "bind_ok (Err e) f = Err e"

lemma bind_ok_eq_Ok: "bind_ok r f = Ok y \<longleftrightarrow> (\<exists>x. r = Ok x \<and> f x = Ok y)"
  by (cases r) auto

lemma bind_ok_eq_Err: "bind_ok r f = Err e \<longleftrightarrow> r = Err e \<or> (\<exists>x. r = Ok x \<and> f x = Err e)"
  by (cases r) auto

text \<open>\<^verbatim>\<open>std::task::Poll\<close>.\<close>

datatype 'a poll = Pending | Ready 'a

section \<open>Collections of facts\<close>

named_theorems byte_simps \<open>length and value facts of the byte-order primitives\<close>
named_theorems frame_simps \<open>unfoldings of frame operations on concrete buffers\<close>
named_theorems wheel_intros \<open>preservation facts of the timing wheel\<close>

section \<open>Lists\<close>

text \<open>\<^verbatim>\<open>split_to(n)\<close> and \<^verbatim>\<open>advance(n)\<close> on a byte buffer panic when fewer than \<open>n\<close> bytes are there.\<close>

definition split_to :: "nat \<Rightarrow> 'a list \<Rightarrow> ('a list \<times> 'a list) option" where
  "split_to n xs = (if n \<le> length xs then Some (take n xs, drop n xs) else None)"

lemma split_to_append [simp]: "split_to (length xs) (xs @ ys) = Some (xs, ys)"
  by (simp add: split_to_def)

lemma split_to_Some:
  "split_to n xs = Some (ys, zs) \<longleftrightarrow> n \<le> length xs \<and> ys = take n xs \<and> zs = drop n xs"
  by (auto simp: split_to_def)

text \<open>An index expression \<^verbatim>\<open>xs[i]\<close>: a panic outside the bounds.\<close>

definition index :: "'a list \<Rightarrow> nat \<Rightarrow> 'a option" where
  "index xs i = (if i < length xs then Some (xs ! i) else None)"

lemma index_Some: "index xs i = Some x \<longleftrightarrow> i < length xs \<and> x = xs ! i"
  by (auto simp: index_def)

lemma index_at: "length xs = n \<Longrightarrow> index (xs @ y # ys) n = Some y"
  by (auto simp: index_def)

lemma takeWhile_upt:
  assumes "a \<le> i" and "i < n" and "\<not> P i" and "\<And>j. a \<le> j \<Longrightarrow> j < i \<Longrightarrow> P j"
  shows "takeWhile P [a..<n] = [a..<i]"
proof -
  have "[a..<n] = [a..<i] @ i # [Suc i..<n]"
    using assms(1,2) upt_add_eq_append [of a i "n - i"] by (simp add: upt_conv_Cons)
  moreover have "takeWhile P [a..<i] = [a..<i]"
    using assms(4) by (auto simp: takeWhile_eq_all_conv)
  ultimately show ?thesis
    using assms(3,4) by (simp add: takeWhile_append)
qed

end
