(* ===== verification/Timer_Stack.thy ===== *)
theory Timer_Stack
  imports Prelude
begin

text \<open>
  The interface \<^verbatim>\<open>wheel::Stack\<close> of the timing wheel (src/timer/wheel/stack.rs) and its
  implementation by \<^verbatim>\<open>DelayQueue\<close> (src/timer/delay_queue.rs): a doubly linked list threaded
  through the entries of a slab by index.

  The trait is a record of operations, which the wheel takes as an argument in the way Rust passes
  the implementation of \<^verbatim>\<open>T: Stack\<close>.  The locale \<open>stack_trait\<close> states what an implementation
  promises: each stack holds a list of distinct items, the operations act on that list as push,
  pop and removal, and they leave every stack with other items alone.  The interpretation \<open>dq\<close>
  at the end proves the promise for the linked list.

  The slab is a finite map from keys to entries (the slab crate's contents); an index expression
  \<^verbatim>\<open>store[i]\<close> on a vacant key panics.
\<close>

section \<open>The trait\<close>

record ('stk, 'item, 'store) stack_ops =
  so_default :: 'stk
  so_is_empty :: "'stk \<Rightarrow> bool"
  so_push :: "'stk \<Rightarrow> 'item \<Rightarrow> 'store \<Rightarrow> ('stk \<times> 'store) option"
  so_pop :: "'stk \<Rightarrow> 'store \<Rightarrow> ('item option \<times> 'stk \<times> 'store) option"
  so_remove :: "'stk \<Rightarrow> 'item \<Rightarrow> 'store \<Rightarrow> ('stk \<times> 'store) option"
  so_when :: "'item \<Rightarrow> 'store \<Rightarrow> u64 option"

text \<open>
  What an operation on the items \<open>A\<close> leaves alone: the stacks of other items, every item's
  instant and contents (its \<open>view\<close>), and whether an item outside \<open>A\<close> is in no stack.
\<close>

definition keeps ::
  "('stk, 'item, 'store) stack_ops \<Rightarrow> ('stk \<Rightarrow> 'store \<Rightarrow> 'item list \<Rightarrow> bool) \<Rightarrow>
   ('store \<Rightarrow> 'item \<Rightarrow> bool) \<Rightarrow> ('store \<Rightarrow> 'item \<Rightarrow> 'v) \<Rightarrow> 'item set \<Rightarrow> 'store \<Rightarrow> 'store \<Rightarrow> bool"
where
  "keeps T rep free view A st st' \<longleftrightarrow>
     (\<forall>s ys. rep s st ys \<longrightarrow> set ys \<inter> A = {} \<longrightarrow> rep s st' ys) \<and>
     (\<forall>y. so_when T y st' = so_when T y st) \<and> (\<forall>y. view st' y = view st y) \<and>
     (\<forall>y. y \<notin> A \<longrightarrow> free st' y = free st y)"

lemma keeps_rep: "keeps T rep free view A st st' \<Longrightarrow> rep s st ys \<Longrightarrow> set ys \<inter> A = {} \<Longrightarrow> rep s st' ys"
  by (simp add: keeps_def)

lemma keeps_when: "keeps T rep free view A st st' \<Longrightarrow> so_when T y st' = so_when T y st"
  by (simp add: keeps_def)

lemma keeps_view: "keeps T rep free view A st st' \<Longrightarrow> view st' y = view st y"
  by (simp add: keeps_def)

lemma keeps_free: "keeps T rep free view A st st' \<Longrightarrow> y \<notin> A \<Longrightarrow> free st' y = free st y"
  by (simp add: keeps_def)

lemma keeps_refl: "keeps T rep free view A st st"
  by (simp add: keeps_def)

lemma keeps_mono: "keeps T rep free view A st st' \<Longrightarrow> A \<subseteq> B \<Longrightarrow> keeps T rep free view B st st'"
  unfolding keeps_def by blast

lemma keeps_trans:
  "keeps T rep free view A st st' \<Longrightarrow> keeps T rep free view A st' st'' \<Longrightarrow> keeps T rep free view A st st''"
  unfolding keeps_def by simp

locale stack_trait =
  fixes T :: "('stk, 'item, 'store) stack_ops"
    and rep :: "'stk \<Rightarrow> 'store \<Rightarrow> 'item list \<Rightarrow> bool"
    and free :: "'store \<Rightarrow> 'item \<Rightarrow> bool"
    and view :: "'store \<Rightarrow> 'item \<Rightarrow> 'v"
  assumes rep_default: "rep (so_default T) st []"
    and rep_distinct: "rep s st xs \<Longrightarrow> distinct xs"
    and is_empty_law: "rep s st xs \<Longrightarrow> so_is_empty T s \<longleftrightarrow> xs = []"
    and push_law: "rep s st xs \<Longrightarrow> free st x \<Longrightarrow> x \<notin> set xs \<Longrightarrow>
      \<exists>s' st'. so_push T s x st = Some (s', st') \<and> rep s' st' (x # xs) \<and>
        keeps T rep free view (set (x # xs)) st st'"
    and pop_law: "rep s st (x # xs) \<Longrightarrow>
      \<exists>s' st'. so_pop T s st = Some (Some x, s', st') \<and> rep s' st' xs \<and> free st' x \<and>
        keeps T rep free view (set (x # xs)) st st'"
    and pop_empty_law: "rep s st [] \<Longrightarrow> so_pop T s st = Some (None, s, st)"
    and remove_law: "rep s st xs \<Longrightarrow> x \<in> set xs \<Longrightarrow>
      \<exists>s' st'. so_remove T s x st = Some (s', st') \<and> rep s' st' (remove1 x xs) \<and> free st' x \<and>
        keeps T rep free view (set xs) st st'"

section \<open>The slab and the entries of \<^verbatim>\<open>DelayQueue\<close>\<close>

record 'a Data =
  d_inner :: 'a
  d_when :: u64
  d_expired :: bool
  d_next :: "nat option"
  d_prev :: "nat option"

type_synonym 'a slab = "nat \<rightharpoonup> 'a Data"

record Stack =
  head :: "nat option"

definition slab_update :: "'a slab \<Rightarrow> nat \<Rightarrow> ('a Data \<Rightarrow> 'a Data) \<Rightarrow> 'a slab option" where
  "slab_update st i f = (case st i of None \<Rightarrow> None | Some d \<Rightarrow> Some (st(i \<mapsto> f d)))"

section \<open>The linked stack\<close>

definition Stack_default :: Stack where
  "Stack_default = \<lparr>head = None\<rparr>"

definition Stack_is_empty :: "Stack \<Rightarrow> bool" where
  "Stack_is_empty s \<longleftrightarrow> head s = None"

definition Stack_push :: "Stack \<Rightarrow> nat \<Rightarrow> 'a slab \<Rightarrow> (Stack \<times> 'a slab) option" where
  "Stack_push s item st =
     (let old = head s in do {
        st1 \<leftarrow> (case old of
                 Some idx \<Rightarrow> slab_update st idx (\<lambda>d. d\<lparr>d_prev := Some item\<rparr>)
               | None \<Rightarrow> Some st);
        st2 \<leftarrow> slab_update st1 item (\<lambda>d. d\<lparr>d_next := old\<rparr>);
        Some (s\<lparr>head := Some item\<rparr>, st2)
      })"

definition Stack_pop :: "Stack \<Rightarrow> 'a slab \<Rightarrow> (nat option \<times> Stack \<times> 'a slab) option" where
  "Stack_pop s st =
     (case head s of
        Some idx \<Rightarrow> do {
          d \<leftarrow> st idx;
          let s1 = s\<lparr>head := d_next d\<rparr>;
          st1 \<leftarrow> (case head s1 of
                   Some nxt \<Rightarrow> slab_update st nxt (\<lambda>d. d\<lparr>d_prev := None\<rparr>)
                 | None \<Rightarrow> Some st);
          st2 \<leftarrow> slab_update st1 idx (\<lambda>d. d\<lparr>d_next := None\<rparr>);
          Some (Some idx, s1, st2)
        }
      | None \<Rightarrow> Some (None, s, st))"

definition Stack_remove :: "Stack \<Rightarrow> nat \<Rightarrow> 'a slab \<Rightarrow> (Stack \<times> 'a slab) option" where
  "Stack_remove s item st =
     (if st item = None then None
      else do {
        d \<leftarrow> st item;
        st1 \<leftarrow> (case d_next d of
                 Some nxt \<Rightarrow> slab_update st nxt (\<lambda>e. e\<lparr>d_prev := d_prev d\<rparr>)
               | None \<Rightarrow> Some st);
        d1 \<leftarrow> st1 item;
        (s2, st2) \<leftarrow> (case d_prev d1 of
                 Some prv \<Rightarrow> do {
                   st' \<leftarrow> slab_update st1 prv (\<lambda>e. e\<lparr>d_next := d_next d1\<rparr>);
                   Some (s, st')
                 }
               | None \<Rightarrow> Some (s\<lparr>head := d_next d1\<rparr>, st1));
        st3 \<leftarrow> slab_update st2 item (\<lambda>e. e\<lparr>d_next := None\<rparr>);
        st4 \<leftarrow> slab_update st3 item (\<lambda>e. e\<lparr>d_prev := None\<rparr>);
        Some (s2, st4)
      })"

definition Stack_when :: "nat \<Rightarrow> 'a slab \<Rightarrow> u64 option" where
  "Stack_when item st = map_option d_when (st item)"

definition delay_queue_stack :: "(Stack, nat, 'a slab) stack_ops" where
  "delay_queue_stack =
     \<lparr>so_default = Stack_default, so_is_empty = Stack_is_empty, so_push = Stack_push,
      so_pop = Stack_pop, so_remove = Stack_remove, so_when = Stack_when\<rparr>"

lemmas stack_op_defs =
  Stack_default_def Stack_is_empty_def Stack_push_def Stack_pop_def Stack_remove_def
  Stack_when_def slab_update_def

lemma delay_queue_stack_sel [simp]:
  "so_default delay_queue_stack = Stack_default"
  "so_is_empty delay_queue_stack = Stack_is_empty"
  "so_push delay_queue_stack = Stack_push"
  "so_pop delay_queue_stack = Stack_pop"
  "so_remove delay_queue_stack = Stack_remove"
  "so_when delay_queue_stack = Stack_when"
  by (simp_all add: delay_queue_stack_def)

section \<open>What the links represent\<close>

text \<open>
  \<open>lseg st p h xs p' h'\<close>: following the links from \<open>h\<close> visits the entries \<open>xs\<close>, the first of
  which points back to \<open>p\<close>; the walk leaves with the last entry visited in \<open>p'\<close> and its
  forward link in \<open>h'\<close>.
\<close>

fun lseg :: "'a slab \<Rightarrow> nat option \<Rightarrow> nat option \<Rightarrow> nat list \<Rightarrow> nat option \<Rightarrow> nat option \<Rightarrow> bool" where
  "lseg st p h [] p' h' \<longleftrightarrow> p' = p \<and> h' = h"
| "lseg st p h (x # xs) p' h' \<longleftrightarrow>
     h = Some x \<and> (\<exists>d. st x = Some d \<and> d_prev d = p \<and> lseg st (Some x) (d_next d) xs p' h')"

definition linked :: "Stack \<Rightarrow> 'a slab \<Rightarrow> nat list \<Rightarrow> bool" where
  "linked s st xs \<longleftrightarrow> distinct xs \<and> (\<exists>p. lseg st None (head s) xs p None)"

definition unlinked :: "'a slab \<Rightarrow> nat \<Rightarrow> bool" where
  "unlinked st x \<longleftrightarrow> (\<exists>d. st x = Some d \<and> d_next d = None \<and> d_prev d = None)"

text \<open>The part of an entry that the stack operations do not touch.\<close>

definition payload :: "'a slab \<Rightarrow> nat \<Rightarrow> ('a \<times> u64 \<times> bool) option" where
  "payload st x = map_option (\<lambda>d. (d_inner d, d_when d, d_expired d)) (st x)"

lemma payload_when: "payload st' x = payload st x \<Longrightarrow> Stack_when x st' = Stack_when x st"
  by (cases "st x"; cases "st' x") (auto simp: payload_def Stack_when_def)

lemma lseg_append:
  "lseg st p h (xs @ ys) p' h' \<longleftrightarrow> (\<exists>q m. lseg st p h xs q m \<and> lseg st q m ys p' h')"
  by (induction xs arbitrary: p h) auto

lemma lseg_cong:
  "(\<And>x. x \<in> set xs \<Longrightarrow> st' x = st x) \<Longrightarrow> lseg st' p h xs p' h' = lseg st p h xs p' h'"
  by (induction xs arbitrary: p h) auto

lemma lseg_upd [simp]:
  "x \<notin> set xs \<Longrightarrow> lseg (st(x := v)) p h xs p' h' = lseg st p h xs p' h'"
  by (induction xs arbitrary: p h) auto

lemma lseg_fst_prev:
  assumes "lseg st p h (x # xs) p' h'" and "x \<notin> set xs" and "st x = Some d"
  shows "lseg (st(x \<mapsto> d\<lparr>d_prev := q\<rparr>)) q h (x # xs) p' h'"
  using assms by auto

lemma lseg_last_next:
  assumes "lseg st p h (xs @ [x]) p' h'" and "x \<notin> set xs" and "st x = Some d"
  shows "lseg (st(x \<mapsto> d\<lparr>d_next := m\<rparr>)) p h (xs @ [x]) p' m"
  using assms by (auto simp: lseg_append)

lemma lseg_dom: "lseg st p h xs p' h' \<Longrightarrow> x \<in> set xs \<Longrightarrow> \<exists>d. st x = Some d"
  by (induction xs arbitrary: p h) auto

lemma lseg_tail: "lseg st p h xs p' h' \<Longrightarrow> p' = (if xs = [] then p else Some (last xs))"
  by (induction xs arbitrary: p h) auto

lemma linked_upd: "linked s st xs \<Longrightarrow> x \<notin> set xs \<Longrightarrow> linked s (st(x := v)) xs"
  by (auto simp: linked_def)

lemma linked_distinct: "linked s st xs \<Longrightarrow> distinct xs"
  by (simp add: linked_def)

lemma linked_Nil [simp]: "linked s st [] \<longleftrightarrow> head s = None"
  by (auto simp: linked_def)

lemma linked_dom: "linked s st xs \<Longrightarrow> x \<in> set xs \<Longrightarrow> \<exists>d. st x = Some d"
  by (auto simp: linked_def dest: lseg_dom)

section \<open>The operations on represented lists\<close>

text \<open>
  The two link updates the operations are made of: the entry after the changed place gets a new
  back link, and the place before it (an entry or the head of the stack) a new forward link.
\<close>

lemma set_back_link:
  assumes "lseg st p n bs p' None" and "distinct bs"
  shows "\<exists>st1. (case n of Some nxt \<Rightarrow> slab_update st nxt (\<lambda>e. e\<lparr>d_prev := q\<rparr>) | None \<Rightarrow> Some st) = Some st1 \<and>
    (\<exists>p''. lseg st1 q n bs p'' None) \<and> (\<forall>y. y \<notin> set bs \<longrightarrow> st1 y = st y) \<and>
    (\<forall>y. payload st1 y = payload st y)"
proof (cases bs)
  case Nil
  with assms show ?thesis by auto
next
  case (Cons b cs)
  with assms(1) obtain e where e: "n = Some b" "st b = Some e"
    by auto
  have "lseg (st(b \<mapsto> e\<lparr>d_prev := q\<rparr>)) q n (b # cs) p' None"
    using assms e Cons by (intro lseg_fst_prev) auto
  with e Cons show ?thesis
    by (auto simp: slab_update_def payload_def)
qed

lemma set_forward_link:
  assumes "lseg st None (head s) as q h" and "distinct as"
  shows "\<exists>s' st'. (case q of
        Some prv \<Rightarrow> do { st' \<leftarrow> slab_update st prv (\<lambda>e. e\<lparr>d_next := m\<rparr>); Some (s, st') }
      | None \<Rightarrow> Some (s\<lparr>head := m\<rparr>, st)) = Some (s', st') \<and>
    lseg st' None (head s') as q m \<and> (\<forall>y. y \<notin> set as \<longrightarrow> st' y = st y) \<and>
    (\<forall>y. payload st' y = payload st y)"
proof (cases as rule: rev_cases)
  case Nil
  with assms show ?thesis by auto
next
  case (snoc cs a)
  with assms(1) obtain f where f: "q = Some a" "st a = Some f"
    by (auto simp: lseg_append)
  have "lseg (st(a \<mapsto> f\<lparr>d_next := m\<rparr>)) None (head s) (cs @ [a]) q m"
    using assms f snoc by (intro lseg_last_next) auto
  with f snoc show ?thesis
    by (auto simp: slab_update_def payload_def)
qed

lemma linked_cong:
  assumes "linked s st xs" and "\<forall>y. y \<notin> A \<longrightarrow> st' y = st y" and "set xs \<inter> A = {}"
  shows "linked s st' xs"
proof -
  have "st' x = st x" if "x \<in> set xs" for x
    using assms(2,3) that by blast
  then show ?thesis
    using assms(1) lseg_cong [of xs st' st] by (simp add: linked_def)
qed

lemma Stack_push_linked:
  assumes "linked s st xs" and "unlinked st x" and "x \<notin> set xs"
  shows "\<exists>s' st'. Stack_push s x st = Some (s', st') \<and> linked s' st' (x # xs) \<and>
    (\<forall>y. y \<notin> set (x # xs) \<longrightarrow> st' y = st y) \<and> (\<forall>y. payload st' y = payload st y)"
proof -
  from assms obtain d where d: "st x = Some d" "d_prev d = None"
    by (auto simp: unlinked_def)
  from assms(1) obtain p where seg: "lseg st None (head s) xs p None" and dist: "distinct xs"
    by (auto simp: linked_def)
  obtain st1 p' where "(case head s of Some nxt \<Rightarrow> slab_update st nxt (\<lambda>e. e\<lparr>d_prev := Some x\<rparr>)
        | None \<Rightarrow> Some st) = Some st1"
      and "lseg st1 (Some x) (head s) xs p' None" and "\<forall>y. y \<notin> set xs \<longrightarrow> st1 y = st y"
      and "\<forall>y. payload st1 y = payload st y"
    using set_back_link [OF seg dist] by blast
  with d dist assms(3) show ?thesis
    by (auto simp: Stack_push_def linked_def slab_update_def payload_def Let_def)
qed

lemma Stack_pop_linked:
  assumes "linked s st (x # xs)"
  shows "\<exists>s' st'. Stack_pop s st = Some (Some x, s', st') \<and> linked s' st' xs \<and> unlinked st' x \<and>
    (\<forall>y. y \<notin> set (x # xs) \<longrightarrow> st' y = st y) \<and> (\<forall>y. payload st' y = payload st y)"
proof -
  from assms obtain p d where d: "head s = Some x" "st x = Some d" "d_prev d = None"
      and seg: "lseg st (Some x) (d_next d) xs p None" and x: "x \<notin> set xs" "distinct xs"
    by (auto simp: linked_def)
  obtain st1 p' where "(case d_next d of Some nxt \<Rightarrow> slab_update st nxt (\<lambda>e. e\<lparr>d_prev := None\<rparr>)
        | None \<Rightarrow> Some st) = Some st1"
      and "lseg st1 None (d_next d) xs p' None" and "\<forall>y. y \<notin> set xs \<longrightarrow> st1 y = st y"
      and "\<forall>y. payload st1 y = payload st y"
    using set_back_link [OF seg x(2)] by blast
  with d x show ?thesis
    by (auto simp: Stack_pop_def linked_def slab_update_def payload_def unlinked_def Let_def)
qed

lemma Stack_remove_linked:
  assumes "linked s st xs" and "x \<in> set xs"
  shows "\<exists>s' st'. Stack_remove s x st = Some (s', st') \<and> linked s' st' (remove1 x xs) \<and>
    unlinked st' x \<and>
    (\<forall>y. y \<notin> set xs \<longrightarrow> st' y = st y) \<and> (\<forall>y. payload st' y = payload st y)"
proof -
  from assms obtain as bs where xs: "xs = as @ x # bs" and xa: "x \<notin> set as"
    by (meson split_list_first)
  with assms(1) have dist: "distinct as" "distinct bs" "x \<notin> set bs" "set as \<inter> set bs = {}"
    by (auto simp: linked_def)
  from assms(1) xs obtain p d where sa: "lseg st None (head s) as (d_prev d) (Some x)"
      and d: "st x = Some d" and sb: "lseg st (Some x) (d_next d) bs p None"
    by (auto simp: linked_def lseg_append)
  obtain st1 p' where st1: "(case d_next d of Some nxt \<Rightarrow> slab_update st nxt (\<lambda>e. e\<lparr>d_prev := d_prev d\<rparr>)
        | None \<Rightarrow> Some st) = Some st1"
      and sb1: "lseg st1 (d_prev d) (d_next d) bs p' None" and eq1: "\<forall>y. y \<notin> set bs \<longrightarrow> st1 y = st y"
      and w1: "\<forall>y. payload st1 y = payload st y"
    using set_back_link [OF sb dist(2)] by blast
  have sa1: "lseg st1 None (head s) as (d_prev d) (Some x)"
    using sa eq1 dist(4) lseg_cong [of as st1 st] by (metis disjoint_iff)
  obtain s2 st2 where st2: "(case d_prev d of
        Some prv \<Rightarrow> do { st' \<leftarrow> slab_update st1 prv (\<lambda>e. e\<lparr>d_next := d_next d\<rparr>); Some (s, st') }
      | None \<Rightarrow> Some (s\<lparr>head := d_next d\<rparr>, st1)) = Some (s2, st2)"
      and sa2: "lseg st2 None (head s2) as (d_prev d) (d_next d)" and eq2: "\<forall>y. y \<notin> set as \<longrightarrow> st2 y = st1 y"
      and w2: "\<forall>y. payload st2 y = payload st1 y"
    using set_forward_link [OF sa1 dist(1)] by blast
  have sb2: "lseg st2 (d_prev d) (d_next d) bs p' None"
    using sb1 eq2 dist(4) lseg_cong [of bs st2 st1] by (metis disjoint_iff)
  have dx: "st1 x = Some d" "st2 x = Some d"
    using d eq1 eq2 xa dist(3) by auto
  let ?st = "st2(x \<mapsto> d\<lparr>d_next := None, d_prev := None\<rparr>)"
  have "Stack_remove s x st = Some (s2, ?st)"
    using d st1 st2 dx by (simp add: Stack_remove_def slab_update_def)
  moreover have "lseg ?st None (head s2) (as @ bs) p' None"
    using sa2 sb2 xa dist(3) by (auto simp: lseg_append)
  ultimately show ?thesis
    using xs xa dist eq1 eq2 dx w1 w2
    by (auto simp: linked_def remove1_append unlinked_def payload_def)
qed

section \<open>The linked stack keeps the promise of the trait\<close>

lemma keeps_links:
  assumes "\<forall>y. y \<notin> A \<longrightarrow> st' y = st y" and "\<forall>y. payload st' y = payload st y"
  shows "keeps delay_queue_stack linked unlinked payload A st st'"
  using assms by (auto simp: keeps_def unlinked_def intro: linked_cong payload_when)

interpretation dq: stack_trait "delay_queue_stack :: (Stack, nat, 'a slab) stack_ops" linked unlinked payload
proof (unfold_locales, unfold delay_queue_stack_sel, goal_cases)
  case (1 st)
  show ?case by (simp add: Stack_default_def)
next
  case (2 s st xs)
  then show ?case by (rule linked_distinct)
next
  case (3 s st xs)
  then show ?case by (cases xs) (auto simp: Stack_is_empty_def linked_def)
next
  case (4 s st xs x)
  from Stack_push_linked [OF 4] show ?case
    by (elim ex_forward conj_forward) (auto intro: keeps_links)
next
  case (5 s st x xs)
  from Stack_pop_linked [OF 5] show ?case
    by (elim ex_forward conj_forward) (auto intro: keeps_links)
next
  case (6 s st)
  then show ?case by (simp add: Stack_pop_def)
next
  case (7 s st xs x)
  from Stack_remove_linked [OF 7] show ?case
    by (elim ex_forward conj_forward) (auto intro: keeps_links)
qed

end
