(* ===== verification/Timer_Level.thy ===== *)
theory Timer_Level
  imports Timer_Stack
begin

unbundle bit_operations_syntax

text \<open>
  One level of the timing wheel (src/timer/wheel/level.rs): 64 slots, a bit field of the occupied
  ones, and the arithmetic that maps instants to slots and slots to deadlines.

  The lemmas read the word arithmetic as arithmetic on numbers.  \<open>blk l t\<close> is the number of the
  slot-sized block of level \<open>l\<close> that the instant \<open>t\<close> falls into; slots, deadlines and the level
  of an entry are all determined by it.
\<close>

section \<open>Levels\<close>

record 'stk Level =
  lv_level :: nat
  occupied :: u64
  lv_slot :: "'stk list"

record Expiration =
  ex_level :: nat
  ex_slot :: nat
  ex_deadline :: u64

definition LEVEL_MULT :: nat where
  "LEVEL_MULT = 64"

text \<open>The bit counts of \<^verbatim>\<open>u64\<close> in the standard library.\<close>

definition leading_zeros :: "u64 \<Rightarrow> nat" where
  "leading_zeros w = length (takeWhile (\<lambda>i. \<not> bit w (63 - i)) [0..<64])"

definition trailing_zeros :: "u64 \<Rightarrow> nat" where
  "trailing_zeros w = length (takeWhile (\<lambda>i. \<not> bit w i) [0..<64])"

definition occupied_bit :: "nat \<Rightarrow> u64" where
  "occupied_bit slot = push_bit slot 1"

definition slot_range :: "nat \<Rightarrow> u64" where
  "slot_range level = of_nat LEVEL_MULT ^ level"

definition level_range :: "nat \<Rightarrow> u64" where
  "level_range level = of_nat LEVEL_MULT * slot_range level"

definition slot_for :: "u64 \<Rightarrow> nat \<Rightarrow> nat" where
  "slot_for duration level = unat (drop_bit (level * 6) duration mod of_nat LEVEL_MULT)"

definition Level_new :: "('stk, 'item, 'store) stack_ops \<Rightarrow> nat \<Rightarrow> 'stk Level" where
  "Level_new T level =
     \<lparr>lv_level = level, occupied = 0, lv_slot = replicate LEVEL_MULT (so_default T)\<rparr>"

definition next_occupied_slot :: "'stk Level \<Rightarrow> u64 \<Rightarrow> nat option" where
  "next_occupied_slot lv now =
     (if occupied lv = 0 then None
      else
        let now_slot = now div slot_range (lv_level lv);
            occ = word_rotr (unat (ucast now_slot :: u32)) (occupied lv);
            zeros = of_nat (trailing_zeros occ);
            slot = unat ((zeros + now_slot) mod 64)
        in Some slot)"

definition Level_next_expiration :: "'stk Level \<Rightarrow> u64 \<Rightarrow> Expiration option" where
  "Level_next_expiration lv now =
     (case next_occupied_slot lv now of
        None \<Rightarrow> None
      | Some slot \<Rightarrow>
          let level_range = level_range (lv_level lv);
              slot_range = slot_range (lv_level lv);
              level_start = now - now mod level_range;
              deadline = level_start + of_nat slot * slot_range
          in Some \<lparr>ex_level = lv_level lv, ex_slot = slot, ex_deadline = deadline\<rparr>)"

definition Level_add_entry ::
  "('stk, 'item, 'store) stack_ops \<Rightarrow> 'stk Level \<Rightarrow> u64 \<Rightarrow> 'item \<Rightarrow> 'store \<Rightarrow> ('stk Level \<times> 'store) option"
where
  "Level_add_entry T lv whn item st =
     (let s = slot_for whn (lv_level lv) in do {
        stk \<leftarrow> index (lv_slot lv) s;
        (stk', st') \<leftarrow> so_push T stk item st;
        Some (lv\<lparr>lv_slot := (lv_slot lv)[s := stk'], occupied := occupied lv OR occupied_bit s\<rparr>, st')
      })"

definition Level_remove_entry ::
  "('stk, 'item, 'store) stack_ops \<Rightarrow> 'stk Level \<Rightarrow> u64 \<Rightarrow> 'item \<Rightarrow> 'store \<Rightarrow> ('stk Level \<times> 'store) option"
where
  "Level_remove_entry T lv whn item st =
     (let s = slot_for whn (lv_level lv) in do {
        stk \<leftarrow> index (lv_slot lv) s;
        (stk', st') \<leftarrow> so_remove T stk item st;
        let lv1 = lv\<lparr>lv_slot := (lv_slot lv)[s := stk']\<rparr>;
        Some (if so_is_empty T stk'
              then lv1\<lparr>occupied := occupied lv1 XOR occupied_bit s\<rparr> else lv1, st')
      })"

definition Level_pop_entry_slot ::
  "('stk, 'item, 'store) stack_ops \<Rightarrow> 'stk Level \<Rightarrow> nat \<Rightarrow> 'store \<Rightarrow> ('item option \<times> 'stk Level \<times> 'store) option"
where
  "Level_pop_entry_slot T lv s st = do {
     stk \<leftarrow> index (lv_slot lv) s;
     (ret, stk', st') \<leftarrow> so_pop T stk st;
     let lv1 = lv\<lparr>lv_slot := (lv_slot lv)[s := stk']\<rparr>;
     Some (ret, if ret \<noteq> None \<and> so_is_empty T stk'
                then lv1\<lparr>occupied := occupied lv1 XOR occupied_bit s\<rparr> else lv1, st')
   }"

section \<open>Blocks\<close>

definition blk :: "nat \<Rightarrow> u64 \<Rightarrow> nat" where
  "blk l t = unat t div 64 ^ l"

lemma blk_0 [simp]: "blk 0 t = unat t"
  by (simp add: blk_def)

lemma blk_Suc: "blk (Suc l) t = blk l t div 64"
  by (simp add: blk_def div_mult2_eq [symmetric] mult.commute)

lemma blk_add: "blk (l + m) t = blk l t div 64 ^ m"
  by (simp add: blk_def div_mult2_eq [symmetric] power_add)

lemma blk_mono: "t \<le> u \<Longrightarrow> blk l t \<le> blk l u"
  by (simp add: blk_def word_le_nat_alt div_le_mono)

lemma blk_drop_bit: "blk l t = unat (drop_bit (6 * l) t)"
proof -
  have "unat (drop_bit (6 * l) t) = drop_bit (6 * l) (unat t)"
    by (rule unat_drop_bit_eq)
  also have "\<dots> = unat t div 64 ^ l"
    by (simp only: drop_bit_eq_div power_mult) simp
  finally show ?thesis
    by (simp add: blk_def)
qed

lemma blk_eq_iff: "blk l t = blk l u \<longleftrightarrow> drop_bit (6 * l) t = drop_bit (6 * l) u"
  by (simp only: blk_drop_bit word_unat_eq_iff)

lemma blk_eq_up: "blk l t = blk l u \<Longrightarrow> l \<le> m \<Longrightarrow> blk m t = blk m u"
  using blk_add [of l "m - l"] by simp

lemma slot_for_blk: "slot_for t l = blk l t mod 64"
  by (simp add: slot_for_def LEVEL_MULT_def blk_drop_bit unat_mod_distrib mult.commute)

lemma slot_for_less [simp]: "slot_for t l < 64"
  by (simp add: slot_for_blk)

lemma power_64_less: "l < 10 \<Longrightarrow> (64::nat) ^ l < 2 ^ 64"
  using power_increasing [of l 9 "64::nat"] by simp

lemma unat_slot_range: "l < 6 \<Longrightarrow> unat (slot_range l) = 64 ^ l"
proof -
  assume "l < 6"
  have "slot_range l = of_nat (64 ^ l)"
    by (simp add: slot_range_def LEVEL_MULT_def)
  with \<open>l < 6\<close> power_64_less [of l] show ?thesis
    by (simp only: unat_of_nat) simp
qed

lemma unat_level_range: "l < 6 \<Longrightarrow> unat (level_range l) = 64 ^ Suc l"
proof -
  assume "l < 6"
  have "level_range l = of_nat (64 ^ Suc l)"
    by (simp add: level_range_def slot_range_def LEVEL_MULT_def)
  with \<open>l < 6\<close> power_64_less [of "Suc l"] show ?thesis
    by (simp only: unat_of_nat) simp
qed

lemma bit_occupied_bit: "s < 64 \<Longrightarrow> bit (occupied_bit s) n \<longleftrightarrow> n = s"
  by (auto simp: occupied_bit_def bit_simps)

lemma trailing_zeros_char:
  assumes "bit w n" and "\<And>j. j < n \<Longrightarrow> \<not> bit w j"
  shows "trailing_zeros w = n"
proof -
  have "n < 64"
    using bit_imp_le_length [OF assms(1)] by simp
  then have "takeWhile (\<lambda>i. \<not> bit w i) [0..<64] = [0..<n]"
    using assms by (intro takeWhile_upt) auto
  then show ?thesis
    by (simp add: trailing_zeros_def)
qed

lemma leading_zeros_char:
  assumes "bit w n" and "\<And>j. n < j \<Longrightarrow> \<not> bit w j"
  shows "63 - leading_zeros w = n"
proof -
  have n: "n < 64"
    using bit_imp_le_length [OF assms(1)] by simp
  then have "takeWhile (\<lambda>i. \<not> bit w (63 - i)) [0..<64] = [0..<63 - n]"
    using assms by (intro takeWhile_upt) auto
  then show ?thesis
    using n by (simp add: leading_zeros_def)
qed

lemma word_top_bit:
  fixes w :: u64
  assumes "w \<noteq> 0"
  obtains n where "bit w n" and "\<And>j. n < j \<Longrightarrow> \<not> bit w j"
proof -
  have ex: "\<exists>n. bit w n"
    using assms by (auto simp: bit_eq_iff)
  have bnd: "\<And>n. bit w n \<Longrightarrow> n \<le> 64"
    using bit_imp_le_length by fastforce
  have "bit w (Greatest (bit w))"
    using ex bnd by (metis GreatestI_nat)
  moreover have "\<not> bit w j" if "Greatest (bit w) < j" for j
    using Greatest_le_nat [of "bit w" j 64] bnd that by fastforce
  ultimately show ?thesis
    using that by blast
qed

section \<open>The next occupied slot\<close>

lemma add_mod_32_mod_64: "(i + b mod 2 ^ 32) mod 64 = (i + b) mod (64 :: nat)"
proof -
  have "b mod 2 ^ 32 mod 64 = b mod (64 :: nat)"
    by (rule mod_mod_cancel) simp
  then show ?thesis
    by (rule mod_add_cong [OF refl])
qed

lemma add_mod_small: "j + b mod 64 < 64 \<Longrightarrow> (j + b) mod 64 = j + b mod (64 :: nat)"
  by (subst mod_add_right_eq [symmetric]) simp

lemma unat_add_mod_64: "unat ((x + y) mod (64 :: u64)) = (unat x + unat y) mod 64"
proof -
  have "unat ((x + y) mod 64) = unat (x + y) mod 64"
    by (simp add: unat_mod_distrib)
  also have "\<dots> = (unat x + unat y) mod 2 ^ 64 mod 64"
    by (simp add: unat_word_ariths)
  also have "\<dots> = (unat x + unat y) mod 64"
    by (rule mod_mod_cancel) simp
  finally show ?thesis .
qed

text \<open>
  When no occupied slot lies behind the current one, rotating the bit field and counting zeros
  finds the least occupied slot.
\<close>

lemma next_occupied_slot_least:
  assumes l: "lv_level lv < 6" and bits: "\<And>s. bit (occupied lv) s \<Longrightarrow> blk (lv_level lv) now mod 64 \<le> s"
    and s: "bit (occupied lv) s" and least: "\<And>s'. bit (occupied lv) s' \<Longrightarrow> s \<le> s'"
  shows "next_occupied_slot lv now = Some s"
proof -
  let ?b = "blk (lv_level lv) now"
  let ?c = "?b mod 64"
  define now_slot where "now_slot = now div slot_range (lv_level lv)"
  have ns: "unat now_slot = ?b"
    by (simp add: now_slot_def unat_div_distrib unat_slot_range l blk_def)
  define occ where "occ = word_rotr (unat (ucast now_slot :: u32)) (occupied lv)"
  have s64: "s < 64"
    using bit_imp_le_length [OF s] by simp
  have rot: "unat (ucast now_slot :: u32) = ?b mod 2 ^ 32"
    by (simp add: unsigned_ucast_eq ns take_bit_eq_mod)
  have occ_bit: "bit occ i \<longleftrightarrow> i < 64 \<and> bit (occupied lv) ((i + ?b) mod 64)" for i
    by (simp add: occ_def bit_word_rotr_iff rot add_mod_32_mod_64 [simplified])
  have c: "?c \<le> s"
    using bits [OF s] .
  have at: "(s - ?c + ?b) mod 64 = s"
    using c s64 add_mod_small [of "s - ?c" ?b] by simp
  have "\<not> bit occ j" if "j < s - ?c" for j
  proof
    assume "bit occ j"
    moreover have "(j + ?b) mod 64 = j + ?c"
      using that s64 by (intro add_mod_small) simp
    ultimately have "s \<le> j + ?c"
      using occ_bit least by metis
    with that show False by simp
  qed
  moreover have "bit occ (s - ?c)"
    using s s64 at by (simp add: occ_bit)
  ultimately have "trailing_zeros occ = s - ?c"
    by (intro trailing_zeros_char)
  moreover have "unat ((of_nat (s - ?c) + now_slot) mod (64 :: u64)) = s"
    using at s64 by (simp add: unat_add_mod_64 ns unat_of_nat)
  moreover have "occupied lv \<noteq> 0"
    using s by auto
  ultimately show ?thesis
    by (simp add: next_occupied_slot_def Let_def now_slot_def [symmetric] occ_def [symmetric])
qed

lemma next_occupied_slot_None: "next_occupied_slot lv now = None \<longleftrightarrow> occupied lv = 0"
  by (simp add: next_occupied_slot_def Let_def)

text \<open>The deadline computed for the slot of an instant of the current range is the start of its block.\<close>

lemma blk_le: "blk l t * 64 ^ l \<le> unat t"
  by (simp add: blk_def)

lemma blk_split: "blk l t * 64 ^ l = blk (Suc l) t * 64 ^ Suc l + blk l t mod 64 * 64 ^ l"
proof -
  have "blk l t = blk (Suc l) t * 64 + blk l t mod 64"
    by (simp add: blk_Suc)
  then have "blk l t * 64 ^ l = (blk (Suc l) t * 64 + blk l t mod 64) * 64 ^ l"
    by simp
  then show ?thesis
    by (simp add: algebra_simps)
qed

lemma deadline_blk:
  assumes l: "l < 6" and rng: "blk (Suc l) t = blk (Suc l) now"
  shows "unat (now - now mod level_range l + of_nat (blk l t mod 64) * slot_range l) = blk l t * 64 ^ l"
proof -
  have "now mod level_range l \<le> now"
    by (simp add: word_le_nat_alt unat_mod_distrib)
  then have "unat (now - now mod level_range l) = unat now - unat now mod 64 ^ Suc l"
    by (simp only: unat_sub unat_mod_distrib unat_level_range [OF l])
  also have "\<dots> = blk (Suc l) now * 64 ^ Suc l"
    by (simp add: blk_def minus_mod_eq_div_mult)
  finally have start: "unat (now - now mod level_range l) = blk (Suc l) t * 64 ^ Suc l"
    by (simp add: rng)
  have sl: "unat (of_nat (blk l t mod 64) :: u64) = blk l t mod 64"
    by (simp add: unat_of_nat)
  have tot: "blk (Suc l) t * 64 ^ Suc l + blk l t mod 64 * 64 ^ l < 2 ^ 64"
    using blk_le [of l t] u64_bound [of t] blk_split [of l t] by simp
  then have "unat (of_nat (blk l t mod 64) * slot_range l) = blk l t mod 64 * 64 ^ l"
    by (simp add: unat_word_ariths sl unat_slot_range l)
  with start tot show ?thesis
    by (simp add: unat_word_ariths blk_split [of l t] del: power_Suc)
qed

lemma Level_next_expiration_least:
  assumes "lv_level lv < 6" and "\<And>s. bit (occupied lv) s \<Longrightarrow> blk (lv_level lv) now mod 64 \<le> s"
    and "bit (occupied lv) (blk (lv_level lv) t mod 64)"
    and "\<And>s'. bit (occupied lv) s' \<Longrightarrow> blk (lv_level lv) t mod 64 \<le> s'"
    and "blk (Suc (lv_level lv)) t = blk (Suc (lv_level lv)) now"
  shows "\<exists>d. Level_next_expiration lv now =
      Some \<lparr>ex_level = lv_level lv, ex_slot = blk (lv_level lv) t mod 64, ex_deadline = d\<rparr> \<and>
    unat d = blk (lv_level lv) t * 64 ^ lv_level lv"
  using next_occupied_slot_least [OF assms(1-4)] deadline_blk [OF assms(1,5)]
  by (simp add: Level_next_expiration_def Let_def)

lemma Level_next_expiration_None: "Level_next_expiration lv now = None \<longleftrightarrow> occupied lv = 0"
  using next_occupied_slot_None [of lv now]
  by (auto simp: Level_next_expiration_def Let_def split: option.splits)

end
