(* ===== verification/Timer_Wheel.thy ===== *)
theory Timer_Wheel
  imports Timer_Level
begin

unbundle bit_operations_syntax

text \<open>
  The hashed hierarchical timing wheel (src/timer/wheel/mod.rs): six levels of 64 slots, a slot of
  level \<open>l\<close> covering \<open>64 ^ l\<close> milliseconds.

  The operations are generic in the stack implementation, passed as the record of Timer\_Stack.
  \<open>wheel_rep\<close> relates a wheel and its store to the lists of items its slots hold, and
  \<open>wheel_inv\<close> places each item by its deadline.  The lemmas of the context block show, for every
  implementation that keeps the promise of \<open>stack_trait\<close>, that insertion, removal and polling keep
  both, that polling terminates, hands items out in the order of their deadlines and never early,
  and that it leaves no item behind that is due.
\<close>

section \<open>The wheel\<close>

record 'stk Wheel =
  elapsed :: u64
  levels :: "'stk Level list"

datatype InsertError = Elapsed | Invalid

record Poll =
  p_now :: u64
  p_expiration :: "Expiration option"

definition NUM_LEVELS :: nat where
  "NUM_LEVELS = 6"

definition MAX_DURATION :: u64 where
  "MAX_DURATION = push_bit (6 * NUM_LEVELS) 1"

definition Wheel_new :: "('stk, 'item, 'store) stack_ops \<Rightarrow> 'stk Wheel" where
  "Wheel_new T = \<lparr>elapsed = 0, levels = map (Level_new T) [0..<NUM_LEVELS]\<rparr>"

definition level_for :: "u64 \<Rightarrow> u64 \<Rightarrow> nat option" where
  "level_for elapsed_ms whn =
     (let masked = elapsed_ms XOR whn in
      if masked = 0 then None
      else
        let leading_zeros = leading_zeros masked;
            significant = 63 - leading_zeros
        in Some (significant div 6))"

definition Wheel_insert ::
  "('stk, 'item, 'store) stack_ops \<Rightarrow> 'stk Wheel \<Rightarrow> u64 \<Rightarrow> 'item \<Rightarrow> 'store \<Rightarrow>
   ((unit, 'item \<times> InsertError) result \<times> 'stk Wheel \<times> 'store) option"
where
  "Wheel_insert T w whn item st =
     (if whn \<le> elapsed w then Some (Err (item, Elapsed), w, st)
      else if whn - elapsed w > MAX_DURATION then Some (Err (item, Invalid), w, st)
      else do {
        level \<leftarrow> level_for (elapsed w) whn;
        lv \<leftarrow> index (levels w) level;
        (lv', st') \<leftarrow> Level_add_entry T lv whn item st;
        Some (Ok (), w\<lparr>levels := (levels w)[level := lv']\<rparr>, st')
      })"

definition Wheel_remove ::
  "('stk, 'item, 'store) stack_ops \<Rightarrow> 'stk Wheel \<Rightarrow> 'item \<Rightarrow> 'store \<Rightarrow> ('stk Wheel \<times> 'store) option"
where
  "Wheel_remove T w item st = do {
     whn \<leftarrow> so_when T item st;
     level \<leftarrow> level_for (elapsed w) whn;
     lv \<leftarrow> index (levels w) level;
     (lv', st') \<leftarrow> Level_remove_entry T lv whn item st;
     Some (w\<lparr>levels := (levels w)[level := lv']\<rparr>, st')
   }"

fun next_expiration_from :: "'stk Wheel \<Rightarrow> nat list \<Rightarrow> Expiration option option" where
  "next_expiration_from w [] = Some None"
| "next_expiration_from w (level # ls) = do {
     lv \<leftarrow> index (levels w) level;
     (case Level_next_expiration lv (elapsed w) of
        Some expiration \<Rightarrow> Some (Some expiration)
      | None \<Rightarrow> next_expiration_from w ls)
   }"

definition Wheel_next_expiration :: "'stk Wheel \<Rightarrow> Expiration option option" where
  "Wheel_next_expiration w = next_expiration_from w [0..<NUM_LEVELS]"

definition Wheel_poll_at :: "'stk Wheel \<Rightarrow> u64 option option" where
  "Wheel_poll_at w = do {
     e \<leftarrow> Wheel_next_expiration w;
     Some (map_option ex_deadline e)
   }"

fun no_expirations_before :: "'stk Wheel \<Rightarrow> nat list \<Rightarrow> u64 \<Rightarrow> bool option" where
  "no_expirations_before w [] before = Some True"
| "no_expirations_before w (l2 # ls) before = do {
     lv \<leftarrow> index (levels w) l2;
     res \<leftarrow> no_expirations_before w ls before;
     Some ((case Level_next_expiration lv (elapsed w) of
              Some e2 \<Rightarrow> \<not> ex_deadline e2 < before
            | None \<Rightarrow> True) \<and> res)
   }"

definition Wheel_set_elapsed :: "'stk Wheel \<Rightarrow> u64 \<Rightarrow> 'stk Wheel option" where
  "Wheel_set_elapsed w whn =
     (if elapsed w \<le> whn
      then Some (if whn > elapsed w then w\<lparr>elapsed := whn\<rparr> else w)
      else None)"

definition Wheel_pop_entry ::
  "('stk, 'item, 'store) stack_ops \<Rightarrow> 'stk Wheel \<Rightarrow> Expiration \<Rightarrow> 'store \<Rightarrow>
   ('item option \<times> 'stk Wheel \<times> 'store) option"
where
  "Wheel_pop_entry T w e st = do {
     lv \<leftarrow> index (levels w) (ex_level e);
     (ret, lv', st') \<leftarrow> Level_pop_entry_slot T lv (ex_slot e) st;
     Some (ret, w\<lparr>levels := (levels w)[ex_level e := lv']\<rparr>, st')
   }"

partial_function (option) Wheel_poll_expiration ::
  "('stk, 'item, 'store) stack_ops \<Rightarrow> 'stk Wheel \<Rightarrow> Expiration \<Rightarrow> 'store \<Rightarrow>
   ('item option \<times> 'stk Wheel \<times> 'store) option"
where
  "Wheel_poll_expiration T w e st = do {
     (ret, w1, st1) \<leftarrow> Wheel_pop_entry T w e st;
     (case ret of
        None \<Rightarrow> Some (None, w1, st1)
      | Some item \<Rightarrow>
          if ex_level e = 0 then Some (Some item, w1, st1)
          else do {
            whn \<leftarrow> so_when T item st1;
            let next_level = ex_level e - 1;
            lv \<leftarrow> index (levels w1) next_level;
            (lv', st2) \<leftarrow> Level_add_entry T lv whn item st1;
            Wheel_poll_expiration T (w1\<lparr>levels := (levels w1)[next_level := lv']\<rparr>) e st2
          })
   }"

definition Poll_new :: "u64 \<Rightarrow> Poll" where
  "Poll_new now = \<lparr>p_now = now, p_expiration = None\<rparr>"

partial_function (option) Wheel_poll ::
  "('stk, 'item, 'store) stack_ops \<Rightarrow> 'stk Wheel \<Rightarrow> Poll \<Rightarrow> 'store \<Rightarrow>
   ('item option \<times> 'stk Wheel \<times> Poll \<times> 'store) option"
where
  "Wheel_poll T w p st = do {
     p1 \<leftarrow> (if p_expiration p = None
            then do {
              ne \<leftarrow> Wheel_next_expiration w;
              Some (p\<lparr>p_expiration :=
                (case ne of
                   None \<Rightarrow> None
                 | Some expiration \<Rightarrow>
                     if ex_deadline expiration > p_now p then None else Some expiration)\<rparr>)
            }
            else Some p);
     (case p_expiration p1 of
        Some expiration \<Rightarrow> do {
          (ret, w1, st1) \<leftarrow> Wheel_poll_expiration T w expiration st;
          (case ret of
             Some item \<Rightarrow> Some (Some item, w1, p1, st1)
           | None \<Rightarrow> do {
               w2 \<leftarrow> Wheel_set_elapsed w1 (ex_deadline expiration);
               Wheel_poll T w2 (p1\<lparr>p_expiration := None\<rparr>) st1
             })
        }
      | None \<Rightarrow> do {
          w1 \<leftarrow> Wheel_set_elapsed w (p_now p1);
          Some (None, w1, p1, st)
        })
   }"

declare Wheel_poll_expiration.simps [code] Wheel_poll.simps [code]

section \<open>The level of an entry\<close>

lemma xor_eq_0: "(x :: u64) XOR y = 0 \<longleftrightarrow> x = y"
  by (auto simp: bit_eq_iff bit_xor_iff)

lemma blk_eq_bits: "blk m t = blk m u \<longleftrightarrow> (\<forall>j\<ge>6 * m. bit t j = bit u j)"
proof
  assume "blk m t = blk m u"
  then have "bit (drop_bit (6 * m) t) n = bit (drop_bit (6 * m) u) n" for n
    by (simp only: blk_eq_iff)
  then show "\<forall>j\<ge>6 * m. bit t j = bit u j"
    by (auto simp: bit_drop_bit_eq dest!: le_Suc_ex)
next
  assume "\<forall>j\<ge>6 * m. bit t j = bit u j"
  then have "drop_bit (6 * m) t = drop_bit (6 * m) u"
    by (intro bit_word_eqI) (simp add: bit_drop_bit_eq)
  then show "blk m t = blk m u"
    by (simp only: blk_eq_iff)
qed

lemma level_for_None: "level_for e t = None \<longleftrightarrow> e = t"
  by (simp add: level_for_def Let_def xor_eq_0)

lemma level_for_Some:
  "level_for e t = Some l \<longleftrightarrow> blk (Suc l) e = blk (Suc l) t \<and> blk l e \<noteq> blk l t"
proof (cases "e = t")
  case True
  then show ?thesis by (simp add: level_for_def)
next
  case False
  then have ne: "e XOR t \<noteq> 0" by (simp add: xor_eq_0)
  then obtain n where n: "bit (e XOR t) n" "\<And>j. n < j \<Longrightarrow> \<not> bit (e XOR t) j"
    using word_top_bit by blast
  have "blk m e = blk m t \<longleftrightarrow> n div 6 < m" for m
  proof -
    have "blk m e = blk m t \<longleftrightarrow> (\<forall>j\<ge>6 * m. \<not> bit (e XOR t) j)"
      by (auto simp: blk_eq_bits bit_xor_iff)
    also have "\<dots> \<longleftrightarrow> n < 6 * m"
      using n by (metis le_less_trans not_less)
    finally show ?thesis
      by (simp add: div_less_iff_less_mult mult.commute)
  qed
  moreover have "level_for e t = Some (n div 6)"
    using leading_zeros_char [OF n] ne by (simp add: level_for_def Let_def)
  ultimately show ?thesis
    by (auto simp: less_Suc_eq)
qed

lemma level_for_less_6:
  "e \<noteq> t \<Longrightarrow> blk 6 e = blk 6 t \<Longrightarrow> \<exists>l<6. level_for e t = Some l"
proof -
  assume "e \<noteq> t" and eq: "blk 6 e = blk 6 t"
  then obtain l where l: "level_for e t = Some l"
    by (metis level_for_None not_Some_eq)
  with eq have "l < 6"
    by (metis blk_eq_up level_for_Some not_less)
  with l show ?thesis by blast
qed

section \<open>The lists the slots hold\<close>

text \<open>
  \<open>wheel_rep rep w st F\<close>: in the store \<open>st\<close>, slot \<open>s\<close> of level \<open>l\<close> of \<open>w\<close> holds the list
  \<open>F (l, s)\<close>, no item is in two slots, and the bit fields mark the slots that are not empty.
\<close>

definition wheel_shape :: "'stk Wheel \<Rightarrow> bool" where
  "wheel_shape w \<longleftrightarrow> length (levels w) = 6 \<and>
     (\<forall>l<6. lv_level (levels w ! l) = l \<and> length (lv_slot (levels w ! l)) = 64)"

definition wheel_rep ::
  "('stk \<Rightarrow> 'store \<Rightarrow> 'item list \<Rightarrow> bool) \<Rightarrow> 'stk Wheel \<Rightarrow> 'store \<Rightarrow> (nat \<times> nat \<Rightarrow> 'item list) \<Rightarrow> bool"
where
  "wheel_rep rep w st F \<longleftrightarrow> wheel_shape w \<and>
     (\<forall>l<6. \<forall>s<64. rep (lv_slot (levels w ! l) ! s) st (F (l, s))) \<and>
     (\<forall>l<6. \<forall>s. bit (occupied (levels w ! l)) s \<longleftrightarrow> F (l, s) \<noteq> []) \<and>
     (\<forall>p q. p \<noteq> q \<longrightarrow> set (F p) \<inter> set (F q) = {}) \<and>
     (\<forall>l s. 6 \<le> l \<or> 64 \<le> s \<longrightarrow> F (l, s) = [])"

definition items :: "(nat \<times> nat \<Rightarrow> 'item list) \<Rightarrow> 'item set" where
  "items F = (\<Union>p. set (F p))"

lemma in_items: "x \<in> items F \<longleftrightarrow> (\<exists>l s. x \<in> set (F (l, s)))"
  by (auto simp: items_def)

lemma items_I: "x \<in> set (F p) \<Longrightarrow> x \<in> items F"
  unfolding items_def by blast

lemma wheel_rep_shape:
  assumes "wheel_rep rep w st F" and "l < 6"
  shows "l < length (levels w)" and "lv_level (levels w ! l) = l"
    and "length (lv_slot (levels w ! l)) = 64"
  using assms by (auto simp: wheel_rep_def wheel_shape_def)

lemma wheel_rep_slot: "wheel_rep rep w st F \<Longrightarrow> l < 6 \<Longrightarrow> s < 64 \<Longrightarrow> rep (lv_slot (levels w ! l) ! s) st (F (l, s))"
  by (simp add: wheel_rep_def)

lemma wheel_rep_bit: "wheel_rep rep w st F \<Longrightarrow> l < 6 \<Longrightarrow> bit (occupied (levels w ! l)) s \<longleftrightarrow> F (l, s) \<noteq> []"
  by (simp add: wheel_rep_def)

lemma wheel_rep_range: "wheel_rep rep w st F \<Longrightarrow> x \<in> set (F (l, s)) \<Longrightarrow> l < 6 \<and> s < 64"
  unfolding wheel_rep_def by (metis empty_iff empty_set not_less)

lemma wheel_rep_disjoint: "wheel_rep rep w st F \<Longrightarrow> x \<in> set (F p) \<Longrightarrow> x \<in> set (F q) \<Longrightarrow> p = q"
  unfolding wheel_rep_def by blast

lemma wheel_rep_Int: "wheel_rep rep w st F \<Longrightarrow> p \<noteq> q \<Longrightarrow> set (F p) \<inter> set (F q) = {}"
  unfolding wheel_rep_def by blast

lemma wheel_rep_elapsed [simp]: "wheel_rep rep (w\<lparr>elapsed := e\<rparr>) st F = wheel_rep rep w st F"
  by (simp add: wheel_rep_def wheel_shape_def)

lemma bit_clear_occupied:
  assumes "s < 64" and "bit occ s"
  shows "bit (if b then occ XOR occupied_bit s else occ) n = (if n = s then \<not> b else bit occ n)"
  using assms by (auto simp: bit_xor_iff bit_occupied_bit)

text \<open>Replacing the contents of one slot.\<close>

lemma wheel_rep_update:
  assumes wr: "wheel_rep rep w st F" and l: "l < 6" and s: "s < 64"
    and new: "rep stk st' xs"
    and keep: "keeps T rep free view A st st'" and A: "\<And>p. p \<noteq> (l, s) \<Longrightarrow> set (F p) \<inter> A = {}"
    and xs: "set xs \<subseteq> A"
    and occ: "\<And>n. bit occ n \<longleftrightarrow> (if n = s then xs \<noteq> [] else bit (occupied (levels w ! l)) n)"
  shows "wheel_rep rep (w\<lparr>levels := (levels w)[l := (levels w ! l)\<lparr>
      lv_slot := (lv_slot (levels w ! l))[s := stk], occupied := occ\<rparr>]\<rparr>) st' (F((l, s) := xs))"
proof -
  let ?lv = "(levels w ! l)\<lparr>lv_slot := (lv_slot (levels w ! l))[s := stk], occupied := occ\<rparr>"
  let ?w = "w\<lparr>levels := (levels w)[l := ?lv]\<rparr>" and ?F = "F((l, s) := xs)"
  have sh: "wheel_shape w" using wr by (simp add: wheel_rep_def)
  have nth: "levels ?w ! l' = (if l' = l then ?lv else levels w ! l')" if "l' < 6" for l'
    using sh l that by (simp add: wheel_shape_def nth_list_update)
  have "wheel_shape ?w"
    using sh l by (auto simp: wheel_shape_def nth_list_update)
  moreover have "rep (lv_slot (levels ?w ! l') ! s') st' (?F (l', s'))" if "l' < 6" "s' < 64" for l' s'
  proof (cases "(l', s') = (l, s)")
    case True
    with new l s sh show ?thesis
      by (simp add: nth wheel_shape_def)
  next
    case False
    then have "rep (lv_slot (levels w ! l') ! s') st' (F (l', s'))"
      using keeps_rep [OF keep wheel_rep_slot [OF wr that] A] by simp
    with False show ?thesis
      unfolding nth [OF that(1)] by (cases "l' = l") auto
  qed
  moreover have "bit (occupied (levels ?w ! l')) s' \<longleftrightarrow> ?F (l', s') \<noteq> []" if "l' < 6" for l' s'
    unfolding nth [OF that] using wheel_rep_bit [OF wr that, of s'] occ by auto
  moreover have "set (?F p) \<inter> set (?F q) = {}" if "p \<noteq> q" for p q
    using wheel_rep_Int [OF wr that] A [of p] A [of q] xs that by auto
  moreover have "?F (l', s') = []" if "6 \<le> l' \<or> 64 \<le> s'" for l' s'
    using wr that l s by (auto simp: wheel_rep_def)
  ultimately show ?thesis
    unfolding wheel_rep_def by blast
qed

section \<open>The placement invariant\<close>

text \<open>
  An item due at \<open>t\<close> stands at level \<open>l\<close> when \<open>t\<close> and the elapsed time agree on the blocks of
  level \<open>l + 1\<close> and differ on those of level \<open>l\<close>.  Between two rounds of \<^verbatim>\<open>poll\<close> the items just
  moved down to level \<open>k\<close> may lie in the current block of that level; then the levels below are
  empty and the elapsed time is a multiple of \<open>64 ^ k\<close>.  Outside \<^verbatim>\<open>poll\<close>, \<open>k\<close> is 0.
\<close>

definition placed :: "nat \<Rightarrow> u64 \<Rightarrow> nat \<times> nat \<Rightarrow> u64 \<Rightarrow> bool" where
  "placed k e p t \<longleftrightarrow> snd p = blk (fst p) t mod 64 \<and> e \<le> t \<and>
     blk (Suc (fst p)) t = blk (Suc (fst p)) e \<and> (blk (fst p) t = blk (fst p) e \<longrightarrow> fst p = k)"

definition wheel_inv ::
  "nat \<Rightarrow> ('item \<Rightarrow> u64 option) \<Rightarrow> u64 \<Rightarrow> (nat \<times> nat \<Rightarrow> 'item list) \<Rightarrow> bool"
where
  "wheel_inv k whn e F \<longleftrightarrow> (\<forall>p. \<forall>x\<in>set (F p). \<exists>t. whn x = Some t \<and> placed k e p t) \<and>
     64 ^ k dvd unat e \<and> (\<forall>l<k. \<forall>s. F (l, s) = [])"

text \<open>Slot \<open>s\<close> of level \<open>l\<close> is the first to expire, and \<open>d\<close> is the start of its block.\<close>

definition first_slot ::
  "('item \<Rightarrow> u64 option) \<Rightarrow> u64 \<Rightarrow> (nat \<times> nat \<Rightarrow> 'item list) \<Rightarrow> nat \<Rightarrow> nat \<Rightarrow> u64 \<Rightarrow> bool"
where
  "first_slot whn e F l s d \<longleftrightarrow> e \<le> d \<and> 64 ^ l dvd unat d \<and> blk (Suc l) d = blk (Suc l) e \<and>
     s = blk l d mod 64 \<and> (\<forall>l'<l. \<forall>s'. F (l', s') = []) \<and>
     (\<forall>x\<in>items F. \<forall>t. whn x = Some t \<longrightarrow> d \<le> t) \<and>
     (\<forall>x\<in>set (F (l, s)). \<forall>t. whn x = Some t \<longrightarrow> blk l t = blk l d)"

lemma wheel_invD:
  assumes "wheel_inv k whn e F" and "x \<in> set (F (l, s))"
  obtains t where "whn x = Some t" and "s = blk l t mod 64" and "e \<le> t"
    and "blk (Suc l) t = blk (Suc l) e" and "blk l t = blk l e \<Longrightarrow> l = k" and "k \<le> l"
proof -
  have "F (l, s) \<noteq> []"
    using assms(2) by auto
  then have "k \<le> l"
    using assms(1) unfolding wheel_inv_def by (metis not_less)
  then show ?thesis
    using assms that unfolding wheel_inv_def placed_def by (metis fst_conv snd_conv)
qed

lemma wheel_inv_level: "wheel_inv k whn e F \<Longrightarrow> F (l, s) \<noteq> [] \<Longrightarrow> k \<le> l"
  unfolding wheel_inv_def by (meson not_less)

lemma first_slotD:
  assumes "first_slot whn e F l s d"
  shows "e \<le> d" and "64 ^ l dvd unat d" and "blk (Suc l) d = blk (Suc l) e" and "s = blk l d mod 64"
    and "l' < l \<Longrightarrow> F (l', s') = []" and "x \<in> items F \<Longrightarrow> whn x = Some t \<Longrightarrow> d \<le> t"
    and "x \<in> set (F (l, s)) \<Longrightarrow> whn x = Some t \<Longrightarrow> blk l t = blk l d"
  using assms unfolding first_slot_def by blast+

lemma first_slot_level:
  assumes "first_slot whn e F l s d" and "x \<in> set (F (l', s'))"
  shows "l \<le> l'"
proof -
  have "F (l', s') \<noteq> []"
    using assms(2) by auto
  then show ?thesis
    using first_slotD(5) [OF assms(1)] not_less by blast
qed

lemma wheel_inv_items_when: "wheel_inv k whn e F \<Longrightarrow> x \<in> items F \<Longrightarrow> \<exists>t. whn x = Some t \<and> e \<le> t"
  unfolding items_def wheel_inv_def placed_def by blast

lemma wheel_inv_subset:
  assumes "wheel_inv k whn e F" and "\<And>p. set (F' p) \<subseteq> set (F p)"
  shows "wheel_inv k whn e F'"
proof -
  have "F' p = []" if "F p = []" for p
    using assms(2) [of p] that by simp
  then show ?thesis
    using assms unfolding wheel_inv_def by blast
qed

lemma blk_between: "blk l a = blk l c \<Longrightarrow> a \<le> b \<Longrightarrow> b \<le> c \<Longrightarrow> blk l b = blk l a"
  using blk_mono [of a b l] blk_mono [of b c l] by simp

lemma blk_less_dvd: "64 ^ l dvd unat d \<Longrightarrow> b < d \<Longrightarrow> blk l b < blk l d"
  by (auto simp: blk_def word_less_nat_alt less_mult_imp_div_less mult.commute elim!: dvdE)

lemma blk_mod_mono:
  "blk (Suc l) t = blk (Suc l) u \<Longrightarrow> blk l t mod 64 \<le> blk l u mod 64 \<longleftrightarrow> blk l t \<le> blk l u"
  unfolding blk_Suc by (metis add_le_cancel_left div_mult_mod_eq)

text \<open>The placement after the first slot has been emptied and its start has become the elapsed time.\<close>

lemma advance_placed:
  assumes inv: "wheel_inv k whn e F" and fs: "first_slot whn e F l s d"
    and x: "x \<in> set (F p)" "p \<noteq> (l, s)" and whn: "whn x = Some t" and k: "k \<le> l"
  shows "placed k' d p t"
proof -
  obtain l' s' where p: "p = (l', s')" by force
  have l': "l \<le> l'"
    using first_slot_level [OF fs] x p by simp
  have up: "blk m d = blk m e" if "Suc l \<le> m" for m
    using first_slotD(3) [OF fs] that by (rule blk_eq_up)
  have t: "s' = blk l' t mod 64" "blk (Suc l') t = blk (Suc l') e" "blk l' t = blk l' e \<Longrightarrow> l' = k"
    using wheel_invD [OF inv x(1) [unfolded p]] whn by (metis option.inject)+
  have "d \<le> t"
    using first_slotD(6) [OF fs _ whn] items_I [of x F p, OF x(1)] by simp
  moreover have "blk l' t \<noteq> blk l' d"
  proof (cases "l' = l")
    case True
    then have "s' \<noteq> s" using x p by simp
    then show ?thesis
      using True t(1) first_slotD(4) [OF fs] by metis
  next
    case False
    then show ?thesis
      using l' up [of l'] k t(3) by auto
  qed
  ultimately show ?thesis
    using t p l' up [of "Suc l'"] by (simp add: placed_def)
qed

lemma advance_inv:
  assumes inv: "wheel_inv k whn e F" and fs: "first_slot whn e F l s d" and k: "k \<le> l"
    and sub: "\<And>p. set (F' p) \<subseteq> set (F p)" and emp: "F' (l, s) = []" and k': "k' \<le> l"
  shows "wheel_inv k' whn d F'"
  unfolding wheel_inv_def
proof (intro conjI allI impI ballI)
  fix p x
  assume x: "x \<in> set (F' p)"
  then have "x \<in> set (F p)" "p \<noteq> (l, s)"
    using sub [of p] emp by auto
  moreover obtain t where "whn x = Some t"
    using wheel_inv_items_when [OF inv items_I [of x F p]] calculation by blast
  ultimately show "\<exists>t. whn x = Some t \<and> placed k' d p t"
    using advance_placed [OF inv fs _ _ _ k] by blast
next
  show "64 ^ k' dvd unat d"
    using le_imp_power_dvd [OF k'] first_slotD(2) [OF fs] by (rule dvd_trans)
next
  fix l' s'
  assume "l' < k'"
  then have "F (l', s') = []"
    using first_slotD(5) [OF fs] k' by simp
  then show "F' (l', s') = []"
    using sub [of "(l', s')"] by simp
qed

text \<open>The placement after the first slot's items have been moved one level down.\<close>

lemma cascade_inv:
  assumes inv: "wheel_inv k whn e F" and fs: "first_slot whn e F (Suc m) s d" and k: "k \<le> Suc m"
    and emp: "F' (Suc m, s) = []"
    and moved: "\<And>p x. x \<in> set (F' p) \<Longrightarrow> x \<in> set (F p) \<or>
      x \<in> set (F (Suc m, s)) \<and> (\<forall>t. whn x = Some t \<longrightarrow> p = (m, slot_for t m))"
  shows "wheel_inv m whn d F'"
  unfolding wheel_inv_def
proof (intro conjI allI impI ballI)
  fix p x
  assume x: "x \<in> set (F' p)"
  have "x \<in> items F"
    using moved [OF x] items_I [of x F p] items_I [of x F "(Suc m, s)"] by blast
  then obtain t where t: "whn x = Some t" "d \<le> t"
    using wheel_inv_items_when [OF inv] first_slotD(6) [OF fs] by blast
  from moved [OF x] show "\<exists>t. whn x = Some t \<and> placed m d p t"
  proof
    assume "x \<in> set (F p)"
    moreover have "p \<noteq> (Suc m, s)"
      using x emp by auto
    ultimately show ?thesis
      using t advance_placed [OF inv fs _ _ _ k] by blast
  next
    assume "x \<in> set (F (Suc m, s)) \<and> (\<forall>t. whn x = Some t \<longrightarrow> p = (m, slot_for t m))"
    then show ?thesis
      using first_slotD(7) [OF fs _ t(1)] t by (simp add: placed_def slot_for_blk)
  qed
next
  show "64 ^ m dvd unat d"
    using first_slotD(2) [OF fs] by (simp add: dvd_mult_right)
next
  fix l' s'
  assume "l' < m"
  then have "F (l', s') = []"
    using first_slotD(5) [OF fs] by simp
  moreover have "x \<notin> set (F' (l', s'))" for x
    using moved [of x "(l', s')"] calculation \<open>l' < m\<close> wheel_inv_items_when [OF inv items_I, of x "(Suc m, s)"]
    by auto
  ultimately show "F' (l', s') = []"
    by (cases "F' (l', s')") auto
qed

text \<open>The placement when no slot expires up to \<open>now\<close>, which becomes the elapsed time.\<close>

lemma stop_inv:
  assumes inv: "wheel_inv k whn e F" and fs: "first_slot whn e F l s d" and k: "k \<le> l"
    and now: "e \<le> now" "now < d"
  shows "wheel_inv 0 whn now F"
proof -
  have "\<exists>t. whn x = Some t \<and> placed 0 now (l', s') t" if x: "x \<in> set (F (l', s'))" for x l' s'
    using inv x
  proof (rule wheel_invD)
    fix t
    assume t: "whn x = Some t" "s' = blk l' t mod 64" "e \<le> t" "blk (Suc l') t = blk (Suc l') e"
      and cur: "blk l' t = blk l' e \<Longrightarrow> l' = k"
    have d: "d \<le> t"
      using first_slotD(6) [OF fs items_I [of x F "(l', s')"] t(1)] x by simp
    then have nt: "now \<le> t" using now by simp
    have l': "l \<le> l'"
      using first_slot_level [OF fs x] .
    have "blk l' now \<noteq> blk l' t"
    proof (cases "l' = l")
      case True
      then show ?thesis
        using blk_less_dvd [OF first_slotD(2) [OF fs] now(2)] blk_mono [OF d, of l] by simp
    next
      case False
      then have "blk l' d = blk l' e"
        using l' by (intro blk_eq_up [OF first_slotD(3) [OF fs]]) simp
      then have "blk l' now = blk l' e"
        using now blk_between [of l' e d now] by simp
      then show ?thesis
        using cur False l' k by auto
    qed
    moreover have "blk (Suc l') now = blk (Suc l') e"
      using blk_between [of "Suc l'" e t now] t(4) now(1) nt by simp
    ultimately show ?thesis
      using t nt by (simp add: placed_def)
  qed
  then show ?thesis
    by (auto simp: wheel_inv_def)
qed

context stack_trait
begin

lemma add_entry_rep:
  assumes wr: "wheel_rep rep w st F" and l: "l < 6" and x: "free st x" "x \<notin> items F"
  shows "\<exists>lv' st'. Level_add_entry T (levels w ! l) t x st = Some (lv', st') \<and>
    wheel_rep rep (w\<lparr>levels := (levels w)[l := lv']\<rparr>) st'
      (F((l, slot_for t l) := x # F (l, slot_for t l))) \<and>
    keeps T rep free view (insert x (items F)) st st'"
proof -
  let ?s = "slot_for t l" and ?lv = "levels w ! l"
  have slot: "rep (lv_slot ?lv ! ?s) st (F (l, ?s))"
    using wr l by (simp add: wheel_rep_slot)
  have "x \<notin> set (F (l, ?s))"
    using x by (auto simp: in_items)
  with push_law [OF slot x(1)] obtain s' st' where push: "so_push T (lv_slot ?lv ! ?s) x st = Some (s', st')"
      and new: "rep s' st' (x # F (l, ?s))" and keep: "keeps T rep free view (set (x # F (l, ?s))) st st'"
    by blast
  have "wheel_rep rep (w\<lparr>levels := (levels w)[l := ?lv\<lparr>lv_slot := (lv_slot ?lv)[?s := s'],
      occupied := occupied ?lv OR occupied_bit ?s\<rparr>]\<rparr>) st' (F((l, ?s) := x # F (l, ?s)))"
    using wr l new keep
  proof (rule wheel_rep_update [OF _ _ slot_for_less])
    show "set (F p) \<inter> set (x # F (l, ?s)) = {}" if "p \<noteq> (l, ?s)" for p
      using wheel_rep_Int [OF wr that] x(2) items_I [of x F p] by auto
    show "bit (occupied ?lv OR occupied_bit ?s) n \<longleftrightarrow>
        (if n = ?s then x # F (l, ?s) \<noteq> [] else bit (occupied ?lv) n)" for n
      by (simp add: bit_or_iff bit_occupied_bit)
  qed simp
  moreover have "keeps T rep free view (insert x (items F)) st st'"
    using keep by (rule keeps_mono) (auto simp: in_items)
  ultimately show ?thesis
    using push wheel_rep_shape [OF wr l] by (simp add: Level_add_entry_def Let_def index_def)
qed

lemma pop_entry_rep:
  assumes wr: "wheel_rep rep w st F" and l: "ex_level e < 6" "ex_slot e < 64"
    and F: "F (ex_level e, ex_slot e) = x # xs"
  shows "\<exists>w' st'. Wheel_pop_entry T w e st = Some (Some x, w', st') \<and>
    wheel_rep rep w' st' (F((ex_level e, ex_slot e) := xs)) \<and> elapsed w' = elapsed w \<and>
    free st' x \<and> keeps T rep free view (items F) st st'"
proof -
  let ?l = "ex_level e" and ?s = "ex_slot e" and ?lv = "levels w ! ex_level e"
  have slot: "rep (lv_slot ?lv ! ?s) st (x # xs)"
    using wheel_rep_slot [OF wr l] F by simp
  from pop_law [OF slot] obtain s' st' where pop: "so_pop T (lv_slot ?lv ! ?s) st = Some (Some x, s', st')"
      and new: "rep s' st' xs" "free st' x" and keep: "keeps T rep free view (set (x # xs)) st st'"
    by blast
  let ?occ = "if xs = [] then occupied ?lv XOR occupied_bit ?s else occupied ?lv"
  have "wheel_rep rep (w\<lparr>levels := (levels w)[?l := ?lv\<lparr>lv_slot := (lv_slot ?lv)[?s := s'],
      occupied := ?occ\<rparr>]\<rparr>) st' (F((?l, ?s) := xs))"
    using wr l new(1) keep
  proof (rule wheel_rep_update)
    show "set (F p) \<inter> set (x # xs) = {}" if "p \<noteq> (?l, ?s)" for p
      using wheel_rep_Int [OF wr that] F by simp
    show "bit ?occ n \<longleftrightarrow> (if n = ?s then xs \<noteq> [] else bit (occupied ?lv) n)" for n
      using F l by (intro bit_clear_occupied) (auto simp: wheel_rep_bit [OF wr l(1)])
  qed auto
  moreover have "keeps T rep free view (items F) st st'"
    using keep by (rule keeps_mono) (use F items_I [of _ F "(?l, ?s)"] in auto)
  moreover have "so_is_empty T s' \<longleftrightarrow> xs = []"
    using new(1) by (rule is_empty_law)
  ultimately show ?thesis
    using pop new l wheel_rep_shape [OF wr l(1)]
    by (auto simp: Wheel_pop_entry_def Level_pop_entry_slot_def Let_def index_def)
qed

lemma pop_entry_empty:
  assumes wr: "wheel_rep rep w st F" and l: "ex_level e < 6" "ex_slot e < 64"
    and F: "F (ex_level e, ex_slot e) = []"
  shows "Wheel_pop_entry T w e st = Some (None, w, st)"
  using wheel_rep_shape [OF wr l(1)] l pop_empty_law [of "lv_slot (levels w ! ex_level e) ! ex_slot e" st]
    wheel_rep_slot [OF wr l] F
  by (simp add: Wheel_pop_entry_def Level_pop_entry_slot_def Let_def index_def)

lemma remove_entry_rep:
  assumes wr: "wheel_rep rep w st F" and l: "l < 6" and x: "x \<in> set (F (l, slot_for t l))"
  shows "\<exists>lv' st'. Level_remove_entry T (levels w ! l) t x st = Some (lv', st') \<and>
    wheel_rep rep (w\<lparr>levels := (levels w)[l := lv']\<rparr>) st'
      (F((l, slot_for t l) := remove1 x (F (l, slot_for t l)))) \<and>
    keeps T rep free view (items F) st st' \<and> free st' x"
proof -
  let ?s = "slot_for t l" and ?lv = "levels w ! l" and ?xs = "remove1 x (F (l, slot_for t l))"
  have slot: "rep (lv_slot ?lv ! ?s) st (F (l, ?s))"
    using wr l by (simp add: wheel_rep_slot)
  from remove_law [OF slot x] obtain s' st' where rem: "so_remove T (lv_slot ?lv ! ?s) x st = Some (s', st')"
      and new: "rep s' st' ?xs" "free st' x" and keep: "keeps T rep free view (set (F (l, ?s))) st st'"
    by blast
  let ?occ = "if ?xs = [] then occupied ?lv XOR occupied_bit ?s else occupied ?lv"
  have "wheel_rep rep (w\<lparr>levels := (levels w)[l := ?lv\<lparr>lv_slot := (lv_slot ?lv)[?s := s'],
      occupied := ?occ\<rparr>]\<rparr>) st' (F((l, ?s) := ?xs))"
    using wr l slot_for_less new(1) keep
  proof (rule wheel_rep_update)
    show "set (F p) \<inter> set (F (l, ?s)) = {}" if "p \<noteq> (l, ?s)" for p
      using wheel_rep_Int [OF wr that] .
    show "bit ?occ n \<longleftrightarrow> (if n = ?s then ?xs \<noteq> [] else bit (occupied ?lv) n)" for n
      using x by (intro bit_clear_occupied) (auto simp: wheel_rep_bit [OF wr l])
  qed (rule set_remove1_subset)
  moreover have "keeps T rep free view (items F) st st'"
    using keep by (rule keeps_mono) (use items_I [of _ F "(l, ?s)"] in auto)
  moreover have "so_is_empty T s' \<longleftrightarrow> ?xs = []"
    using new(1) by (rule is_empty_law)
  ultimately show ?thesis
    using rem new l wheel_rep_shape [OF wr l(1)]
    by (auto simp: Level_remove_entry_def Let_def index_def)
qed

end

end
