(* ===== verification/Timer_Poll.thy ===== *)
theory Timer_Poll
  imports Timer_Wheel
begin

text \<open>
  Correctness of the timing wheel's operations (src/timer/wheel/mod.rs), for every implementation of
  the stack interface: the next expiration is the first slot, emptying a slot of a higher level
  moves its items one level down, and \<^verbatim>\<open>poll\<close> terminates with the earliest due item or with none
  due.  The last section states these for the linked stack of \<^verbatim>\<open>DelayQueue\<close>.
\<close>

section \<open>The next expiration\<close>

lemma next_expiration_from_skip:
  assumes "\<And>l. l \<in> set ls \<Longrightarrow> l < length (levels w) \<and> Level_next_expiration (levels w ! l) (elapsed w) = None"
  shows "next_expiration_from w (ls @ ls') = next_expiration_from w ls'"
  using assms by (induction ls) (auto simp: index_def)

lemma occupied_0:
  assumes "wheel_rep rep w st F" and "l < 6" and "\<And>s. F (l, s) = []"
  shows "occupied (levels w ! l) = 0"
  by (rule bit_word_eqI) (use wheel_rep_bit [OF assms(1,2)] assms(3) in simp)

lemma next_expiration_None:
  assumes "wheel_rep rep w st F" and "items F = {}"
  shows "Wheel_next_expiration w = Some None"
proof -
  have "F p = []" for p
    using items_I [of _ F p] assms(2) by (cases "F p") auto
  then have "Level_next_expiration (levels w ! l) (elapsed w) = None" if "l < 6" for l
    using occupied_0 [OF assms(1) that] by (simp add: Level_next_expiration_None)
  then show ?thesis
    using next_expiration_from_skip [of "[0..<6]" w "[]"] wheel_rep_shape(1) [OF assms(1)]
    by (simp add: Wheel_next_expiration_def NUM_LEVELS_def)
qed

lemma deadline_first_slot:
  assumes inv: "wheel_inv k whn e F" and x: "x \<in> set (F (l, s))" and t: "whn x = Some t"
    and low: "\<And>l' s'. l' < l \<Longrightarrow> F (l', s') = []"
    and least: "\<And>s'. F (l, s') \<noteq> [] \<Longrightarrow> s \<le> s'"
    and d: "unat d = blk l t * 64 ^ l"
  shows "first_slot whn e F l s d"
proof -
  have bd: "blk l d = blk l t"
    using d by (simp add: blk_def)
  obtain s: "s = blk l t mod 64" and e: "e \<le> t" and up: "blk (Suc l) t = blk (Suc l) e"
      and cur: "blk l t = blk l e \<Longrightarrow> l = k" and k: "k \<le> l"
    using wheel_invD [OF inv x] t by (metis option.inject)
  have "blk l u = blk l d"
    if "y \<in> set (F (l, s))" "whn y = Some u" for y u
  proof -
    have "s = blk l u mod 64 \<and> blk (Suc l) u = blk (Suc l) e"
      using wheel_invD [OF inv that(1)] that(2) by (metis option.inject)
    then show ?thesis
      unfolding bd using s up by (metis blk_Suc div_mult_mod_eq)
  qed
  moreover have "e \<le> d"
  proof (cases "blk l t = blk l e")
    case True
    then have "64 ^ l dvd unat e" using cur inv by (simp add: wheel_inv_def)
    then have "unat e = unat d" using True d by (simp add: blk_def)
    then show ?thesis by (simp add: word_le_nat_alt)
  next
    case False
    then have "blk l e < blk l t" using blk_mono [OF e, of l] by simp
    then have "unat e < unat d"
      unfolding d by (simp add: blk_def less_mult_imp_div_less div_less_iff_less_mult)
    then show ?thesis by (simp add: word_le_nat_alt)
  qed
  moreover have "d \<le> u" if y: "y \<in> items F" and u: "whn y = Some u" for y u
  proof -
    from y obtain l' s' where y': "y \<in> set (F (l', s'))" by (auto simp: in_items)
    then have "F (l', s') \<noteq> []" by auto
    then have ll': "l \<le> l'" using low not_less by blast
    obtain s': "s' = blk l' u mod 64" and eu: "e \<le> u" and up': "blk (Suc l') u = blk (Suc l') e"
        and cur': "blk l' u = blk l' e \<Longrightarrow> l' = k"
      using wheel_invD [OF inv y'] u by (metis option.inject)
    show "d \<le> u"
    proof (cases "l' = l")
      case True
      then have "blk l t \<le> blk l u"
        using least [of s'] \<open>F (l', s') \<noteq> []\<close> s s' up up' blk_mod_mono [of l t u] by simp
      then have "unat d \<le> unat u"
        unfolding d by (intro le_trans [OF mult_le_mono1 blk_le])
      then show ?thesis by (simp add: word_le_nat_alt)
    next
      case False
      moreover have "blk (Suc l) d = blk (Suc l) e"
        using up bd by (simp add: blk_Suc)
      ultimately have "blk l' d = blk l' e"
        using ll' by (auto intro: blk_eq_up [of "Suc l"])
      moreover have "blk l' e < blk l' u"
        using False cur' ll' k blk_mono [OF eu, of l'] by (cases "blk l' u = blk l' e") auto
      ultimately show ?thesis
        using blk_mono [of u d l'] by (metis linorder_not_le order_less_imp_le)
    qed
  qed
  moreover have "64 ^ l dvd unat d" "blk (Suc l) d = blk (Suc l) e" "s = blk l d mod 64"
    using d bd up s by (simp_all add: blk_Suc)
  ultimately show ?thesis
    unfolding first_slot_def using low by blast
qed

lemma next_expiration_first:
  assumes wr: "wheel_rep rep w st F" and inv: "wheel_inv k whn (elapsed w) F"
    and l: "l < 6" and ne: "F (l, s0) \<noteq> []" and low: "\<And>l' s'. l' < l \<Longrightarrow> F (l', s') = []"
  shows "\<exists>s d. s < 64 \<and> F (l, s) \<noteq> [] \<and> first_slot whn (elapsed w) F l s d \<and>
    Wheel_next_expiration w = Some (Some \<lparr>ex_level = l, ex_slot = s, ex_deadline = d\<rparr>)"
proof -
  define s where "s = (LEAST s. F (l, s) \<noteq> [])"
  have s: "F (l, s) \<noteq> []" and least: "\<And>s'. F (l, s') \<noteq> [] \<Longrightarrow> s \<le> s'"
    unfolding s_def using LeastI [of "\<lambda>s. F (l, s) \<noteq> []", OF ne] by (auto intro: Least_le)
  then obtain x where x: "x \<in> set (F (l, s))"
    by (cases "F (l, s)") auto
  obtain t where t: "whn x = Some t" "s = blk l t mod 64" "blk (Suc l) t = blk (Suc l) (elapsed w)"
    using wheel_invD [OF inv x] by metis
  have lv: "lv_level (levels w ! l) = l"
    using wheel_rep_shape [OF wr l] by simp
  have "blk l (elapsed w) mod 64 \<le> s'" if s': "F (l, s') \<noteq> []" for s'
  proof -
    obtain y where "y \<in> set (F (l, s'))"
      using s' by (cases "F (l, s')") auto
    then obtain u where "s' = blk l u mod 64" "elapsed w \<le> u" "blk (Suc l) u = blk (Suc l) (elapsed w)"
      using wheel_invD [OF inv] by metis
    then show ?thesis
      using blk_mod_mono [of l "elapsed w" u] blk_mono [of "elapsed w" u l] by simp
  qed
  then obtain d where d: "Level_next_expiration (levels w ! l) (elapsed w) =
      Some \<lparr>ex_level = l, ex_slot = s, ex_deadline = d\<rparr>" "unat d = blk l t * 64 ^ l"
    using Level_next_expiration_least [of "levels w ! l" "elapsed w" t] l least s t(2,3)
    unfolding lv wheel_rep_bit [OF wr l] by blast
  have fs: "first_slot whn (elapsed w) F l s d"
    using inv x t(1) low least d(2) by (rule deadline_first_slot)
  have "Level_next_expiration (levels w ! l') (elapsed w) = None" if "l' < l" for l'
    using occupied_0 [OF wr, of l'] that l low by (simp add: Level_next_expiration_None)
  then have "next_expiration_from w ([0..<l] @ l # [Suc l..<6]) = next_expiration_from w (l # [Suc l..<6])"
    using l wheel_rep_shape(1) [OF wr] by (intro next_expiration_from_skip) auto
  moreover have "[0..<6] = [0..<l] @ l # [Suc l..<6]"
    using upt_add_eq_append [of 0 l "6 - l"] l by (simp add: upt_conv_Cons del: upt_Suc)
  ultimately have "Wheel_next_expiration w = next_expiration_from w (l # [Suc l..<6])"
    by (simp only: Wheel_next_expiration_def NUM_LEVELS_def)
  moreover have "s < 64"
    using wheel_rep_range [OF wr x] by simp
  ultimately show ?thesis
    using fs d(1) s wheel_rep_shape(1) [OF wr l] by (auto simp: index_def)
qed

lemma lowest_level:
  assumes "wheel_rep rep w st F" and "items F \<noteq> {}"
  obtains l s where "l < 6" and "F (l, s) \<noteq> []" and "\<And>l' s'. l' < l \<Longrightarrow> F (l', s') = []"
proof -
  from assms(2) obtain x l0 s0 where "x \<in> set (F (l0, s0))"
    by (auto simp: in_items)
  then have ex: "l0 < 6" "\<exists>s. F (l0, s) \<noteq> []"
    using wheel_rep_range [OF assms(1)] by (blast, metis empty_iff empty_set)
  define l where "l = (LEAST l. \<exists>s. F (l, s) \<noteq> [])"
  have "\<exists>s. F (l, s) \<noteq> []"
    using ex(2) unfolding l_def by (rule LeastI)
  moreover have "l \<le> l0"
    using ex(2) unfolding l_def by (rule Least_le)
  moreover have "F (l', s') = []" if "l' < l" for l' s'
    using that not_less_Least unfolding l_def by blast
  ultimately show ?thesis
    using that ex(1) by (meson le_less_trans)
qed

section \<open>Emptying a slot of a higher level\<close>

text \<open>\<open>F'\<close> is \<open>F\<close> with the items of slot \<open>s\<close> of level \<open>m + 1\<close> moved to their slots of level \<open>m\<close>.\<close>

definition moved_down ::
  "('item \<Rightarrow> u64 option) \<Rightarrow> nat \<Rightarrow> nat \<Rightarrow> (nat \<times> nat \<Rightarrow> 'item list) \<Rightarrow> (nat \<times> nat \<Rightarrow> 'item list) \<Rightarrow> bool"
where
  "moved_down whn m s F F' \<longleftrightarrow> F' (Suc m, s) = [] \<and>
     (\<forall>p x. x \<in> set (F' p) \<longleftrightarrow> x \<in> set (F p) \<and> p \<noteq> (Suc m, s) \<or>
        x \<in> set (F (Suc m, s)) \<and> (\<exists>t. whn x = Some t \<and> p = (m, slot_for t m)))"

lemma moved_down_step:
  assumes "moved_down whn m s (F((Suc m, s) := xs, (m, slot_for t m) := x # F (m, slot_for t m))) F'"
    and "F (Suc m, s) = x # xs" and "whn x = Some t" and "x \<notin> set xs"
  shows "moved_down whn m s F F'"
  using assms unfolding moved_down_def by (auto 0 3)

context stack_trait
begin

lemma poll_expiration_cascade:
  assumes "wheel_rep rep w st F" and "F (Suc m, s) = xs"
    and "Suc m < 6" and "s < 64" and "ex_level e = Suc m" and "ex_slot e = s"
    and "\<And>x. x \<in> set xs \<Longrightarrow> so_when T x st \<noteq> None"
  shows "\<exists>w' st' F'. Wheel_poll_expiration T w e st = Some (None, w', st') \<and>
    wheel_rep rep w' st' F' \<and> elapsed w' = elapsed w \<and>
    moved_down (\<lambda>x. so_when T x st) m s F F' \<and> keeps T rep free view (items F) st st'"
  using assms
proof (induction xs arbitrary: w st F)
  case Nil
  then have "Wheel_poll_expiration T w e st = Some (None, w, st)"
    by (subst Wheel_poll_expiration.simps) (simp add: pop_entry_empty)
  moreover have "moved_down (\<lambda>x. so_when T x st) m s F F"
    using Nil.prems(2) by (auto simp: moved_down_def)
  ultimately show ?case
    using Nil.prems(1) keeps_refl [of T rep free view "items F" st] by (intro exI conjI) (assumption | rule refl)+
next
  case (Cons x xs)
  let ?F1 = "F((Suc m, s) := xs)"
  from pop_entry_rep [OF Cons.prems(1), of e x xs] Cons.prems obtain w1 st1 where
      pop: "Wheel_pop_entry T w e st = Some (Some x, w1, st1)" and wr1: "wheel_rep rep w1 st1 ?F1"
      and el1: "elapsed w1 = elapsed w" and free: "free st1 x" and k1: "keeps T rep free view (items F) st st1"
    by auto
  obtain t where t: "so_when T x st = Some t"
    using Cons.prems(7) by fastforce
  have dist: "distinct (F (Suc m, s))"
    using wheel_rep_slot [OF Cons.prems(1,3,4)] by (rule rep_distinct)
  have x: "x \<notin> set xs"
    using dist Cons.prems(2) by simp
  then have notin: "x \<notin> items ?F1"
    using wheel_rep_disjoint [OF Cons.prems(1), of x _ "(Suc m, s)"] Cons.prems(2)
    by (auto simp: items_def)
  define F2 where "F2 = F((Suc m, s) := xs, (m, slot_for t m) := x # F (m, slot_for t m))"
  from add_entry_rep [OF wr1 _ free notin, of m t] Cons.prems(3) obtain lv2 st2 where
      add: "Level_add_entry T (levels w1 ! m) t x st1 = Some (lv2, st2)"
      and wr2: "wheel_rep rep (w1\<lparr>levels := (levels w1)[m := lv2]\<rparr>) st2 F2"
      and k2: "keeps T rep free view (insert x (items ?F1)) st1 st2"
    by (auto simp: F2_def)
  have sub: "insert x (items ?F1) \<subseteq> items F" "items F2 \<subseteq> items F"
    using Cons.prems(2) by (auto simp: in_items F2_def split: if_splits) (metis list.set_intros)+
  have k12: "keeps T rep free view (items F) st st2"
    using k1 keeps_mono [OF k2 sub(1)] by (rule keeps_trans)
  have whn: "(\<lambda>y. so_when T y st2) = (\<lambda>y. so_when T y st)"
    using keeps_when [OF k12] by blast
  have F2: "F2 (Suc m, s) = xs"
    by (simp add: F2_def)
  obtain w' st' F' where IH: "Wheel_poll_expiration T (w1\<lparr>levels := (levels w1)[m := lv2]\<rparr>) e st2 = Some (None, w', st')"
      "wheel_rep rep w' st' F'" "elapsed w' = elapsed w" "moved_down (\<lambda>x. so_when T x st) m s F2 F'"
      "keeps T rep free view (items F2) st2 st'"
    using Cons.IH [OF wr2 _ Cons.prems(3-6)] Cons.prems(7) el1 unfolding whn fun_cong [OF whn]
    by (auto simp: F2_def [symmetric] F2)
  have "Wheel_poll_expiration T w e st = Some (None, w', st')"
    using pop add IH(1) Cons.prems(3,5) t keeps_when [OF k1] wheel_rep_shape(1) [OF wr1, of m]
    by (subst Wheel_poll_expiration.simps) (simp add: index_def)
  moreover have "moved_down (\<lambda>x. so_when T x st) m s F F'"
    using IH(4) [unfolded F2_def] Cons.prems(2) t x by (rule moved_down_step)
  moreover have "keeps T rep free view (items F) st st'"
    using k12 keeps_mono [OF IH(5) sub(2)] by (rule keeps_trans)
  ultimately show ?case
    using IH(2,3) by (intro exI conjI)
qed

end

section \<open>Polling\<close>

text \<open>
  The expiration kept in a \<^verbatim>\<open>Poll\<close> between two calls is still the first slot.  It stays so when no
  item is inserted before its deadline.
\<close>

definition poll_valid ::
  "('item \<Rightarrow> u64 option) \<Rightarrow> u64 \<Rightarrow> (nat \<times> nat \<Rightarrow> 'item list) \<Rightarrow> Poll \<Rightarrow> bool"
where
  "poll_valid whn e F p \<longleftrightarrow>
     (case p_expiration p of
        None \<Rightarrow> True
      | Some ex \<Rightarrow> ex_level ex = 0 \<and> ex_slot ex < 64 \<and> ex_deadline ex \<le> p_now p \<and>
          first_slot whn e F 0 (ex_slot ex) (ex_deadline ex))"

text \<open>What \<^verbatim>\<open>poll\<close> returns: the earliest item, when it is due, or nothing, when none is.\<close>

definition poll_result ::
  "('item \<Rightarrow> u64 option) \<Rightarrow> u64 \<Rightarrow> 'item set \<Rightarrow> 'item option \<Rightarrow> 'item set \<Rightarrow> bool"
where
  "poll_result whn now I r I' \<longleftrightarrow>
     (case r of
        None \<Rightarrow> I' = I \<and> (\<forall>y\<in>I. \<forall>u. whn y = Some u \<longrightarrow> now < u)
      | Some x \<Rightarrow> x \<in> I \<and> I' = I - {x} \<and>
          (\<exists>t. whn x = Some t \<and> t \<le> now \<and> (\<forall>y\<in>I. \<forall>u. whn y = Some u \<longrightarrow> t \<le> u)))"

lemma within_max_duration:
  assumes "e < t" and "blk 6 t = blk 6 e"
  shows "\<not> MAX_DURATION < t - e"
proof -
  have "unat t div 68719476736 = unat e div 68719476736"
    using assms(2) by (simp add: blk_def)
  then have "unat t - unat e < 68719476736"
    using div_mult_mod_eq [of "unat t" 68719476736] div_mult_mod_eq [of "unat e" 68719476736]
      mod_less_divisor [of 68719476736 "unat t"] by linarith
  then show ?thesis
    using assms(1) by (simp add: MAX_DURATION_def NUM_LEVELS_def word_less_nat_alt unat_sub word_le_nat_alt)
qed

lemma set_elapsed_ok: "elapsed w \<le> t \<Longrightarrow> Wheel_set_elapsed w t = Some (w\<lparr>elapsed := t\<rparr>)"
  by (auto simp: Wheel_set_elapsed_def not_less)

lemma poll_expiration_None: "p_expiration p = None \<Longrightarrow> p\<lparr>p_expiration := None\<rparr> = p"
  by simp

lemma first_slot_subset:
  assumes "first_slot whn e F l s d" and "\<And>p. set (F' p) \<subseteq> set (F p)"
  shows "first_slot whn e F' l s d"
proof -
  have "F' p = []" if "F p = []" for p
    using assms(2) [of p] that by simp
  moreover have "items F' \<subseteq> items F"
    using assms(2) unfolding items_def by blast
  ultimately show ?thesis
    using assms unfolding first_slot_def by blast
qed

lemma first_slot_cong:
  assumes fs: "first_slot f e F l s d" and eq: "\<And>x. x \<in> items F \<Longrightarrow> g x = f x"
  shows "first_slot g e F l s d"
proof -
  have "d \<le> t" if "x \<in> items F" "g x = Some t" for x t
    using first_slotD(6) [OF fs that(1)] eq [OF that(1)] that(2) by simp
  moreover have "blk l t = blk l d" if "x \<in> set (F (l, s))" "g x = Some t" for x t
    using first_slotD(7) [OF fs that(1)] eq [OF items_I [of x F "(l, s)", OF that(1)]] that(2) by simp
  ultimately show ?thesis
    using first_slotD(1-5) [OF fs] unfolding first_slot_def by blast
qed

lemma items_remove:
  assumes "\<And>q. x \<in> set (F q) \<Longrightarrow> q = p" and "set ys = set (F p) - {x}"
  shows "items (F(p := ys)) = items F - {x}"
proof (rule set_eqI)
  fix y
  show "y \<in> items (F(p := ys)) \<longleftrightarrow> y \<in> items F - {x}"
    using assms by (simp add: items_def del: split_paired_Ex) metis
qed

lemma items_insert: "items (F(p := x # F p)) = insert x (items F)"
proof (rule set_eqI)
  fix y
  show "y \<in> items (F(p := x # F p)) \<longleftrightarrow> y \<in> insert x (items F)"
    by (simp add: items_def del: split_paired_Ex) metis
qed

lemma moved_down_items:
  assumes "moved_down whn m s F F'" and "\<And>x. x \<in> set (F (Suc m, s)) \<Longrightarrow> whn x \<noteq> None"
  shows "items F' = items F"
proof -
  have iff: "x \<in> set (F' p) \<longleftrightarrow> x \<in> set (F p) \<and> p \<noteq> (Suc m, s) \<or>
      x \<in> set (F (Suc m, s)) \<and> (\<exists>t. whn x = Some t \<and> p = (m, slot_for t m))" for x p
    using assms(1) unfolding moved_down_def by blast
  have "x \<in> items F' \<longleftrightarrow> x \<in> items F" for x
  proof (cases "x \<in> set (F (Suc m, s))")
    case True
    then obtain t where "whn x = Some t" using assms(2) by blast
    then have "x \<in> set (F' (m, slot_for t m))" using iff True by blast
    then show ?thesis using True items_I by fast
  next
    case False
    then show ?thesis using iff by (auto simp: in_items)
  qed
  then show ?thesis by blast
qed

definition poll_post ::
  "('stk, 'item, 'store) stack_ops \<Rightarrow> ('stk \<Rightarrow> 'store \<Rightarrow> 'item list \<Rightarrow> bool) \<Rightarrow>
   ('store \<Rightarrow> 'item \<Rightarrow> bool) \<Rightarrow> ('store \<Rightarrow> 'item \<Rightarrow> 'v) \<Rightarrow> Poll \<Rightarrow> 'store \<Rightarrow> (nat \<times> nat \<Rightarrow> 'item list) \<Rightarrow>
   'item option \<times> 'stk Wheel \<times> Poll \<times> 'store \<Rightarrow> bool"
where
  "poll_post T rep free view p st F = (\<lambda>(r, w', p', st'). \<exists>F'. wheel_rep rep w' st' F' \<and>
     wheel_inv 0 (\<lambda>x. so_when T x st) (elapsed w') F' \<and> elapsed w' \<le> p_now p \<and> p_now p' = p_now p \<and>
     poll_valid (\<lambda>x. so_when T x st) (elapsed w') F' p' \<and> keeps T rep free view (items F) st st' \<and>
     poll_result (\<lambda>x. so_when T x st) (p_now p) (items F) r (items F') \<and>
     (case r of None \<Rightarrow> elapsed w' = p_now p \<and> p_expiration p' = None | Some x \<Rightarrow> free st' x))"

context stack_trait
begin

text \<open>The slot of level 0 that expires first gives its top item.\<close>

lemma poll_take:
  assumes wr: "wheel_rep rep w st F" and inv: "wheel_inv 0 (\<lambda>x. so_when T x st) (elapsed w) F"
    and fs: "first_slot (\<lambda>x. so_when T x st) (elapsed w) F 0 (ex_slot e) (ex_deadline e)"
    and e: "ex_level e = 0" "ex_slot e < 64" "ex_deadline e \<le> p_now p" and ne: "F (0, ex_slot e) \<noteq> []"
    and p': "p_expiration p' = Some e" "p_now p' = p_now p"
  shows "\<exists>x w' st'. Wheel_poll_expiration T w e st = Some (Some x, w', st') \<and> poll_post T rep free view p st F (Some x, w', p', st')"
proof -
  let ?whn = "\<lambda>x. so_when T x st"
  obtain x xs where F: "F (0, ex_slot e) = x # xs"
    using ne by (cases "F (0, ex_slot e)") auto
  then obtain w' st' where pop: "Wheel_pop_entry T w e st = Some (Some x, w', st')"
      and wr': "wheel_rep rep w' st' (F((0, ex_slot e) := xs))" and el: "elapsed w' = elapsed w"
      and fr: "free st' x" "keeps T rep free view (items F) st st'"
    using pop_entry_rep [OF wr, of e x xs] e by auto
  have "Wheel_poll_expiration T w e st = Some (Some x, w', st')"
    using pop e by (subst Wheel_poll_expiration.simps) simp
  moreover have x: "x \<in> set (F (0, ex_slot e))" "x \<in> items F" "x \<notin> set xs"
    using F rep_distinct [OF wheel_rep_slot [OF wr, of 0 "ex_slot e"]] e items_I [of x F "(0, ex_slot e)"] by auto
  then obtain t where t: "?whn x = Some t"
    using wheel_inv_items_when [OF inv] by blast
  have te: "t = ex_deadline e"
    using first_slotD(7) [OF fs x(1) t] by (simp add: word_unat_eq_iff)
  have sub: "set ((F((0, ex_slot e) := xs)) q) \<subseteq> set (F q)" for q
    using F by auto
  have "items (F((0, ex_slot e) := xs)) = items F - {x}"
    using wheel_rep_disjoint [OF wr _ x(1)] x(3) F by (intro items_remove) auto
  then have "poll_result ?whn (p_now p) (items F) (Some x) (items (F((0, ex_slot e) := xs)))"
    using x(2) t te e(3) first_slotD(6) [OF fs] unfolding poll_result_def by simp
  moreover have "first_slot ?whn (elapsed w) (F((0, ex_slot e) := xs)) 0 (ex_slot e) (ex_deadline e)"
    using fs sub by (rule first_slot_subset)
  then have "poll_valid ?whn (elapsed w) (F((0, ex_slot e) := xs)) p'"
    using e p' by (simp add: poll_valid_def)
  moreover have "wheel_inv 0 ?whn (elapsed w) (F((0, ex_slot e) := xs))"
    using inv sub by (rule wheel_inv_subset)
  moreover have "elapsed w \<le> p_now p"
    using first_slotD(1) [OF fs] e(3) by simp
  ultimately have "poll_post T rep free view p st F (Some x, w', p', st')"
    unfolding poll_post_def prod.case option.case
    using wr' fr p' el by (intro exI [of _ "F((0, ex_slot e) := xs)"] conjI) simp_all
  then show ?thesis
    using \<open>Wheel_poll_expiration T w e st = Some (Some x, w', st')\<close> by blast
qed

lemma poll_post_cong: "p_now p = p_now p' \<Longrightarrow> poll_post T rep free view p st F res = poll_post T rep free view p' st F res"
  unfolding poll_post_def by (simp only:)

text \<open>No slot expires: the time advances to \<open>now\<close> and nothing is returned.\<close>

lemma poll_idle:
  assumes "wheel_rep rep w st F" and "wheel_inv 0 (\<lambda>x. so_when T x st) (p_now p) F"
    and "\<And>x t. x \<in> items F \<Longrightarrow> so_when T x st = Some t \<Longrightarrow> p_now p < t"
    and "p_expiration p = None"
  shows "poll_post T rep free view p st F (None, w\<lparr>elapsed := p_now p\<rparr>, p, st)"
  unfolding poll_post_def prod.case option.case
  using assms by (intro exI [of _ F] conjI) (simp_all add: poll_valid_def poll_result_def keeps_refl)

text \<open>What holds after the items of a slot moved down holds of the wheel before.\<close>

lemma poll_post_moved:
  assumes "poll_post T rep free view p st' F' res" and "items F' = items F"
    and "keeps T rep free view (items F) st st'"
  shows "poll_post T rep free view p st F res"
proof -
  have whn: "(\<lambda>y. so_when T y st') = (\<lambda>y. so_when T y st)"
    using keeps_when [OF assms(3)] by blast
  show ?thesis
    using assms(1) keeps_trans [OF assms(3)] unfolding poll_post_def assms(2) whn
    by (auto split: prod.splits)
qed

lemma poll_from_level:
  assumes "wheel_rep rep w st F" and "wheel_inv k (\<lambda>x. so_when T x st) (elapsed w) F"
    and "l < 6" and "F (l, s0) \<noteq> []" and "\<And>l' s'. l' < l \<Longrightarrow> F (l', s') = []"
    and "elapsed w \<le> p_now p" and "p_expiration p = None"
  shows "\<exists>res. Wheel_poll T w p st = Some res \<and> poll_post T rep free view p st F res"
  using assms
proof (induction l arbitrary: w st F k s0)
  case 0
  let ?whn = "\<lambda>x. so_when T x st"
  have k: "k = 0" using wheel_inv_level [OF 0(2,4)] by simp
  obtain s d where s: "s < 64" "F (0, s) \<noteq> []" and fs: "first_slot ?whn (elapsed w) F 0 s d"
      and nx: "Wheel_next_expiration w = Some (Some \<lparr>ex_level = 0, ex_slot = s, ex_deadline = d\<rparr>)"
    using next_expiration_first [OF 0(1-4)] by auto
  show ?case
  proof (cases "p_now p < d")
    case True
    then have "Wheel_poll T w p st = Some (None, w\<lparr>elapsed := p_now p\<rparr>, p, st)"
      using nx 0(6,7) by (subst Wheel_poll.simps) (simp add: set_elapsed_ok)
    moreover have "wheel_inv 0 ?whn (p_now p) F"
      using 0(2) fs _ 0(6) True by (rule stop_inv) (simp add: k)
    ultimately show ?thesis
      using poll_idle [OF 0(1)] first_slotD(6) [OF fs] 0(7) True by fastforce
  next
    case False
    let ?p = "p\<lparr>p_expiration := Some \<lparr>ex_level = 0, ex_slot = s, ex_deadline = d\<rparr>\<rparr>"
    obtain x w' st' where "Wheel_poll_expiration T w \<lparr>ex_level = 0, ex_slot = s, ex_deadline = d\<rparr> st = Some (Some x, w', st')"
        and post: "poll_post T rep free view p st F (Some x, w', ?p, st')"
      using poll_take [OF 0(1) 0(2) [unfolded k], of "\<lparr>ex_level = 0, ex_slot = s, ex_deadline = d\<rparr>" p ?p] fs s False
      by (auto simp: not_less)
    then have "Wheel_poll T w p st = Some (Some x, w', ?p, st')"
      using nx 0(7) False by (subst Wheel_poll.simps) simp
    with post show ?thesis by blast
  qed
next
  case (Suc m)
  let ?whn = "\<lambda>x. so_when T x st"
  have k: "k \<le> Suc m" using wheel_inv_level [OF Suc.prems(2,4)] .
  obtain s d where s: "s < 64" "F (Suc m, s) \<noteq> []" and fs: "first_slot ?whn (elapsed w) F (Suc m) s d"
      and nx: "Wheel_next_expiration w = Some (Some \<lparr>ex_level = Suc m, ex_slot = s, ex_deadline = d\<rparr>)"
    using next_expiration_first [OF Suc.prems(1-5)] by auto
  show ?case
  proof (cases "p_now p < d")
    case True
    then have "Wheel_poll T w p st = Some (None, w\<lparr>elapsed := p_now p\<rparr>, p, st)"
      using nx Suc.prems(6,7) by (subst Wheel_poll.simps) (simp add: set_elapsed_ok)
    moreover have "wheel_inv 0 ?whn (p_now p) F"
      using Suc.prems(2) fs k Suc.prems(6) True by (rule stop_inv)
    ultimately show ?thesis
      using poll_idle [OF Suc.prems(1)] first_slotD(6) [OF fs] Suc.prems(7) True by fastforce
  next
    case False
    let ?e = "\<lparr>ex_level = Suc m, ex_slot = s, ex_deadline = d\<rparr>"
    have def: "?whn x \<noteq> None" if "x \<in> set (F (Suc m, s))" for x
      using wheel_invD [OF Suc.prems(2) that] by fastforce
    obtain w1 st1 F1 where pe: "Wheel_poll_expiration T w ?e st = Some (None, w1, st1)"
        and wr1: "wheel_rep rep w1 st1 F1" and el: "elapsed w1 = elapsed w"
        and mv: "moved_down ?whn m s F F1" and k1: "keeps T rep free view (items F) st st1"
      using poll_expiration_cascade [OF Suc.prems(1) refl Suc.prems(3) s(1), of ?e] def by auto
    have whn: "(\<lambda>y. so_when T y st1) = ?whn"
      using keeps_when [OF k1] by blast
    have inv1: "wheel_inv m (\<lambda>y. so_when T y st1) d F1"
      unfolding whn using Suc.prems(2) fs k
      by (rule cascade_inv) (use mv in \<open>auto simp: moved_down_def\<close>)
    obtain x xs where x: "F (Suc m, s) = x # xs" using s(2) by (cases "F (Suc m, s)") auto
    then obtain t where "?whn x = Some t" using def by fastforce
    then have ne1: "F1 (m, slot_for t m) \<noteq> []"
      using mv x unfolding moved_down_def by (metis list.set_intros(1) empty_iff empty_set)
    have low1: "F1 (l', s') = []" if "l' < m" for l' s'
      using inv1 that by (simp add: wheel_inv_def)
    have "\<exists>res. Wheel_poll T (w1\<lparr>elapsed := d\<rparr>) p st1 = Some res \<and> poll_post T rep free view p st1 F1 res"
      using Suc.IH [of "w1\<lparr>elapsed := d\<rparr>" st1 F1 m] wr1 inv1 Suc.prems(3,7) ne1 low1 False by simp
    then obtain res where res: "Wheel_poll T (w1\<lparr>elapsed := d\<rparr>) p st1 = Some res"
        "poll_post T rep free view p st1 F1 res" by blast
    have "Wheel_poll T w p st = Some res"
      using nx Suc.prems(7) False pe res(1) first_slotD(1) [OF fs] el
      by (subst Wheel_poll.simps) (simp add: set_elapsed_ok poll_expiration_None)
    then show ?thesis
      using poll_post_moved [OF res(2) moved_down_items [OF mv def] k1] by blast
  qed
qed

lemma poll_fresh:
  assumes wr: "wheel_rep rep w st F" and inv: "wheel_inv 0 (\<lambda>x. so_when T x st) (elapsed w) F"
    and now: "elapsed w \<le> p_now p" and p: "p_expiration p = None"
  shows "\<exists>res. Wheel_poll T w p st = Some res \<and> poll_post T rep free view p st F res"
proof (cases "items F = {}")
  case True
  then have "Wheel_poll T w p st = Some (None, w\<lparr>elapsed := p_now p\<rparr>, p, st)"
    using next_expiration_None [OF wr True] p now
    by (subst Wheel_poll.simps) (simp add: set_elapsed_ok poll_expiration_None)
  moreover have "wheel_inv 0 (\<lambda>x. so_when T x st) (p_now p) F"
    using True by (auto simp: wheel_inv_def items_def)
  ultimately show ?thesis
    using poll_idle [OF wr _ _ p] True by auto
next
  case False
  then show ?thesis
    using lowest_level [OF wr] poll_from_level [OF wr inv _ _ _ now p] by metis
qed

lemma poll_correct:
  assumes wr: "wheel_rep rep w st F" and inv: "wheel_inv 0 (\<lambda>x. so_when T x st) (elapsed w) F"
    and now: "elapsed w \<le> p_now p" and val: "poll_valid (\<lambda>x. so_when T x st) (elapsed w) F p"
  shows "\<exists>res. Wheel_poll T w p st = Some res \<and> poll_post T rep free view p st F res"
proof (cases "p_expiration p")
  case None
  with wr inv now show ?thesis by (rule poll_fresh)
next
  case (Some e)
  with val have e: "ex_level e = 0" "ex_slot e < 64" "ex_deadline e \<le> p_now p"
    and fs: "first_slot (\<lambda>x. so_when T x st) (elapsed w) F 0 (ex_slot e) (ex_deadline e)"
    by (auto simp: poll_valid_def)
  show ?thesis
  proof (cases "F (0, ex_slot e) = []")
    case False
    with poll_take [OF wr inv fs e] Some obtain x w' st' where
        "Wheel_poll_expiration T w e st = Some (Some x, w', st')" "poll_post T rep free view p st F (Some x, w', p, st')"
      by blast
    then show ?thesis
      using Some by (subst Wheel_poll.simps) simp
  next
    case True
    let ?w = "w\<lparr>elapsed := ex_deadline e\<rparr>" and ?p = "p\<lparr>p_expiration := None\<rparr>"
    have "Wheel_poll_expiration T w e st = Some (None, w, st)"
      using pop_entry_empty [OF wr, of e] True e by (subst Wheel_poll_expiration.simps) simp
    then have "Wheel_poll T w p st = Wheel_poll T ?w ?p st"
      using Some first_slotD(1) [OF fs] by (subst Wheel_poll.simps) (simp add: set_elapsed_ok)
    moreover have "wheel_inv 0 (\<lambda>x. so_when T x st) (ex_deadline e) F"
      using inv fs by (rule advance_inv) (simp_all add: True)
    ultimately show ?thesis
      using poll_fresh [of ?w st F ?p] wr e(3) poll_post_cong [of ?p p] by simp
  qed
qed

section \<open>Insertion and removal\<close>

lemma insert_correct:
  assumes wr: "wheel_rep rep w st F" and inv: "wheel_inv 0 (\<lambda>x. so_when T x st) (elapsed w) F"
    and x: "free st x" "x \<notin> items F" "so_when T x st = Some t"
    and t: "elapsed w < t" "blk 6 t = blk 6 (elapsed w)"
  shows "\<exists>w' st' F'. Wheel_insert T w t x st = Some (Ok (), w', st') \<and> wheel_rep rep w' st' F' \<and>
    elapsed w' = elapsed w \<and> wheel_inv 0 (\<lambda>x. so_when T x st) (elapsed w) F' \<and>
    items F' = insert x (items F) \<and> keeps T rep free view (insert x (items F)) st st'"
proof -
  obtain l where l: "l < 6" "level_for (elapsed w) t = Some l"
    using level_for_less_6 [of "elapsed w" t] t by auto
  let ?F = "F((l, slot_for t l) := x # F (l, slot_for t l))"
  obtain lv' st' where add: "Level_add_entry T (levels w ! l) t x st = Some (lv', st')"
      and wr': "wheel_rep rep (w\<lparr>levels := (levels w)[l := lv']\<rparr>) st' ?F"
      and keep: "keeps T rep free view (insert x (items F)) st st'"
    using add_entry_rep [OF wr l(1) x(1,2), of t] by blast
  have "\<not> MAX_DURATION < t - elapsed w"
    using t by (rule within_max_duration)
  then have "Wheel_insert T w t x st = Some (Ok (), w\<lparr>levels := (levels w)[l := lv']\<rparr>, st')"
    using t l add wheel_rep_shape(1) [OF wr l(1)] by (simp add: Wheel_insert_def index_def)
  moreover have "placed 0 (elapsed w) (l, slot_for t l) t"
    using l(2) t(1) by (simp add: placed_def slot_for_blk level_for_Some)
  then have "wheel_inv 0 (\<lambda>x. so_when T x st) (elapsed w) ?F"
    using inv x(3) by (simp add: wheel_inv_def)
  moreover have "items ?F = insert x (items F)"
    by (rule items_insert)
  ultimately show ?thesis
    using wr' keep by (intro exI conjI) (assumption | simp)+
qed

lemma remove_correct:
  assumes wr: "wheel_rep rep w st F" and inv: "wheel_inv 0 (\<lambda>x. so_when T x st) (elapsed w) F"
    and x: "x \<in> items F" "so_when T x st = Some t" and t: "elapsed w \<noteq> t"
  shows "\<exists>w' st' F'. Wheel_remove T w x st = Some (w', st') \<and> wheel_rep rep w' st' F' \<and>
    elapsed w' = elapsed w \<and> wheel_inv 0 (\<lambda>x. so_when T x st) (elapsed w) F' \<and>
    items F' = items F - {x} \<and> (\<forall>p. set (F' p) \<subseteq> set (F p)) \<and> free st' x \<and>
    keeps T rep free view (items F) st st'"
proof -
  obtain l s where ls: "x \<in> set (F (l, s))" using x(1) by (auto simp: in_items)
  have l: "l < 6" "s < 64" using wheel_rep_range [OF wr ls] by auto
  have at: "s = slot_for t l" "level_for (elapsed w) t = Some l"
    using wheel_invD [OF inv ls] x(2) t unfolding level_for_Some slot_for_blk
    by (metis blk_0 option.inject word_unat_eq_iff)+
  let ?xs = "remove1 x (F (l, s))"
  obtain lv' st' where rem: "Level_remove_entry T (levels w ! l) t x st = Some (lv', st')"
      and wr': "wheel_rep rep (w\<lparr>levels := (levels w)[l := lv']\<rparr>) st' (F((l, s) := ?xs))"
      and keep: "keeps T rep free view (items F) st st'" "free st' x"
    using remove_entry_rep [OF wr l(1), where t = t and x = x] ls at(1) by metis
  have dist: "distinct (F (l, s))"
    using wheel_rep_slot [OF wr l] by (rule rep_distinct)
  have "Wheel_remove T w x st = Some (w\<lparr>levels := (levels w)[l := lv']\<rparr>, st')"
    using at(2) x(2) rem wheel_rep_shape(1) [OF wr l(1)] by (simp add: Wheel_remove_def index_def)
  moreover have "items (F((l, s) := ?xs)) = items F - {x}"
    using wheel_rep_disjoint [OF wr _ ls] dist by (intro items_remove) auto
  moreover have sub: "set ((F((l, s) := ?xs)) p) \<subseteq> set (F p)" for p
    using set_remove1_subset [of x "F (l, s)"] by auto
  moreover have "wheel_inv 0 (\<lambda>x. so_when T x st) (elapsed w) (F((l, s) := ?xs))"
    using inv sub by (rule wheel_inv_subset)
  ultimately show ?thesis
    using wr' keep by (intro exI conjI allI) (assumption | simp)+
qed

end

end
