(* ===== verification/Delay_Queue.thy ===== *)
theory Delay_Queue
  imports Timer_Poll
begin

text \<open>
  The queue of delayed entries \<^verbatim>\<open>DelayQueue\<close> (src/timer/delay_queue.rs) on top of the timing wheel.

  Instants and durations are numbers of nanoseconds.  Of the \<^verbatim>\<open>Delay\<close> future the queue holds, its
  deadline is state, and whether it has completed is the argument \<open>ready\<close> of a poll, a predicate on
  deadlines.  The key the slab crate chooses for a new entry is the argument \<open>vacant\<close>.  The lemmas
  show that the queue is a map from keys to values with deadlines, from which a poll takes an entry
  with the earliest deadline, and never early.
\<close>

section \<open>Time\<close>

type_synonym instant = nat
type_synonym duration = nat

datatype Round = Up | Down

definition ms :: "duration \<Rightarrow> Round \<Rightarrow> u64" where
  "ms d round =
     (let subsec_nanos = d mod 1000000000;
          millis = (case round of
              Up \<Rightarrow> (subsec_nanos + 1000000 - 1) div 1000000
            | Down \<Rightarrow> subsec_nanos div 1000000);
          as_secs = d div 1000000000
      in of_nat (min (min (as_secs * 1000) (2 ^ 64 - 1) + millis) (2 ^ 64 - 1)))"

definition from_millis :: "u64 \<Rightarrow> duration" where
  "from_millis m = unat m * 1000000"

section \<open>The queue\<close>

record 'a DelayQueue =
  q_slab :: "'a slab"
  q_len :: nat
  q_wheel :: "Stack Wheel"
  q_expired :: Stack
  q_delay :: "instant option"
  q_poll :: Poll
  q_start :: instant

record 'a Expired =
  e_data :: 'a
  e_deadline :: instant
  e_key :: nat

definition MAX_ENTRIES :: nat where
  "MAX_ENTRIES = 2 ^ 30 - 1"

definition DelayQueue_new :: "instant \<Rightarrow> 'a DelayQueue" where
  "DelayQueue_new now =
     \<lparr>q_slab = Map.empty, q_len = 0, q_wheel = Wheel_new (delay_queue_stack :: (Stack, nat, 'a slab) stack_ops),
      q_expired = Stack_default, q_delay = None, q_poll = Poll_new 0, q_start = now\<rparr>"

definition normalize_deadline :: "'a DelayQueue \<Rightarrow> instant \<Rightarrow> u64" where
  "normalize_deadline q when_at =
     (let whn = (if when_at < q_start q then 0 else ms (when_at - q_start q) Up)
      in max whn (elapsed (q_wheel q)))"

definition insert_idx :: "'a DelayQueue \<Rightarrow> u64 \<Rightarrow> nat \<Rightarrow> 'a DelayQueue option" where
  "insert_idx q whn key = do {
     (r, w, st) \<leftarrow> Wheel_insert delay_queue_stack (q_wheel q) whn key (q_slab q);
     (case r of
        Ok _ \<Rightarrow> Some (q\<lparr>q_wheel := w, q_slab := st\<rparr>)
      | Err (_, Elapsed) \<Rightarrow> do {
          st1 \<leftarrow> slab_update st key (\<lambda>d. d\<lparr>d_expired := True\<rparr>);
          (ex, st2) \<leftarrow> Stack_push (q_expired q) key st1;
          Some (q\<lparr>q_wheel := w, q_slab := st2, q_expired := ex\<rparr>)
        }
      | Err (_, Invalid) \<Rightarrow> None)
   }"

definition insert_at ::
  "('a slab \<Rightarrow> nat) \<Rightarrow> 'a DelayQueue \<Rightarrow> 'a \<Rightarrow> instant \<Rightarrow> (nat \<times> 'a DelayQueue) option"
where
  "insert_at vacant q value when_at =
     (if \<not> q_len q < MAX_ENTRIES then None
      else
        let whn = normalize_deadline q when_at;
            key = vacant (q_slab q);
            q1 = q\<lparr>q_slab := (q_slab q)(key \<mapsto>
                     \<lparr>d_inner = value, d_when = whn, d_expired = False, d_next = None, d_prev = None\<rparr>),
                   q_len := q_len q + 1\<rparr>
        in do {
          q2 \<leftarrow> insert_idx q1 whn key;
          let should_set_delay =
            (case q_delay q2 of
               Some delay \<Rightarrow> normalize_deadline q2 delay > whn
             | None \<Rightarrow> True);
          Some (key, if should_set_delay then q2\<lparr>q_delay := Some (q_start q2 + from_millis whn)\<rparr> else q2)
        })"

definition slab_remove :: "'a DelayQueue \<Rightarrow> nat \<Rightarrow> ('a Data \<times> 'a DelayQueue) option" where
  "slab_remove q key = do {
     d \<leftarrow> q_slab q key;
     Some (d, q\<lparr>q_slab := (q_slab q)(key := None), q_len := q_len q - 1\<rparr>)
   }"

text \<open>The first half of \<^verbatim>\<open>remove\<close>: the entry leaves the list it is in.\<close>

definition DelayQueue_unlink :: "'a DelayQueue \<Rightarrow> nat \<Rightarrow> 'a DelayQueue option" where
  "DelayQueue_unlink q key = do {
     d \<leftarrow> q_slab q key;
     if d_expired d then do {
       (ex, st) \<leftarrow> Stack_remove (q_expired q) key (q_slab q);
       Some (q\<lparr>q_expired := ex, q_slab := st\<rparr>)
     } else do {
       (w, st) \<leftarrow> Wheel_remove delay_queue_stack (q_wheel q) key (q_slab q);
       Some (q\<lparr>q_wheel := w, q_slab := st\<rparr>)
     }
   }"

definition DelayQueue_remove :: "'a DelayQueue \<Rightarrow> nat \<Rightarrow> ('a Expired \<times> 'a DelayQueue) option" where
  "DelayQueue_remove q key = do {
     q1 \<leftarrow> DelayQueue_unlink q key;
     (data, q2) \<leftarrow> slab_remove q1 key;
     Some (\<lparr>e_data = d_inner data, e_deadline = q_start q2 + from_millis (d_when data), e_key = key\<rparr>, q2)
   }"

definition next_deadline :: "'a DelayQueue \<Rightarrow> instant option option" where
  "next_deadline q = do {
     at \<leftarrow> Wheel_poll_at (q_wheel q);
     Some (map_option (\<lambda>t. q_start q + from_millis t) at)
   }"

definition reset_at :: "'a DelayQueue \<Rightarrow> nat \<Rightarrow> instant \<Rightarrow> 'a DelayQueue option" where
  "reset_at q key when_at = do {
     (w, st) \<leftarrow> Wheel_remove delay_queue_stack (q_wheel q) key (q_slab q);
     let q1 = q\<lparr>q_wheel := w, q_slab := st\<rparr>;
     let whn = normalize_deadline q1 when_at;
     st2 \<leftarrow> slab_update (q_slab q1) key (\<lambda>d. d\<lparr>d_when := whn\<rparr>);
     q3 \<leftarrow> insert_idx (q1\<lparr>q_slab := st2\<rparr>) whn key;
     nd \<leftarrow> next_deadline q3;
     Some (case (q_delay q3, nd) of
             (Some delay, Some deadline) \<Rightarrow> q3\<lparr>q_delay := Some deadline\<rparr>
           | _ \<Rightarrow> q3)
   }"

definition DelayQueue_clear :: "'a DelayQueue \<Rightarrow> 'a DelayQueue" where
  "DelayQueue_clear q =
     q\<lparr>q_slab := Map.empty, q_len := 0, q_expired := Stack_default,
       q_wheel := Wheel_new (delay_queue_stack :: (Stack, nat, 'a slab) stack_ops), q_delay := None\<rparr>"

definition DelayQueue_is_empty :: "'a DelayQueue \<Rightarrow> bool" where
  "DelayQueue_is_empty q \<longleftrightarrow> q_len q = 0"

partial_function (option) poll_idx_loop ::
  "(instant \<Rightarrow> bool) \<Rightarrow> 'a DelayQueue \<Rightarrow> (nat option poll \<times> 'a DelayQueue) option"
where
  "poll_idx_loop ready q =
     (if (case q_delay q of Some delay \<Rightarrow> \<not> ready delay | None \<Rightarrow> False) then Some (Pending, q)
      else
        let q1 = (case q_delay q of
              Some delay \<Rightarrow> q\<lparr>q_poll := Poll_new (ms (delay - q_start q) Down)\<rparr>
            | None \<Rightarrow> q);
            q2 = q1\<lparr>q_delay := None\<rparr>
        in do {
          (ret, w, p, st) \<leftarrow> Wheel_poll delay_queue_stack (q_wheel q2) (q_poll q2) (q_slab q2);
          let q3 = q2\<lparr>q_wheel := w, q_poll := p, q_slab := st\<rparr>;
          (case ret of
             Some idx \<Rightarrow> Some (Ready (Some idx), q3)
           | None \<Rightarrow> do {
               nd \<leftarrow> next_deadline q3;
               (case nd of
                  Some deadline \<Rightarrow> poll_idx_loop ready (q3\<lparr>q_delay := Some deadline\<rparr>)
                | None \<Rightarrow> Some (Ready None, q3))
             })
        })"

declare poll_idx_loop.simps [code]

definition poll_idx ::
  "(instant \<Rightarrow> bool) \<Rightarrow> 'a DelayQueue \<Rightarrow> (nat option poll \<times> 'a DelayQueue) option"
where
  "poll_idx ready q = do {
     (expired, ex, st) \<leftarrow> Stack_pop (q_expired q) (q_slab q);
     let q1 = q\<lparr>q_expired := ex, q_slab := st\<rparr>;
     (case expired of
        Some idx \<Rightarrow> Some (Ready (Some idx), q1)
      | None \<Rightarrow> poll_idx_loop ready q1)
   }"

definition poll_expired ::
  "(instant \<Rightarrow> bool) \<Rightarrow> 'a DelayQueue \<Rightarrow> ('a Expired option poll \<times> 'a DelayQueue) option"
where
  "poll_expired ready q = do {
     (item, q1) \<leftarrow> poll_idx ready q;
     (case item of
        Pending \<Rightarrow> Some (Pending, q1)
      | Ready None \<Rightarrow> Some (Ready None, q1)
      | Ready (Some idx) \<Rightarrow> do {
          (data, q2) \<leftarrow> slab_remove q1 idx;
          Some (Ready (Some \<lparr>e_data = d_inner data,
                             e_deadline = q_start q2 + from_millis (d_when data), e_key = idx\<rparr>), q2)
        })
   }"

section \<open>The state of a queue\<close>

text \<open>
  \<open>dq_store q F E X\<close>: the wheel holds the keys of \<open>F\<close>, the stack of expired entries the keys \<open>E\<close>,
  and the keys \<open>X\<close> are in the slab only, on their way in or out.  The entries' flags say where
  they are, and an expired entry is due exactly at the wheel's time.
\<close>

definition entry_ok :: "nat set \<Rightarrow> nat set \<Rightarrow> nat set \<Rightarrow> u64 \<Rightarrow> ('a \<times> u64 \<times> bool) option \<Rightarrow> nat \<Rightarrow> bool" where
  "entry_ok I E X now v x \<longleftrightarrow>
     (case v of
        None \<Rightarrow> x \<notin> I \<union> E \<union> X
      | Some (_, t, flag) \<Rightarrow> x \<in> I \<union> E \<union> X \<and> (x \<notin> X \<longrightarrow> flag = (x \<in> E)) \<and> (x \<in> E \<longrightarrow> t = now))"

definition dq_store ::
  "'a DelayQueue \<Rightarrow> (nat \<times> nat \<Rightarrow> nat list) \<Rightarrow> nat list \<Rightarrow> nat set \<Rightarrow> bool"
where
  "dq_store q F E X \<longleftrightarrow>
     wheel_rep linked (q_wheel q) (q_slab q) F \<and>
     wheel_inv 0 (\<lambda>x. Stack_when x (q_slab q)) (elapsed (q_wheel q)) F \<and>
     linked (q_expired q) (q_slab q) E \<and> (\<forall>x\<in>X. unlinked (q_slab q) x) \<and>
     set E \<inter> items F = {} \<and> X \<inter> (set E \<union> items F) = {} \<and>
     (\<forall>x. entry_ok (items F) (set E) X (elapsed (q_wheel q)) (payload (q_slab q) x) x) \<and>
     finite (dom (q_slab q)) \<and> q_len q = card (dom (q_slab q))"

definition contents :: "'a DelayQueue \<Rightarrow> nat \<rightharpoonup> ('a \<times> u64)" where
  "contents q x = map_option (\<lambda>(v, t, _). (v, t)) (payload (q_slab q) x)"

text \<open>
  \<open>dq_time clock q F\<close>: neither the wheel nor a retained poll is ahead of the clock, and a retained
  expiration is still the first one.
\<close>

definition dq_time :: "instant \<Rightarrow> 'a DelayQueue \<Rightarrow> (nat \<times> nat \<Rightarrow> nat list) \<Rightarrow> bool" where
  "dq_time clock q F \<longleftrightarrow>
     q_start q + from_millis (elapsed (q_wheel q)) \<le> clock \<and>
     (case q_delay q of
        None \<Rightarrow> elapsed (q_wheel q) \<le> p_now (q_poll q) \<and>
          poll_valid (\<lambda>x. Stack_when x (q_slab q)) (elapsed (q_wheel q)) F (q_poll q) \<and>
          q_start q + from_millis (p_now (q_poll q)) \<le> clock
      | Some delay \<Rightarrow> \<exists>m. elapsed (q_wheel q) \<le> m \<and> delay = q_start q + from_millis m)"

lemma payload_None: "payload st x = None \<longleftrightarrow> st x = None"
  by (simp add: payload_def)

lemma payload_dom: "(\<And>y. payload st' y = payload st y) \<Longrightarrow> dom st' = dom st"
  by (simp add: dom_def payload_None [symmetric])

lemma payload_Stack_when: "Stack_when x st = map_option (\<lambda>(_, t, _). t) (payload st x)"
  by (simp add: Stack_when_def payload_def option.map_comp comp_def)

lemma Stack_when_None: "Stack_when x st = None \<longleftrightarrow> st x = None"
  by (simp add: Stack_when_def)

lemma from_millis_mono: "a \<le> b \<Longrightarrow> from_millis a \<le> from_millis b"
  by (simp add: from_millis_def word_le_nat_alt)

lemma ms_from_millis: "ms (from_millis m) Down = m"
proof -
  define n where "n = unat m"
  have n: "n < 18446744073709551616" using u64_bound [of m] by (simp add: n_def)
  have "n * 1000000 div 1000000000 = n div 1000" "n * 1000000 mod 1000000000 div 1000000 = n mod 1000"
    using div_mult_mult2 [of 1000000 n 1000] mult_mod_left [of n 1000 1000000] by simp_all
  then have "ms (from_millis m) Down = of_nat (min (min (n div 1000 * 1000) 18446744073709551615 + n mod 1000) 18446744073709551615)"
    by (simp add: ms_def from_millis_def n_def [symmetric] Let_def)
  also have "min (min (n div 1000 * 1000) 18446744073709551615 + n mod 1000) 18446744073709551615 = n"
    using n div_mult_mod_eq [of n 1000] by linarith
  finally show ?thesis
    by (simp add: n_def)
qed

lemma dq_storeD:
  assumes "dq_store q F E X"
  shows "wheel_rep linked (q_wheel q) (q_slab q) F"
    and "wheel_inv 0 (\<lambda>x. Stack_when x (q_slab q)) (elapsed (q_wheel q)) F"
    and "linked (q_expired q) (q_slab q) E" and "x \<in> X \<Longrightarrow> unlinked (q_slab q) x"
    and "set E \<inter> items F = {}" and "X \<inter> (set E \<union> items F) = {}"
    and "entry_ok (items F) (set E) X (elapsed (q_wheel q)) (payload (q_slab q) x) x"
    and "finite (dom (q_slab q))" and "q_len q = card (dom (q_slab q))"
  using assms unfolding dq_store_def by blast+

lemma contents_when: "contents q x = Some (v, t) \<Longrightarrow> Stack_when x (q_slab q) = Some t"
  by (auto simp: contents_def payload_Stack_when)

lemma contents_keys:
  assumes "dq_store q F E X"
  shows "(\<exists>v t. contents q x = Some (v, t)) \<longleftrightarrow> x \<in> items F \<union> set E \<union> X"
  using dq_storeD(7) [OF assms, of x]
  by (cases "payload (q_slab q) x") (auto simp: entry_ok_def contents_def)

text \<open>A change of the wheel and the slab's links that keeps the payloads.\<close>

lemma dq_store_wheel:
  assumes st: "dq_store q F E X" and wr: "wheel_rep linked w st F'"
    and inv: "wheel_inv 0 (\<lambda>x. Stack_when x (q_slab q)) (elapsed w) F'"
    and keep: "keeps delay_queue_stack linked unlinked payload A (q_slab q) st"
    and A: "A \<inter> set E = {}" and keys: "items F' \<union> X' = items F \<union> X" "X' \<inter> items F' = {}"
    and free: "\<And>x. x \<in> X' \<Longrightarrow> unlinked st x" and el: "E = [] \<or> elapsed w = elapsed (q_wheel q)"
    and flag: "\<And>x v t. x \<in> X - X' \<Longrightarrow> payload (q_slab q) x = Some (v, t, True) \<Longrightarrow> False"
  shows "dq_store (q\<lparr>q_wheel := w, q_slab := st\<rparr>) F' E X'"
proof -
  have pay: "payload st y = payload (q_slab q) y" for y
    using keep by (rule keeps_view)
  have "linked (q_expired q) st E"
    using keep dq_storeD(3) [OF st] A by (intro keeps_rep [OF keep]) auto
  moreover have "set E \<inter> items F' = {}" "X' \<inter> (set E \<union> items F') = {}"
    using keys dq_storeD(5,6) [OF st] by blast+
  moreover have "entry_ok (items F') (set E) X' (elapsed w) (payload st x) x" for x
    using dq_storeD(7) [OF st, of x] keys el flag [of x] dq_storeD(5,6) [OF st]
    by (cases "payload (q_slab q) x") (auto simp: entry_ok_def pay)
  ultimately show ?thesis
    using wr inv free pay dq_storeD(8,9) [OF st] payload_dom [of st "q_slab q"]
    by (simp add: dq_store_def payload_Stack_when)
qed

text \<open>A change of the expired stack and of the links of its entries.\<close>

lemma wheel_rep_linked_cong:
  assumes "wheel_rep linked w st F" and "\<forall>y. y \<notin> A \<longrightarrow> st' y = st y" and "A \<inter> items F = {}"
  shows "wheel_rep linked w st' F"
proof -
  have "linked k st' (F p)" if "linked k st (F p)" for k p
    using that assms(2) by (rule linked_cong) (use assms(3) items_I [of _ F p] in auto)
  then show ?thesis
    using assms(1) by (simp add: wheel_rep_def)
qed

lemma dq_store_expired:
  assumes st: "dq_store q F E X" and lk: "linked ex st' E'" and out: "\<forall>y. y \<notin> A \<longrightarrow> st' y = q_slab q y"
    and A: "A \<inter> items F = {}" and keys: "set E' \<union> X' = set E \<union> X" "set E' \<inter> X' = {}"
    and free: "\<And>x. x \<in> X' \<Longrightarrow> unlinked st' x"
    and pe: "\<And>x. x \<in> set E' \<Longrightarrow> \<exists>v. payload st' x = Some (v, elapsed (q_wheel q), True)"
    and pay: "\<And>x. x \<notin> set E' \<Longrightarrow> payload st' x = payload (q_slab q) x"
    and whn: "\<And>x. Stack_when x st' = Stack_when x (q_slab q)"
  shows "dq_store (q\<lparr>q_expired := ex, q_slab := st'\<rparr>) F E' X'"
proof -
  have "entry_ok (items F) (set E') X' (elapsed (q_wheel q)) (payload st' x) x" for x
  proof (cases "x \<in> set E'")
    case True
    then show ?thesis
      using pe [OF True] keys by (auto simp: entry_ok_def)
  next
    case False
    moreover have "x \<in> set E' \<or> x \<in> X' \<longleftrightarrow> x \<in> set E \<or> x \<in> X"
      using keys(1) by blast
    ultimately show ?thesis
      using dq_storeD(7) [OF st, of x] unfolding pay [OF False]
      by (cases "payload (q_slab q) x") (auto simp: entry_ok_def)
  qed
  moreover have "dom st' = dom (q_slab q)"
    using whn by (simp add: dom_def Stack_when_None [symmetric])
  moreover have "set E' \<inter> items F = {}" "X' \<inter> (set E' \<union> items F) = {}"
    using keys dq_storeD(5,6) [OF st] by blast+
  moreover have "wheel_rep linked (q_wheel q) st' F"
    using dq_storeD(1) [OF st] out A by (rule wheel_rep_linked_cong)
  ultimately show ?thesis
    using lk free whn dq_storeD(2,8,9) [OF st] by (simp add: dq_store_def)
qed

section \<open>Insertion\<close>

text \<open>What the operations on one entry leave of the rest of the queue.\<close>

definition same_clock :: "'a DelayQueue \<Rightarrow> 'a DelayQueue \<Rightarrow> bool" where
  "same_clock q q' \<longleftrightarrow> q_start q' = q_start q \<and> q_delay q' = q_delay q \<and> q_poll q' = q_poll q \<and>
     elapsed (q_wheel q') = elapsed (q_wheel q)"

lemma insert_idx_store:
  assumes st: "dq_store q F E {key}" and pay: "payload (q_slab q) key = Some (v, t, False)"
    and t: "elapsed (q_wheel q) \<le> t" "blk 6 t = blk 6 (elapsed (q_wheel q))"
  shows "\<exists>q' F' E'. insert_idx q t key = Some q' \<and> dq_store q' F' E' {} \<and>
    contents q' = contents q \<and> same_clock q q' \<and> q_len q' = q_len q \<and>
    (t \<noteq> elapsed (q_wheel q) \<longrightarrow> E' = E)"
proof -
  have key: "unlinked (q_slab q) key" "key \<notin> items F" "key \<notin> set E"
    using dq_storeD(4,6) [OF st] by auto
  have whn: "Stack_when key (q_slab q) = Some t"
    using pay by (simp add: payload_Stack_when)
  show ?thesis
  proof (cases "t = elapsed (q_wheel q)")
    case False
    then have lt: "elapsed (q_wheel q) < t" using t(1) by simp
    obtain w' st' F' where ins: "Wheel_insert delay_queue_stack (q_wheel q) t key (q_slab q) = Some (Ok (), w', st')"
        and wr: "wheel_rep linked w' st' F'" and el: "elapsed w' = elapsed (q_wheel q)"
        and inv: "wheel_inv 0 (\<lambda>x. Stack_when x (q_slab q)) (elapsed (q_wheel q)) F'"
        and it: "items F' = insert key (items F)"
        and keep: "keeps delay_queue_stack linked unlinked payload (insert key (items F)) (q_slab q) st'"
      using dq.insert_correct [OF dq_storeD(1) [OF st], unfolded delay_queue_stack_sel,
          OF dq_storeD(2) [OF st] key(1,2) whn lt t(2)] by blast
    have "dq_store (q\<lparr>q_wheel := w', q_slab := st'\<rparr>) F' E {}"
      using st wr inv [folded el] keep
      by (rule dq_store_wheel) (use it el pay key dq_storeD(5) [OF st] in auto)
    moreover have "insert_idx q t key = Some (q\<lparr>q_wheel := w', q_slab := st'\<rparr>)"
      using ins by (simp add: insert_idx_def)
    ultimately show ?thesis
      using el keeps_view [OF keep] False by (fastforce simp: contents_def same_clock_def)
  next
    case True
    obtain d where d: "q_slab q key = Some d" using key(1) by (auto simp: unlinked_def)
    define st1 where "st1 = (q_slab q)(key \<mapsto> d\<lparr>d_expired := True\<rparr>)"
    have lk1: "linked (q_expired q) st1 E"
      unfolding st1_def using dq_storeD(3) [OF st] key(3) by (rule linked_upd)
    moreover have "unlinked st1 key"
      using key(1) d by (auto simp: unlinked_def st1_def)
    ultimately obtain ex st2 where push: "Stack_push (q_expired q) key st1 = Some (ex, st2)"
        and lk: "linked ex st2 (key # E)" and out: "\<forall>y. y \<notin> set (key # E) \<longrightarrow> st2 y = st1 y"
        and p2: "\<And>y. payload st2 y = payload st1 y"
      using Stack_push_linked [OF lk1 _ key(3)] by blast
    have p1: "payload st1 y = (if y = key then Some (v, t, True) else payload (q_slab q) y)" for y
      using pay d by (auto simp: payload_def st1_def)
    have pe: "\<exists>v. payload st2 x = Some (v, elapsed (q_wheel q), True)" if "x \<in> set (key # E)" for x
      using that dq_storeD(7) [OF st, of x] key True
      by (cases "payload (q_slab q) x") (auto simp: p1 p2 entry_ok_def)
    have "dq_store (q\<lparr>q_expired := ex, q_slab := st2\<rparr>) F (key # E) {}"
      using st lk _ _ _ _ _ pe
      by (rule dq_store_expired [where A = "set (key # E)"])
        (use out key dq_storeD(5) [OF st] p1 p2 pay in \<open>auto simp: payload_Stack_when st1_def\<close>)
    moreover have "insert_idx q t key = Some (q\<lparr>q_expired := ex, q_slab := st2\<rparr>)"
      using push True d by (simp add: insert_idx_def Wheel_insert_def slab_update_def st1_def)
    moreover have "contents (q\<lparr>q_expired := ex, q_slab := st2\<rparr>) = contents q"
      using pay by (auto simp: contents_def p1 p2)
    ultimately show ?thesis
      using True by (intro exI conjI) (assumption | simp add: same_clock_def)+
  qed
qed

lemma wheel_inv_cong:
  assumes "wheel_inv k f e F" and "\<And>x. x \<in> items F \<Longrightarrow> g x = f x"
  shows "wheel_inv k g e F"
proof -
  have "\<exists>t. g x = Some t \<and> placed k e p t" if "x \<in> set (F p)" for x p
    using assms(1) that unfolding assms(2) [OF items_I [of x F p, OF that]] wheel_inv_def by blast
  then show ?thesis
    using assms(1) unfolding wheel_inv_def by blast
qed

lemma poll_valid_cong:
  assumes "poll_valid f e F p" and "\<And>q. set (F' q) \<subseteq> set (F q)" and "\<And>x. x \<in> items F' \<Longrightarrow> g x = f x"
  shows "poll_valid g e F' p"
proof -
  have "first_slot g e F' l s d" if "first_slot f e F l s d" for l s d
    using first_slot_subset [OF that assms(2)] assms(3) by (rule first_slot_cong)
  then show ?thesis
    using assms(1) by (simp add: poll_valid_def split: option.splits)
qed

text \<open>A new entry, not yet in a list.\<close>

lemma dq_store_new:
  assumes st: "dq_store q F E {}" and vac: "q_slab q key = None"
  shows "dq_store (q\<lparr>q_slab := (q_slab q)(key \<mapsto>
      \<lparr>d_inner = v, d_when = t, d_expired = False, d_next = None, d_prev = None\<rparr>),
      q_len := q_len q + 1\<rparr>) F E {key}" (is "dq_store ?q F E {key}")
proof -
  have "payload (q_slab q) key = None" using vac by (simp add: payload_None)
  then have key: "key \<notin> items F" "key \<notin> set E"
    using dq_storeD(7) [OF st, of key] by (auto simp: entry_ok_def)
  have "wheel_rep linked (q_wheel q) (q_slab ?q) F"
    using dq_storeD(1) [OF st] by (rule wheel_rep_linked_cong [where A = "{key}"]) (use key in auto)
  moreover have "wheel_inv 0 (\<lambda>x. Stack_when x (q_slab ?q)) (elapsed (q_wheel q)) F"
    using dq_storeD(2) [OF st] by (rule wheel_inv_cong) (use key in \<open>auto simp: Stack_when_def\<close>)
  moreover have "linked (q_expired q) (q_slab ?q) E"
    using linked_upd [OF dq_storeD(3) [OF st] key(2)] by simp
  moreover have "unlinked (q_slab ?q) key"
    by (simp add: unlinked_def)
  moreover have "entry_ok (items F) (set E) {key} (elapsed (q_wheel q)) (payload (q_slab ?q) x) x" for x
    using dq_storeD(7) [OF st, of x] key
    by (cases "x = key"; cases "payload (q_slab q) x") (auto simp: entry_ok_def payload_def)
  moreover have "q_len q + 1 = card (dom (q_slab ?q))" "finite (dom (q_slab ?q))"
    using dq_storeD(8,9) [OF st] vac by (simp_all add: domIff)
  ultimately show ?thesis
    using key dq_storeD(5) [OF st] by (simp add: dq_store_def)
qed

lemma insert_at_correct:
  assumes st: "dq_store q F E {}" and tm: "dq_time clock q F"
    and vac: "q_slab q (vacant (q_slab q)) = None" and len: "q_len q < MAX_ENTRIES"
    and rng: "blk 6 (normalize_deadline q at) = blk 6 (elapsed (q_wheel q))"
  shows "\<exists>q' F' E'. insert_at vacant q v at = Some (vacant (q_slab q), q') \<and> dq_store q' F' E' {} \<and>
    dq_time clock q' F' \<and>
    contents q' = (contents q)(vacant (q_slab q) \<mapsto> (v, normalize_deadline q at)) \<and>
    q_start q' = q_start q \<and> elapsed (q_wheel q') = elapsed (q_wheel q) \<and>
    (normalize_deadline q at \<noteq> elapsed (q_wheel q) \<longrightarrow> E' = E) \<and>
    (q_delay q = None \<longrightarrow> q_delay q' = Some (q_start q + from_millis (normalize_deadline q at)))"
proof -
  define key t where "key = vacant (q_slab q)" and "t = normalize_deadline q at"
  define q1 where "q1 = q\<lparr>q_slab := (q_slab q)(key \<mapsto>
      \<lparr>d_inner = v, d_when = t, d_expired = False, d_next = None, d_prev = None\<rparr>), q_len := q_len q + 1\<rparr>"
  have q1: "q_wheel q1 = q_wheel q" "q_start q1 = q_start q" "q_delay q1 = q_delay q"
    by (simp_all add: q1_def)
  have "dq_store q1 F E {key}"
    unfolding q1_def using st vac [folded key_def] by (rule dq_store_new)
  moreover have "payload (q_slab q1) key = Some (v, t, False)"
    by (simp add: q1_def payload_def)
  moreover have el: "elapsed (q_wheel q) \<le> t"
    by (simp add: t_def normalize_deadline_def Let_def)
  ultimately obtain q2 F' E' where ins: "insert_idx q1 t key = Some q2" and st2: "dq_store q2 F' E' {}"
      and c2: "contents q2 = contents q1" and sc: "same_clock q1 q2"
      and E': "t \<noteq> elapsed (q_wheel q) \<longrightarrow> E' = E"
    using insert_idx_store [of q1 F E key v t] rng q1 by (auto simp: t_def)
  let ?q3 = "q2\<lparr>q_delay := Some (q_start q2 + from_millis t)\<rparr>"
  have c3: "contents q2 = (contents q)(key \<mapsto> (v, t))"
    unfolding c2 by (auto simp: contents_def q1_def payload_def)
  have ex: "insert_at vacant q v at = Some (key, q2) \<and> q_delay q2 \<noteq> None \<or> insert_at vacant q v at = Some (key, ?q3)"
    using ins len
    unfolding insert_at_def Let_def key_def [symmetric] t_def [symmetric] q1_def [symmetric]
    by (auto split: option.splits)
  have sc': "q_start q2 = q_start q" "q_delay q2 = q_delay q" "elapsed (q_wheel q2) = elapsed (q_wheel q)"
    using sc q1 by (auto simp: same_clock_def)
  from ex show ?thesis
  proof
    assume "insert_at vacant q v at = Some (key, q2) \<and> q_delay q2 \<noteq> None"
    moreover then have "dq_time clock q2 F'"
      using tm sc' by (auto simp: dq_time_def)
    moreover have "q_delay q \<noteq> None"
      using calculation(1) sc' by simp
    ultimately show ?thesis
      using st2 c3 sc' E' unfolding key_def t_def by (intro exI [of _ q2] exI [of _ F'] exI [of _ E']) simp
  next
    assume "insert_at vacant q v at = Some (key, ?q3)"
    moreover have "dq_time clock ?q3 F'"
      using tm sc' el by (auto simp: dq_time_def)
    moreover have "dq_store ?q3 F' E' {}"
      using st2 by (simp add: dq_store_def)
    moreover have "contents ?q3 = contents q2"
      by (auto simp: contents_def)
    ultimately show ?thesis
      using c3 sc' E' unfolding key_def t_def by (intro exI conjI) (assumption | simp)+
  qed
qed

section \<open>Removal\<close>

text \<open>Taking an entry that is in no list out of the slab.\<close>

lemma slab_remove_store:
  assumes st: "dq_store q F E X" and key: "key \<in> X"
  shows "\<exists>d q'. slab_remove q key = Some (d, q') \<and> payload (q_slab q) key = Some (d_inner d, d_when d, d_expired d) \<and>
    dq_store q' F E (X - {key}) \<and> contents q' = (contents q)(key := None) \<and> same_clock q q' \<and>
    (\<forall>x. x \<noteq> key \<longrightarrow> Stack_when x (q_slab q') = Stack_when x (q_slab q))"
proof -
  obtain d where d: "q_slab q key = Some d"
    using dq_storeD(4) [OF st key] by (auto simp: unlinked_def)
  let ?q = "q\<lparr>q_slab := (q_slab q)(key := None), q_len := q_len q - 1\<rparr>"
  have nk: "key \<notin> items F" "key \<notin> set E"
    using dq_storeD(6) [OF st] key by auto
  have "wheel_rep linked (q_wheel q) (q_slab ?q) F"
    using dq_storeD(1) [OF st] by (rule wheel_rep_linked_cong [where A = "{key}"]) (use nk in auto)
  moreover have "wheel_inv 0 (\<lambda>x. Stack_when x (q_slab ?q)) (elapsed (q_wheel q)) F"
    using dq_storeD(2) [OF st] by (rule wheel_inv_cong) (use nk in \<open>auto simp: Stack_when_def\<close>)
  moreover have "linked (q_expired q) (q_slab ?q) E"
    using linked_upd [OF dq_storeD(3) [OF st] nk(2)] by simp
  moreover have "unlinked (q_slab ?q) x" if "x \<in> X - {key}" for x
    using dq_storeD(4) [OF st, of x] that by (auto simp: unlinked_def)
  moreover have "entry_ok (items F) (set E) (X - {key}) (elapsed (q_wheel q)) (payload (q_slab ?q) x) x" for x
    using dq_storeD(7) [OF st, of x] nk
    by (cases "x = key"; cases "payload (q_slab q) x") (auto simp: entry_ok_def payload_def)
  moreover have "q_len q - 1 = card (dom (q_slab ?q))" "finite (dom (q_slab ?q))"
    using dq_storeD(8,9) [OF st] d by (simp_all add: domIff)
  ultimately have "dq_store ?q F E (X - {key})"
    using dq_storeD(5,6) [OF st] by (simp add: dq_store_def) blast
  moreover have "contents ?q = (contents q)(key := None)"
    by (auto simp: contents_def payload_def)
  ultimately show ?thesis
    using d by (auto simp: slab_remove_def payload_def same_clock_def Stack_when_def)
qed

lemma unlink_expired:
  assumes st: "dq_store q F E {}" and key: "key \<in> set E"
  shows "\<exists>q1 E1. DelayQueue_unlink q key = Some q1 \<and> dq_store q1 F E1 {key} \<and>
    (\<forall>x. payload (q_slab q1) x = payload (q_slab q) x) \<and> same_clock q q1"
proof -
  obtain d where d: "q_slab q key = Some d" "d_expired d"
    using dq_storeD(7) [OF st, of key] key by (cases "q_slab q key") (auto simp: entry_ok_def payload_def)
  obtain ex st1 where rem: "Stack_remove (q_expired q) key (q_slab q) = Some (ex, st1)"
      and lk: "linked ex st1 (remove1 key E)" and fr: "unlinked st1 key"
      and out: "\<forall>y. y \<notin> set E \<longrightarrow> st1 y = q_slab q y" and py: "\<And>y. payload st1 y = payload (q_slab q) y"
    using Stack_remove_linked [OF dq_storeD(3) [OF st] key] by blast
  have dE: "set (remove1 key E) = set E - {key}"
    using linked_distinct [OF dq_storeD(3) [OF st]] by simp
  have "dq_store (q\<lparr>q_expired := ex, q_slab := st1\<rparr>) F (remove1 key E) {key}"
    using st lk out
  proof (rule dq_store_expired)
    show "\<exists>v. payload st1 x = Some (v, elapsed (q_wheel q), True)" if "x \<in> set (remove1 key E)" for x
      using dq_storeD(7) [OF st, of x] that py dE
      by (cases "payload (q_slab q) x") (auto simp: entry_ok_def)
  qed (use dq_storeD(5) [OF st] key dE fr py in \<open>auto simp: payload_Stack_when\<close>)
  moreover have "DelayQueue_unlink q key = Some (q\<lparr>q_expired := ex, q_slab := st1\<rparr>)"
    using rem d by (simp add: DelayQueue_unlink_def)
  ultimately show ?thesis
    using py by (intro exI conjI) (assumption | simp add: same_clock_def)+
qed

lemma unlink_wheel:
  assumes st: "dq_store q F E {}" and key: "key \<in> items F"
    and t: "Stack_when key (q_slab q) = Some t" "t \<noteq> elapsed (q_wheel q)"
  shows "\<exists>q1 F1. DelayQueue_unlink q key = Some q1 \<and> dq_store q1 F1 E {key} \<and>
    (\<forall>x. payload (q_slab q1) x = payload (q_slab q) x) \<and> same_clock q q1 \<and> (\<forall>p. set (F1 p) \<subseteq> set (F p))"
proof -
  have kE: "key \<notin> set E" using dq_storeD(5) [OF st] key by auto
  then obtain d where d: "q_slab q key = Some d" "\<not> d_expired d"
    using dq_storeD(7) [OF st, of key] key by (cases "q_slab q key") (auto simp: entry_ok_def payload_def)
  obtain w1 st1 F1 where rem: "Wheel_remove delay_queue_stack (q_wheel q) key (q_slab q) = Some (w1, st1)"
      and wr: "wheel_rep linked w1 st1 F1" and el: "elapsed w1 = elapsed (q_wheel q)"
      and inv: "wheel_inv 0 (\<lambda>x. Stack_when x (q_slab q)) (elapsed (q_wheel q)) F1"
      and it: "items F1 = items F - {key}" and sub: "\<forall>p. set (F1 p) \<subseteq> set (F p)" and fr: "unlinked st1 key"
      and keep: "keeps delay_queue_stack linked unlinked payload (items F) (q_slab q) st1"
    using dq.remove_correct [OF dq_storeD(1) [OF st], unfolded delay_queue_stack_sel,
        OF dq_storeD(2) [OF st] key t(1)] t(2) by blast
  have "dq_store (q\<lparr>q_wheel := w1, q_slab := st1\<rparr>) F1 E {key}"
    using st wr inv [folded el] keep
    by (rule dq_store_wheel) (use it el key fr dq_storeD(5) [OF st] in auto)
  moreover have "DelayQueue_unlink q key = Some (q\<lparr>q_wheel := w1, q_slab := st1\<rparr>)"
    using rem d by (simp add: DelayQueue_unlink_def)
  ultimately show ?thesis
    using el sub keeps_view [OF keep] by (intro exI conjI) (assumption | simp add: same_clock_def)+
qed

lemma DelayQueue_remove_correct:
  assumes st: "dq_store q F E {}" and tm: "dq_time clock q F"
    and key: "contents q key = Some (v, t)" and ne: "key \<in> set E \<or> t \<noteq> elapsed (q_wheel q)"
  shows "\<exists>q' F' E'. DelayQueue_remove q key =
      Some (\<lparr>e_data = v, e_deadline = q_start q + from_millis t, e_key = key\<rparr>, q') \<and>
    dq_store q' F' E' {} \<and> dq_time clock q' F' \<and> contents q' = (contents q)(key := None)"
proof -
  obtain flag where pay: "payload (q_slab q) key = Some (v, t, flag)"
    using key by (auto simp: contents_def)
  have "key \<in> set E \<or> key \<in> items F \<and> t \<noteq> elapsed (q_wheel q)"
    using contents_keys [OF st, of key] key ne by auto
  then obtain q1 F1 E1 where rem: "DelayQueue_unlink q key = Some q1" and st1: "dq_store q1 F1 E1 {key}"
      and py: "\<And>x. payload (q_slab q1) x = payload (q_slab q) x"
      and sc: "same_clock q q1" and sub: "\<And>p. set (F1 p) \<subseteq> set (F p)"
    using unlink_expired [OF st, of key] unlink_wheel [OF st, of key t] contents_when [OF key] by blast
  obtain d' q2 where sr: "slab_remove q1 key = Some (d', q2)" "d_inner d' = v" "d_when d' = t"
      and st2: "dq_store q2 F1 E1 {}" and c2: "contents q2 = (contents q1)(key := None)" and sc2: "same_clock q1 q2"
      and w2: "\<And>x. x \<noteq> key \<Longrightarrow> Stack_when x (q_slab q2) = Stack_when x (q_slab q1)"
    using slab_remove_store [OF st1, of key] pay py by auto
  have c1: "contents q1 = contents q" using py by (auto simp: contents_def)
  have nk: "key \<notin> items F1" using dq_storeD(6) [OF st1] by auto
  have w: "Stack_when x (q_slab q2) = Stack_when x (q_slab q)" if "x \<in> items F1" for x
    using w2 [of x] nk that py by (auto simp: payload_Stack_when)
  have "poll_valid (\<lambda>x. Stack_when x (q_slab q2)) (elapsed (q_wheel q)) F1 (q_poll q)"
    if "poll_valid (\<lambda>x. Stack_when x (q_slab q)) (elapsed (q_wheel q)) F (q_poll q)"
    using that sub w by (rule poll_valid_cong)
  then have "dq_time clock q2 F1"
    using tm sc sc2 by (auto simp: dq_time_def same_clock_def split: option.splits)
  moreover have "DelayQueue_remove q key =
      Some (\<lparr>e_data = v, e_deadline = q_start q + from_millis t, e_key = key\<rparr>, q2)"
    using rem sr sc sc2 by (simp add: DelayQueue_remove_def same_clock_def)
  ultimately show ?thesis
    using st2 c1 c2 by (intro exI conjI) (assumption | simp)+
qed

end
