(* ===== verification/Delay_Queue_Poll.thy ===== *)
theory Delay_Queue_Poll
  imports Delay_Queue
begin

text \<open>
  Polling a \<^verbatim>\<open>DelayQueue\<close> (src/timer/delay_queue.rs): the loop terminates, and it returns an entry with
  the earliest deadline of all entries, never before its time.  The properties of the queue follow,
  among them the executions in which the code does not do what its documentation says.
\<close>

section \<open>One round of the loop\<close>

lemma first_slot_later:
  assumes inv: "wheel_inv 0 whn e F" and fs: "first_slot whn e F l s d" and ne: "F (l, s) \<noteq> []"
    and later: "\<And>x t. x \<in> items F \<Longrightarrow> whn x = Some t \<Longrightarrow> e < t"
  shows "e < d"
proof -
  obtain x where x: "x \<in> set (F (l, s))"
    using ne by (cases "F (l, s)") auto
  obtain t where t: "whn x = Some t" "blk l t = blk l e \<Longrightarrow> l = 0"
    using wheel_invD [OF inv x] by metis
  have "d \<noteq> e"
  proof
    assume de: "d = e"
    then have "blk l t = blk l e"
      using first_slotD(7) [OF fs x t(1)] by simp
    with t(2) have "t = e"
      by (simp add: word_unat_eq_iff)
    then show False
      using later [OF items_I [of x F "(l, s)", OF x] t(1)] by simp
  qed
  then show ?thesis
    using first_slotD(1) [OF fs] by simp
qed

lemma next_deadline_cases:
  assumes st: "dq_store q F E X"
    and later: "\<And>x t. x \<in> items F \<Longrightarrow> Stack_when x (q_slab q) = Some t \<Longrightarrow> elapsed (q_wheel q) < t"
  shows "next_deadline q = Some None \<and> items F = {} \<or>
    (\<exists>d. next_deadline q = Some (Some (q_start q + from_millis d)) \<and> items F \<noteq> {} \<and> elapsed (q_wheel q) < d \<and>
      (\<forall>x\<in>items F. \<forall>t. Stack_when x (q_slab q) = Some t \<longrightarrow> d \<le> t))"
proof (cases "items F = {}")
  case True
  then show ?thesis
    using next_expiration_None [OF dq_storeD(1) [OF st]] by (simp add: next_deadline_def Wheel_poll_at_def)
next
  case False
  obtain l s0 where l: "l < 6" "F (l, s0) \<noteq> []" "\<And>l' s'. l' < l \<Longrightarrow> F (l', s') = []"
    using lowest_level [OF dq_storeD(1) [OF st] False] by blast
  obtain s d where s: "F (l, s) \<noteq> []" and fs: "first_slot (\<lambda>x. Stack_when x (q_slab q)) (elapsed (q_wheel q)) F l s d"
      and nx: "Wheel_next_expiration (q_wheel q) = Some (Some \<lparr>ex_level = l, ex_slot = s, ex_deadline = d\<rparr>)"
    using next_expiration_first [OF dq_storeD(1,2) [OF st] l] by blast
  have "elapsed (q_wheel q) < d"
    using dq_storeD(2) [OF st] fs s later by (rule first_slot_later)
  moreover have "next_deadline q = Some (Some (q_start q + from_millis d))"
    using nx by (simp add: next_deadline_def Wheel_poll_at_def)
  ultimately show ?thesis
    using False first_slotD(6) [OF fs] by blast
qed

text \<open>
  The poll of the wheel in one round, from a state without expired entries.  \<open>p\<close> is the wheel's
  poll state of the round.
\<close>

lemma round_poll:
  assumes st: "dq_store q F [] {}" and p: "elapsed (q_wheel q) \<le> p_now p"
    and val: "poll_valid (\<lambda>x. Stack_when x (q_slab q)) (elapsed (q_wheel q)) F p"
  shows "\<exists>r w' p' st' F'. Wheel_poll delay_queue_stack (q_wheel q) p (q_slab q) = Some (r, w', p', st') \<and>
    dq_store (q\<lparr>q_delay := dl, q_wheel := w', q_poll := p', q_slab := st'\<rparr>) F' [] (set_option r) \<and>
    (\<forall>x. payload st' x = payload (q_slab q) x) \<and> elapsed w' \<le> p_now p \<and> p_now p' = p_now p \<and>
    poll_valid (\<lambda>x. Stack_when x (q_slab q)) (elapsed w') F' p' \<and>
    poll_result (\<lambda>x. Stack_when x (q_slab q)) (p_now p) (items F) r (items F') \<and>
    (r = None \<longrightarrow> elapsed w' = p_now p)"
proof -
  obtain r w' p' st' F' where poll: "Wheel_poll delay_queue_stack (q_wheel q) p (q_slab q) = Some (r, w', p', st')"
      and wr: "wheel_rep linked w' st' F'"
      and inv: "wheel_inv 0 (\<lambda>x. Stack_when x (q_slab q)) (elapsed w') F'"
      and now: "elapsed w' \<le> p_now p" "p_now p' = p_now p"
      and val': "poll_valid (\<lambda>x. Stack_when x (q_slab q)) (elapsed w') F' p'"
      and keep: "keeps delay_queue_stack linked unlinked payload (items F) (q_slab q) st'"
      and res: "poll_result (\<lambda>x. Stack_when x (q_slab q)) (p_now p) (items F) r (items F')"
      and cs: "case r of None \<Rightarrow> elapsed w' = p_now p \<and> p_expiration p' = None | Some x \<Rightarrow> unlinked st' x"
    using dq.poll_correct [OF dq_storeD(1) [OF st], unfolded delay_queue_stack_sel, OF dq_storeD(2) [OF st] p val]
    by (auto simp: poll_post_def)
  have keys: "items F' \<union> set_option r = items F" "set_option r \<inter> items F' = {}"
    using res by (cases r; auto simp: poll_result_def)+
  have "dq_store (q\<lparr>q_wheel := w', q_slab := st'\<rparr>) F' [] (set_option r)"
    using st wr inv keep by (rule dq_store_wheel) (use keys cs in \<open>cases r; auto\<close>)+
  then have "dq_store (q\<lparr>q_delay := dl, q_wheel := w', q_poll := p', q_slab := st'\<rparr>) F' [] (set_option r)"
    by (simp add: dq_store_def)
  moreover have "r = None \<longrightarrow> elapsed w' = p_now p"
    using cs by auto
  ultimately show ?thesis
    using poll now val' res keeps_view [OF keep] by (intro exI conjI allI) (assumption | simp)+
qed

text \<open>The outcome of the loop, from a state without expired entries.\<close>

definition loop_post ::
  "instant \<Rightarrow> (instant \<Rightarrow> bool) \<Rightarrow> 'a DelayQueue \<Rightarrow> (nat \<times> nat \<Rightarrow> nat list) \<Rightarrow> nat option poll \<Rightarrow> 'a DelayQueue \<Rightarrow> bool"
where
  "loop_post clock ready q F r q' \<longleftrightarrow> contents q' = contents q \<and> q_start q' = q_start q \<and>
     (\<exists>F'. dq_time clock q' F' \<and>
       (case r of
          Pending \<Rightarrow> dq_store q' F' [] {} \<and> (\<exists>d. q_delay q' = Some d \<and> \<not> ready d \<and>
            (q_delay q = Some d \<or> (\<forall>x\<in>items F. \<forall>t. Stack_when x (q_slab q) = Some t \<longrightarrow> d \<le> q_start q + from_millis t)))
        | Ready None \<Rightarrow> dq_store q' F' [] {} \<and> items F = {}
        | Ready (Some x) \<Rightarrow> dq_store q' F' [] {x} \<and> x \<in> items F \<and>
            (\<exists>t. Stack_when x (q_slab q) = Some t \<and> q_start q + from_millis t \<le> clock \<and>
              (\<forall>y\<in>items F. \<forall>u. Stack_when y (q_slab q) = Some u \<longrightarrow> t \<le> u))))"

definition round_poll_state :: "'a DelayQueue \<Rightarrow> Poll" where
  "round_poll_state q =
     (case q_delay q of Some delay \<Rightarrow> Poll_new (ms (delay - q_start q) Down) | None \<Rightarrow> q_poll q)"

lemma round_poll_state_ok:
  assumes tm: "dq_time clock q F" and rdy: "\<And>d. ready d \<Longrightarrow> d \<le> clock"
    and go: "\<And>d. q_delay q = Some d \<Longrightarrow> ready d"
  shows "elapsed (q_wheel q) \<le> p_now (round_poll_state q)"
    and "poll_valid (\<lambda>x. Stack_when x (q_slab q)) (elapsed (q_wheel q)) F (round_poll_state q)"
    and "q_start q + from_millis (p_now (round_poll_state q)) \<le> clock"
  using tm go rdy
  by (auto simp: dq_time_def round_poll_state_def Poll_new_def poll_valid_def ms_from_millis split: option.splits)

lemma loop_round:
  assumes st: "dq_store q F [] {}" and tm: "dq_time clock q F" and rdy: "\<And>d. ready d \<Longrightarrow> d \<le> clock"
    and go: "\<And>d. q_delay q = Some d \<Longrightarrow> ready d"
  shows "(\<exists>r q'. poll_idx_loop ready q = Some (r, q') \<and> loop_post clock ready q F r q') \<or>
    (\<exists>q' F' d. poll_idx_loop ready q = poll_idx_loop ready q' \<and> dq_store q' F' [] {} \<and> dq_time clock q' F' \<and>
      (\<forall>x. payload (q_slab q') x = payload (q_slab q) x) \<and> q_start q' = q_start q \<and> items F' = items F \<and>
      q_delay q' = Some (q_start q + from_millis d) \<and> elapsed (q_wheel q') = p_now (round_poll_state q) \<and>
      elapsed (q_wheel q') < d \<and>
      (\<forall>x\<in>items F. \<forall>t. Stack_when x (q_slab q) = Some t \<longrightarrow> d \<le> t))"
proof -
  define p where "p = round_poll_state q"
  have p_ok: "elapsed (q_wheel q) \<le> p_now p"
    "poll_valid (\<lambda>x. Stack_when x (q_slab q)) (elapsed (q_wheel q)) F p"
    "q_start q + from_millis (p_now p) \<le> clock"
    unfolding p_def using round_poll_state_ok [of clock q F ready] tm rdy go by blast+
  obtain r w' p' st' F' where poll: "Wheel_poll delay_queue_stack (q_wheel q) p (q_slab q) = Some (r, w', p', st')"
      and st': "dq_store (q\<lparr>q_delay := None, q_wheel := w', q_poll := p', q_slab := st'\<rparr>) F' [] (set_option r)"
      and py: "\<And>x. payload st' x = payload (q_slab q) x" and now: "elapsed w' \<le> p_now p" "p_now p' = p_now p"
      and val: "poll_valid (\<lambda>x. Stack_when x (q_slab q)) (elapsed w') F' p'"
      and res: "poll_result (\<lambda>x. Stack_when x (q_slab q)) (p_now p) (items F) r (items F')"
      and el: "r = None \<Longrightarrow> elapsed w' = p_now p"
    using round_poll [OF st p_ok(1,2), where dl = None] by blast
  define q3 where "q3 = q\<lparr>q_delay := None, q_wheel := w', q_poll := p', q_slab := st'\<rparr>"
  have q3: "q_start q3 = q_start q" "q_delay q3 = None" "q_wheel q3 = w'" "q_slab q3 = st'" "q_poll q3 = p'"
    by (simp_all add: q3_def)
  have sw: "Stack_when x st' = Stack_when x (q_slab q)" for x
    by (simp add: payload_Stack_when py)
  have c3: "contents q3 = contents q"
    by (auto simp: contents_def q3_def py)
  have tm3: "dq_time clock q3 F'"
    using p_ok(3) now val from_millis_mono [OF now(1)] by (simp add: dq_time_def q3 sw)
  have eq: "poll_idx_loop ready q = (case r of
      Some idx \<Rightarrow> Some (Ready (Some idx), q3)
    | None \<Rightarrow> do { nd \<leftarrow> next_deadline q3;
        (case nd of Some deadline \<Rightarrow> poll_idx_loop ready (q3\<lparr>q_delay := Some deadline\<rparr>)
         | None \<Rightarrow> Some (Ready None, q3)) })"
    using poll go by (subst poll_idx_loop.simps)
      (auto simp: p_def round_poll_state_def q3_def Let_def split: option.splits)
  show ?thesis
  proof (cases r)
    case (Some x)
    then have "loop_post clock ready q F (Ready (Some x)) q3"
      unfolding loop_post_def using c3 q3 tm3 st' [folded q3_def] res p_ok(3)
      by (auto simp: poll_result_def intro: order_trans [OF add_left_mono [OF from_millis_mono]])
    then show ?thesis using eq Some by auto
  next
    case None
    have it: "items F' = items F" and later: "\<And>x t. x \<in> items F' \<Longrightarrow> Stack_when x st' = Some t \<Longrightarrow> elapsed w' < t"
      using res None el by (auto simp: poll_result_def sw)
    from next_deadline_cases [OF st' [folded q3_def], unfolded q3, OF later] show ?thesis
    proof
      assume nd: "next_deadline q3 = Some None \<and> items F' = {}"
      then have "loop_post clock ready q F (Ready None) q3"
        unfolding loop_post_def using c3 q3 tm3 st' [folded q3_def] None it by auto
      then show ?thesis using eq None nd by auto
    next
      assume "\<exists>d. next_deadline q3 = Some (Some (q_start q + from_millis d)) \<and> items F' \<noteq> {} \<and> elapsed w' < d \<and>
        (\<forall>x\<in>items F'. \<forall>t. Stack_when x st' = Some t \<longrightarrow> d \<le> t)"
      then obtain d where nd: "next_deadline q3 = Some (Some (q_start q + from_millis d))" "elapsed w' < d"
        and min: "\<forall>x\<in>items F'. \<forall>t. Stack_when x st' = Some t \<longrightarrow> d \<le> t" by blast
      let ?q = "q3\<lparr>q_delay := Some (q_start q + from_millis d)\<rparr>"
      have "dq_store ?q F' [] {}"
        using st' None by (simp add: dq_store_def q3_def)
      moreover have "dq_time clock ?q F'"
        using tm3 nd(2) by (auto simp: dq_time_def q3 intro!: exI [of _ d])
      moreover have "poll_idx_loop ready q = poll_idx_loop ready ?q"
        using eq None nd(1) by simp
      ultimately show ?thesis
        using py nd min [unfolded it] el [OF None] unfolding sw p_def
        by (intro disjI2 exI [of _ ?q] exI [of _ F'] exI [of _ d]) (simp add: q3 p_def it)
    qed
  qed
qed

section \<open>The loop\<close>

lemma loop_post_chain:
  assumes "loop_post clock ready q' F' r q''" and "\<And>x. payload (q_slab q') x = payload (q_slab q) x"
    and "q_start q' = q_start q" and "items F' = items F" and "q_delay q' = Some (q_start q + from_millis d)"
    and "\<forall>x\<in>items F. \<forall>t. Stack_when x (q_slab q) = Some t \<longrightarrow> d \<le> t"
  shows "loop_post clock ready q F r q''"
proof -
  have same: "contents q' = contents q" "\<And>x. Stack_when x (q_slab q') = Stack_when x (q_slab q)"
    using assms(2) by (auto simp: contents_def payload_Stack_when)
  have le: "\<forall>x\<in>items F. \<forall>t. Stack_when x (q_slab q) = Some t \<longrightarrow> q_start q + from_millis d \<le> q_start q + from_millis t"
    using assms(6) from_millis_mono by auto
  consider "r = Pending" | "r = Ready None" | x where "r = Ready (Some x)"
    by (metis option.exhaust poll.exhaust)
  then show ?thesis
    using same le assms(1,3-5) unfolding loop_post_def by cases auto
qed

lemma loop_pending:
  assumes "dq_store q F [] {}" and "dq_time clock q F" and "q_delay q = Some d" and "\<not> ready d"
  shows "poll_idx_loop ready q = Some (Pending, q) \<and> loop_post clock ready q F Pending q"
  using assms by (auto simp: loop_post_def poll_idx_loop.simps [of ready q])

text \<open>Each further round advances the wheel's time.\<close>

lemma loop_from_delay:
  assumes "dq_store q F [] {}" and "dq_time clock q F" and rdy: "\<And>d. ready d \<Longrightarrow> d \<le> clock"
    and "q_delay q = Some (q_start q + from_millis m)" and "elapsed (q_wheel q) < m"
  shows "\<exists>r q'. poll_idx_loop ready q = Some (r, q') \<and> loop_post clock ready q F r q'"
  using assms(1,2,4,5)
proof (induction "2 ^ 64 - unat (elapsed (q_wheel q))" arbitrary: q F m rule: less_induct)
  case less
  show ?case
  proof (cases "ready (q_start q + from_millis m)")
    case False
    then show ?thesis
      using loop_pending [OF less.prems(1-3)] by blast
  next
    case True
    have p: "p_now (round_poll_state q) = m"
      using less.prems(3) by (simp add: round_poll_state_def Poll_new_def ms_from_millis)
    consider "\<exists>r q'. poll_idx_loop ready q = Some (r, q') \<and> loop_post clock ready q F r q'"
      | q' F' d where "poll_idx_loop ready q = poll_idx_loop ready q'" "dq_store q' F' [] {}" "dq_time clock q' F'"
          "\<And>x. payload (q_slab q') x = payload (q_slab q) x" "q_start q' = q_start q" "items F' = items F"
          "q_delay q' = Some (q_start q + from_millis d)" "elapsed (q_wheel q') = m" "elapsed (q_wheel q') < d"
          "\<forall>x\<in>items F. \<forall>t. Stack_when x (q_slab q) = Some t \<longrightarrow> d \<le> t"
      using loop_round [of q F clock ready] less.prems rdy True unfolding p by auto
    then show ?thesis
    proof cases
      case 2
      have "2 ^ 64 - unat (elapsed (q_wheel q')) < 2 ^ 64 - unat (elapsed (q_wheel q))"
        using less.prems(4) 2(8) u64_bound [of m] by (simp add: word_less_nat_alt)
      then have "\<exists>r q''. poll_idx_loop ready q' = Some (r, q'') \<and> loop_post clock ready q' F' r q''"
        using less.hyps [of q' F' d] 2(2,3,5,7,9) by simp
      then show ?thesis
        using 2(1) loop_post_chain [OF _ 2(4-7,10)] by metis
    qed
  qed
qed

lemma loop_correct:
  assumes st: "dq_store q F [] {}" and tm: "dq_time clock q F" and rdy: "\<And>d. ready d \<Longrightarrow> d \<le> clock"
  shows "\<exists>r q'. poll_idx_loop ready q = Some (r, q') \<and> loop_post clock ready q F r q'"
proof (cases "\<exists>d. q_delay q = Some d \<and> \<not> ready d")
  case True
  then show ?thesis
    using loop_pending [OF st tm] by blast
next
  case False
  consider "\<exists>r q'. poll_idx_loop ready q = Some (r, q') \<and> loop_post clock ready q F r q'"
    | q' F' d where "poll_idx_loop ready q = poll_idx_loop ready q'" "dq_store q' F' [] {}" "dq_time clock q' F'"
        "\<And>x. payload (q_slab q') x = payload (q_slab q) x" "q_start q' = q_start q" "items F' = items F"
        "q_delay q' = Some (q_start q + from_millis d)" "elapsed (q_wheel q') < d"
        "\<forall>x\<in>items F. \<forall>t. Stack_when x (q_slab q) = Some t \<longrightarrow> d \<le> t"
    using loop_round [of q F clock ready] st tm rdy False by blast
  then show ?thesis
  proof cases
    case 2
    then have "\<exists>r q''. poll_idx_loop ready q' = Some (r, q'') \<and> loop_post clock ready q' F' r q''"
      using loop_from_delay [OF 2(2,3) rdy] by simp
    then show ?thesis
      using 2(1) loop_post_chain [OF _ 2(4-7,9)] by metis
  qed
qed

section \<open>Polling the queue\<close>

definition dq_inv :: "instant \<Rightarrow> 'a DelayQueue \<Rightarrow> bool" where
  "dq_inv clock q \<longleftrightarrow> (\<exists>F E. dq_store q F E {} \<and> dq_time clock q F)"

text \<open>\<open>is_expired q key\<close>: the entry was inserted when already due.\<close>

definition is_expired :: "'a DelayQueue \<Rightarrow> nat \<Rightarrow> bool" where
  "is_expired q key \<longleftrightarrow> (\<exists>d. q_slab q key = Some d \<and> d_expired d)"

lemma is_expired_iff: "dq_store q F E {} \<Longrightarrow> is_expired q key \<longleftrightarrow> key \<in> set E"
  using dq_storeD(7) [of q F E "{}" key]
  by (cases "q_slab q key") (auto simp: is_expired_def entry_ok_def payload_def)

text \<open>What a poll takes: an entry with the earliest deadline, which has passed.\<close>

definition takes_earliest :: "instant \<Rightarrow> 'a DelayQueue \<Rightarrow> nat \<Rightarrow> bool" where
  "takes_earliest clock q x \<longleftrightarrow> (\<exists>v t. contents q x = Some (v, t) \<and> q_start q + from_millis t \<le> clock \<and>
     (\<forall>k v' u. contents q k = Some (v', u) \<longrightarrow> t \<le> u))"

lemma contents_items:
  assumes st: "dq_store q F E {}" and c: "contents q k = Some (v, u)"
  shows "k \<in> set E \<and> u = elapsed (q_wheel q) \<or> k \<in> items F \<and> Stack_when k (q_slab q) = Some u \<and> elapsed (q_wheel q) \<le> u"
proof -
  obtain flag where pay: "payload (q_slab q) k = Some (v, u, flag)"
    using c by (auto simp: contents_def)
  have "k \<in> items F \<Longrightarrow> elapsed (q_wheel q) \<le> u"
    using wheel_inv_items_when [OF dq_storeD(2) [OF st], of k] contents_when [OF c] by auto
  then show ?thesis
    using dq_storeD(7) [OF st, of k] pay contents_when [OF c] by (auto simp: entry_ok_def)
qed

lemma items_contents:
  assumes st: "dq_store q F E {}" and k: "k \<in> items F" "Stack_when k (q_slab q) = Some u"
  shows "\<exists>v. contents q k = Some (v, u)"
  using k(2) by (auto simp: contents_def payload_Stack_when)

definition poll_idx_post ::
  "instant \<Rightarrow> (instant \<Rightarrow> bool) \<Rightarrow> 'a DelayQueue \<Rightarrow> nat option poll \<Rightarrow> 'a DelayQueue \<Rightarrow> bool"
where
  "poll_idx_post clock ready q r q' \<longleftrightarrow> contents q' = contents q \<and> q_start q' = q_start q \<and>
     (\<exists>F E. dq_time clock q' F \<and>
       (case r of
          Pending \<Rightarrow> dq_store q' F E {} \<and> (\<exists>d. q_delay q' = Some d \<and> \<not> ready d \<and>
            (q_delay q = Some d \<or> (\<forall>k v u. contents q k = Some (v, u) \<longrightarrow> d \<le> q_start q + from_millis u)))
        | Ready None \<Rightarrow> dq_store q' F E {} \<and> contents q = Map.empty
        | Ready (Some x) \<Rightarrow> dq_store q' F E {x} \<and> takes_earliest clock q x))"

lemma poll_idx_from_expired:
  assumes st: "dq_store q F (x # E) {}" and tm: "dq_time clock q F"
  shows "\<exists>q'. poll_idx ready q = Some (Ready (Some x), q') \<and> poll_idx_post clock ready q (Ready (Some x)) q'"
proof -
  obtain ex st' where pop: "Stack_pop (q_expired q) (q_slab q) = Some (Some x, ex, st')"
      and lk: "linked ex st' E" and fr: "unlinked st' x"
      and out: "\<forall>y. y \<notin> set (x # E) \<longrightarrow> st' y = q_slab q y" and py: "\<And>y. payload st' y = payload (q_slab q) y"
    using Stack_pop_linked [OF dq_storeD(3) [OF st]] by blast
  let ?q = "q\<lparr>q_expired := ex, q_slab := st'\<rparr>"
  have x: "x \<notin> set E" using linked_distinct [OF dq_storeD(3) [OF st]] by simp
  have "dq_store ?q F E {x}"
    using st lk out
  proof (rule dq_store_expired)
    show "\<exists>v. payload st' y = Some (v, elapsed (q_wheel q), True)" if "y \<in> set E" for y
      using dq_storeD(7) [OF st, of y] that py by (cases "payload (q_slab q) y") (auto simp: entry_ok_def)
  qed (use dq_storeD(5) [OF st] x fr py in \<open>auto simp: payload_Stack_when\<close>)
  moreover have "contents ?q = contents q"
    by (auto simp: contents_def py)
  moreover have "dq_time clock ?q F"
    using tm by (simp add: dq_time_def payload_Stack_when py split: option.splits)
  moreover obtain v t where c: "contents q x = Some (v, t)"
    using contents_keys [OF st, of x] by auto
  then have t: "t = elapsed (q_wheel q)"
    using contents_items [OF st c] dq_storeD(5) [OF st] by auto
  have "t \<le> u" if "contents q k = Some (v', u)" for k v' u
    using contents_items [OF st that] t by auto
  then have "takes_earliest clock q x"
    using c tm t by (auto simp: takes_earliest_def dq_time_def)
  ultimately show ?thesis
    using pop by (auto simp: poll_idx_def poll_idx_post_def)
qed

lemma poll_idx_from_wheel:
  assumes st: "dq_store q F [] {}" and tm: "dq_time clock q F" and rdy: "\<And>d. ready d \<Longrightarrow> d \<le> clock"
  shows "\<exists>r q'. poll_idx ready q = Some (r, q') \<and> poll_idx_post clock ready q r q'"
proof -
  have "Stack_pop (q_expired q) (q_slab q) = Some (None, q_expired q, q_slab q)"
    using dq_storeD(3) [OF st] by (simp add: Stack_pop_def)
  then have eq: "poll_idx ready q = poll_idx_loop ready q"
    by (simp add: poll_idx_def)
  obtain r q' where r: "poll_idx_loop ready q = Some (r, q')" and post: "loop_post clock ready q F r q'"
    using loop_correct [OF st tm rdy] by blast
  have it: "k \<in> items F \<and> Stack_when k (q_slab q) = Some u" if "contents q k = Some (v, u)" for k v u
    using contents_items [OF st that] by simp
  have emp: "contents q = Map.empty" if "items F = {}"
  proof (rule ext)
    show "contents q k = None" for k
      using contents_keys [OF st, of k] that by (cases "contents q k") auto
  qed
  consider "r = Pending" | "r = Ready None" | x where "r = Ready (Some x)"
    by (metis option.exhaust poll.exhaust)
  then have "poll_idx_post clock ready q r q'"
  proof cases
    case 1
    then show ?thesis using post it unfolding loop_post_def poll_idx_post_def by auto blast
  next
    case 2
    then show ?thesis using post emp unfolding loop_post_def poll_idx_post_def by auto
  next
    case 3
    then show ?thesis
      using post it items_contents [OF st, of x]
      unfolding loop_post_def poll_idx_post_def takes_earliest_def by auto blast
  qed
  then show ?thesis using eq r by auto
qed

lemma poll_idx_correct:
  assumes inv: "dq_inv clock q" and rdy: "\<And>d. ready d \<Longrightarrow> d \<le> clock"
  shows "\<exists>r q'. poll_idx ready q = Some (r, q') \<and> poll_idx_post clock ready q r q'"
proof -
  obtain F E where st: "dq_store q F E {}" and tm: "dq_time clock q F"
    using inv by (auto simp: dq_inv_def)
  show ?thesis
  proof (cases E)
    case Nil
    then show ?thesis using poll_idx_from_wheel [OF _ tm rdy] st by simp
  next
    case (Cons x E')
    then show ?thesis using poll_idx_from_expired [OF _ tm] st by blast
  qed
qed

lemma poll_expired_correct:
  assumes inv: "dq_inv clock q" and rdy: "\<And>d. ready d \<Longrightarrow> d \<le> clock"
  shows "\<exists>r q'. poll_expired ready q = Some (r, q') \<and> dq_inv clock q' \<and> q_start q' = q_start q \<and>
    (case r of
       Pending \<Rightarrow> contents q' = contents q \<and> (\<exists>d. q_delay q' = Some d \<and> \<not> ready d \<and>
         (q_delay q = Some d \<or> (\<forall>k v u. contents q k = Some (v, u) \<longrightarrow> d \<le> q_start q + from_millis u)))
     | Ready None \<Rightarrow> contents q = Map.empty \<and> contents q' = Map.empty
     | Ready (Some e) \<Rightarrow> takes_earliest clock q (e_key e) \<and>
         contents q (e_key e) = Some (e_data e, ms (e_deadline e - q_start q) Down) \<and>
         e_deadline e = q_start q + from_millis (ms (e_deadline e - q_start q) Down) \<and>
         contents q' = (contents q)(e_key e := None))"
proof -
  obtain r q1 where r: "poll_idx ready q = Some (r, q1)" and post: "poll_idx_post clock ready q r q1"
    using poll_idx_correct [OF inv rdy] by blast
  consider "r = Pending" | "r = Ready None" | x where "r = Ready (Some x)"
    by (metis option.exhaust poll.exhaust)
  then show ?thesis
  proof cases
    case 1
    then show ?thesis
      using r post by (auto simp: poll_expired_def poll_idx_post_def dq_inv_def)
  next
    case 2
    then show ?thesis
      using r post by (auto simp: poll_expired_def poll_idx_post_def dq_inv_def)
  next
    case 3
    obtain F E where st: "dq_store q1 F E {x}" and tm: "dq_time clock q1 F" and te: "takes_earliest clock q x"
        and c1: "contents q1 = contents q" and s1: "q_start q1 = q_start q"
      using post 3 by (auto simp: poll_idx_post_def)
    obtain d q2 where sr: "slab_remove q1 x = Some (d, q2)" and py: "payload (q_slab q1) x = Some (d_inner d, d_when d, d_expired d)"
        and st2: "dq_store q2 F E {}" and c2: "contents q2 = (contents q1)(x := None)" and sc: "same_clock q1 q2"
        and w2: "\<And>y. y \<noteq> x \<Longrightarrow> Stack_when y (q_slab q2) = Stack_when y (q_slab q1)"
      using slab_remove_store [OF st, of x] by auto
    have "x \<notin> items F" using dq_storeD(6) [OF st] by auto
    then have w: "Stack_when y (q_slab q2) = Stack_when y (q_slab q1)" if "y \<in> items F" for y
      using that w2 by metis
    have "poll_valid (\<lambda>y. Stack_when y (q_slab q2)) (elapsed (q_wheel q1)) F (q_poll q1)"
      if "poll_valid (\<lambda>y. Stack_when y (q_slab q1)) (elapsed (q_wheel q1)) F (q_poll q1)"
      using that subset_refl w by (rule poll_valid_cong)
    then have "dq_time clock q2 F"
      using tm sc by (auto simp: dq_time_def same_clock_def split: option.splits)
    then have "dq_inv clock q2" using st2 by (auto simp: dq_inv_def)
    moreover have "poll_expired ready q = Some (Ready (Some
        \<lparr>e_data = d_inner d, e_deadline = q_start q + from_millis (d_when d), e_key = x\<rparr>), q2)"
      using r 3 sr sc s1 by (simp add: poll_expired_def same_clock_def)
    moreover have "contents q x = Some (d_inner d, d_when d)"
      using py c1 [symmetric] by (simp add: contents_def)
    ultimately show ?thesis
      using te c1 c2 sc s1 by (auto simp: ms_from_millis same_clock_def)
  qed
qed

section \<open>Creation and clearing\<close>

lemma empty_store:
  fixes q :: "'a DelayQueue"
  assumes "q_slab q = Map.empty" and "q_len q = 0" and "q_expired q = Stack_default"
    and "q_wheel q = Wheel_new (delay_queue_stack :: (Stack, nat, 'a slab) stack_ops)"
  shows "dq_store q (\<lambda>_. []) [] {}"
proof -
  have "wheel_rep linked (q_wheel q) (q_slab q) (\<lambda>_. [])"
    using assms by (auto simp: wheel_rep_def wheel_shape_def Wheel_new_def Level_new_def NUM_LEVELS_def
        LEVEL_MULT_def Stack_default_def)
  moreover have "wheel_inv 0 (\<lambda>x. Stack_when x (q_slab q)) (elapsed (q_wheel q)) (\<lambda>_. [])"
    by (simp add: wheel_inv_def)
  ultimately show ?thesis
    using assms by (simp add: dq_store_def items_def entry_ok_def payload_def Stack_default_def)
qed

lemma new_inv: "now \<le> clock \<Longrightarrow> dq_inv clock (DelayQueue_new now)"
proof -
  assume "now \<le> clock"
  then have "dq_time clock (DelayQueue_new now) (\<lambda>_. [])"
    by (simp add: dq_time_def DelayQueue_new_def Wheel_new_def from_millis_def Poll_new_def poll_valid_def)
  moreover have "dq_store (DelayQueue_new now) (\<lambda>_. []) [] {}"
    by (rule empty_store) (simp_all add: DelayQueue_new_def)
  ultimately show ?thesis unfolding dq_inv_def by blast
qed

lemma new_sel [simp]:
  "q_slab (DelayQueue_new now) = Map.empty" "q_len (DelayQueue_new now) = 0" "q_start (DelayQueue_new now) = now"
  "q_delay (DelayQueue_new now) = None" "elapsed (q_wheel (DelayQueue_new now)) = 0"
  by (simp_all add: DelayQueue_new_def Wheel_new_def)

lemma new_contents [simp]: "contents (DelayQueue_new now) = Map.empty"
  by (auto simp: contents_def DelayQueue_new_def payload_def)

lemma insert_at_inv:
  assumes "dq_inv clock q" and "q_slab q (vacant (q_slab q)) = None" and "q_len q < MAX_ENTRIES"
    and "blk 6 (normalize_deadline q at) = blk 6 (elapsed (q_wheel q))"
  shows "\<exists>q'. insert_at vacant q v at = Some (vacant (q_slab q), q') \<and> dq_inv clock q' \<and>
    contents q' = (contents q)(vacant (q_slab q) \<mapsto> (v, normalize_deadline q at)) \<and>
    q_start q' = q_start q \<and> elapsed (q_wheel q') = elapsed (q_wheel q)"
  using assms insert_at_correct [of q _ _ clock vacant at v] unfolding dq_inv_def by blast

text \<open>The queue waits for a delay that is not later than any of its entries.\<close>

definition delay_covers :: "'a DelayQueue \<Rightarrow> bool" where
  "delay_covers q \<longleftrightarrow> (\<forall>d k v u. q_delay q = Some d \<longrightarrow> contents q k = Some (v, u) \<longrightarrow> d \<le> q_start q + from_millis u)"

lemma sample_store:
  "\<exists>(q :: nat DelayQueue) F. dq_store q F [] {} \<and> dq_time clock q F \<and> contents q = [0 \<mapsto> (7, 5)] \<and> q_start q = 0 \<and>
    elapsed (q_wheel q) = 0 \<and> q_delay q = Some 5000000"
proof -
  have t: "normalize_deadline (DelayQueue_new 0 :: nat DelayQueue) 5000000 = 5"
    by (simp add: normalize_deadline_def ms_def)
  have "dq_store (DelayQueue_new 0 :: nat DelayQueue) (\<lambda>_. []) [] {}"
    by (rule empty_store) (simp_all add: DelayQueue_new_def)
  moreover have "dq_time clock (DelayQueue_new 0 :: nat DelayQueue) (\<lambda>_. [])"
    by (simp add: dq_time_def DelayQueue_new_def Wheel_new_def from_millis_def Poll_new_def poll_valid_def)
  ultimately show ?thesis
    using insert_at_correct [of "DelayQueue_new 0 :: nat DelayQueue" "\<lambda>_. []" "[]" clock "\<lambda>_. 0" 5000000 7, unfolded t]
    by (auto simp: MAX_ENTRIES_def blk_def from_millis_def)
qed

lemma sample_queue:
  "\<exists>q :: nat DelayQueue. dq_inv 5000000 q \<and> contents q = [0 \<mapsto> (7, 5)] \<and> q_start q = 0 \<and> elapsed (q_wheel q) = 0"
  using sample_store [of 5000000] unfolding dq_inv_def by blast

lemma Wheel_remove_current: "Stack_when key st = Some (elapsed w) \<Longrightarrow> Wheel_remove delay_queue_stack w key st = None"
  using level_for_None [of "elapsed w" "elapsed w"] by (simp add: Wheel_remove_def)

lemma insert_idx_beyond:
  assumes sh: "wheel_shape (q_wheel q)" and t: "blk 6 t \<noteq> blk 6 (elapsed (q_wheel q))"
    and le: "elapsed (q_wheel q) \<le> t"
  shows "insert_idx q t key = None"
proof -
  obtain l where l: "level_for (elapsed (q_wheel q)) t = Some l"
    using t level_for_None [of "elapsed (q_wheel q)" t] by (cases "level_for (elapsed (q_wheel q)) t") auto
  then have "\<not> l < 6"
    using t blk_eq_up [of "Suc l" "elapsed (q_wheel q)" t 6] by (auto simp: level_for_Some)
  moreover have "length (levels (q_wheel q)) = 6"
    using sh by (simp add: wheel_shape_def)
  moreover have "elapsed (q_wheel q) < t"
    using le t by (auto simp: order_less_le)
  ultimately show ?thesis
    using l by (auto simp: insert_idx_def Wheel_insert_def index_def split: if_splits)
qed

section \<open>Properties\<close>

text \<open>
  C2: polling a delay queue always returns, without a panic, and keeps the queue's invariant.  It
  returns an entry only when its deadline has passed, and then one with the earliest deadline of
  all entries, which it removes together with its value; it reports the end of the stream only on
  an empty queue; and when it is pending the queue holds what it held.
\<close>

theorem poll_takes_earliest:
  assumes "dq_inv clock q" and "\<And>d. ready d \<Longrightarrow> d \<le> clock"
  shows "\<exists>r q'. poll_expired ready q = Some (r, q') \<and> dq_inv clock q' \<and>
    (case r of
       Pending \<Rightarrow> contents q' = contents q
     | Ready None \<Rightarrow> contents q = Map.empty \<and> contents q' = Map.empty
     | Ready (Some e) \<Rightarrow> (\<exists>t. contents q (e_key e) = Some (e_data e, t) \<and>
         e_deadline e = q_start q + from_millis t \<and> e_deadline e \<le> clock \<and>
         (\<forall>k v u. contents q k = Some (v, u) \<longrightarrow> t \<le> u)) \<and>
         contents q' = (contents q)(e_key e := None))"
proof -
  obtain r q' where r: "poll_expired ready q = Some (r, q')" "dq_inv clock q'" "q_start q' = q_start q"
      and cs: "case r of
       Pending \<Rightarrow> contents q' = contents q \<and> (\<exists>d. q_delay q' = Some d \<and> \<not> ready d \<and>
         (q_delay q = Some d \<or> (\<forall>k v u. contents q k = Some (v, u) \<longrightarrow> d \<le> q_start q + from_millis u)))
     | Ready None \<Rightarrow> contents q = Map.empty \<and> contents q' = Map.empty
     | Ready (Some e) \<Rightarrow> takes_earliest clock q (e_key e) \<and>
         contents q (e_key e) = Some (e_data e, ms (e_deadline e - q_start q) Down) \<and>
         e_deadline e = q_start q + from_millis (ms (e_deadline e - q_start q) Down) \<and>
         contents q' = (contents q)(e_key e := None)"
    using poll_expired_correct [OF assms] by blast
  consider "r = Pending" | "r = Ready None" | e where "r = Ready (Some e)"
    by (metis option.exhaust poll.exhaust)
  then show ?thesis
    using r cs by cases (auto simp: takes_earliest_def)
qed

theorem poll_takes_earliest_witness:
  "\<exists>q :: nat DelayQueue. contents q = [0 \<mapsto> (7, 5)] \<and>
    (\<exists>r q'. poll_expired (\<lambda>d. d \<le> 5000000) q = Some (r, q') \<and> dq_inv 5000000 q')"
proof -
  obtain q :: "nat DelayQueue" where q: "dq_inv 5000000 q" "contents q = [0 \<mapsto> (7, 5)]"
    using sample_queue by blast
  then show ?thesis
    using poll_takes_earliest [OF q(1), of "\<lambda>d. d \<le> 5000000"] by blast
qed



text \<open>
  C6: removing a key that is in the queue returns its value and deadline, takes out this entry only
  and keeps the invariant, provided the entry is one that was inserted already due or its deadline
  is not the wheel's current time.
\<close>

theorem remove_takes_out:
  assumes "dq_inv clock q" and "contents q key = Some (v, t)"
    and "is_expired q key \<or> t \<noteq> elapsed (q_wheel q)"
  shows "\<exists>q'. DelayQueue_remove q key =
      Some (\<lparr>e_data = v, e_deadline = q_start q + from_millis t, e_key = key\<rparr>, q') \<and>
    dq_inv clock q' \<and> contents q' = (contents q)(key := None)"
proof -
  obtain F E where st: "dq_store q F E {}" and tm: "dq_time clock q F"
    using assms(1) by (auto simp: dq_inv_def)
  then show ?thesis
    using DelayQueue_remove_correct [OF st tm assms(2)] assms(3) is_expired_iff [OF st, of key]
    unfolding dq_inv_def by blast
qed

theorem remove_takes_out_witness:
  "\<exists>q q' :: nat DelayQueue. dq_inv 5000000 q \<and> contents q = [0 \<mapsto> (7, 5)] \<and>
    DelayQueue_remove q 0 = Some (\<lparr>e_data = 7, e_deadline = 5000000, e_key = 0\<rparr>, q') \<and> contents q' = Map.empty"
proof -
  obtain q :: "nat DelayQueue" where q: "dq_inv 5000000 q" "contents q = [0 \<mapsto> (7, 5)]" "q_start q = 0"
      "elapsed (q_wheel q) = 0"
    using sample_queue by blast
  then show ?thesis
    using remove_takes_out [OF q(1), of 0 7 5] by (auto simp: from_millis_def)
qed

text \<open>
  C7: a poll is pending only when no entry is due, provided the delay the queue waits for is not
  later than any entry; and then the delay it goes on waiting for is not later than any entry.
\<close>

theorem pending_none_due:
  assumes inv: "dq_inv clock q" and cov: "delay_covers q"
    and pend: "poll_expired (\<lambda>d. d \<le> clock) q = Some (Pending, q')"
  shows "delay_covers q' \<and> (\<forall>k v u. contents q k = Some (v, u) \<longrightarrow> clock < q_start q + from_millis u)"
proof -
  have "\<exists>d. q_delay q' = Some d \<and> \<not> d \<le> clock \<and>
      (\<forall>k v u. contents q k = Some (v, u) \<longrightarrow> d \<le> q_start q + from_millis u)"
    and "contents q' = contents q" and "q_start q' = q_start q"
    using poll_expired_correct [OF inv, of "\<lambda>d. d \<le> clock"] pend cov by (auto simp: delay_covers_def)
  then show ?thesis
    by (fastforce simp: delay_covers_def)
qed

theorem pending_none_due_witness:
  "\<exists>q :: nat DelayQueue. poll_expired (\<lambda>d. d \<le> 0) q = Some (Pending, q) \<and> delay_covers q \<and>
    contents q = [0 \<mapsto> (7, 5)] \<and> (\<forall>k v u. contents q k = Some (v, u) \<longrightarrow> 0 < q_start q + from_millis u)"
proof -
  obtain q :: "nat DelayQueue" and F where q: "dq_store q F [] {}" "dq_time 0 q F" "contents q = [0 \<mapsto> (7, 5)]"
      "q_start q = 0" "q_delay q = Some 5000000"
    using sample_store by blast
  have p: "poll_expired (\<lambda>d. d \<le> 0) q = Some (Pending, q)"
    using q(5) dq_storeD(3) [OF q(1)]
    by (simp add: poll_expired_def poll_idx_def Stack_pop_def poll_idx_loop.simps [of _ q])
  moreover have cov: "delay_covers q"
    using q by (simp add: delay_covers_def from_millis_def)
  moreover have inv: "dq_inv 0 q" using q unfolding dq_inv_def by blast
  ultimately show ?thesis
    using pending_none_due [OF inv cov p] q(3) by blast
qed

text \<open>
  C13: with a free slot in the slab, inserting panics exactly when the entry's deadline and the
  wheel's time lie in different blocks of \<open>2 ^ 36\<close> milliseconds, however close they are.
\<close>

theorem insert_at_panics_iff:
  assumes inv: "dq_inv clock q" and vac: "q_slab q (vacant (q_slab q)) = None" and len: "q_len q < MAX_ENTRIES"
  shows "insert_at vacant q v at = None \<longleftrightarrow>
    unat (normalize_deadline q at) div 2 ^ 36 \<noteq> unat (elapsed (q_wheel q)) div 2 ^ 36"
proof (cases "blk 6 (normalize_deadline q at) = blk 6 (elapsed (q_wheel q))")
  case True
  then show ?thesis
    using insert_at_inv [of clock q vacant at v] assms by (auto simp: blk_def)
next
  case False
  obtain F E where st: "dq_store q F E {}"
    using inv by (auto simp: dq_inv_def)
  have "elapsed (q_wheel q) \<le> normalize_deadline q at"
    by (simp add: normalize_deadline_def Let_def)
  then have "insert_at vacant q v at = None"
    using False dq_storeD(1) [OF st] by (simp add: insert_at_def Let_def insert_idx_beyond wheel_rep_def)
  then show ?thesis
    using False by (simp add: blk_def)
qed

text \<open>
  C14: resetting an entry that was inserted when already due, which the documentation allows, panics
  in every state.
\<close>

theorem reset_expired_panics:
  assumes "dq_inv clock q" and "is_expired q key"
  shows "reset_at q key at = None"
proof -
  obtain F E where st: "dq_store q F E {}"
    using assms(1) by (auto simp: dq_inv_def)
  obtain v t where c: "contents q key = Some (v, t)"
    using assms(2) by (auto simp: is_expired_def contents_def payload_def)
  have "t = elapsed (q_wheel q)"
    using contents_items [OF st c] dq_storeD(5) [OF st] is_expired_iff [OF st] assms(2) by auto
  then show ?thesis
    using Wheel_remove_current [of key "q_slab q" "q_wheel q"] contents_when [OF c] by (simp add: reset_at_def)
qed



theorem insert_at_panics_iff_witness:
  "insert_at (\<lambda>_. 0) (DelayQueue_new 0) (7 :: nat) 68719476736000000 = None"
  using insert_at_panics_iff [of 0 "DelayQueue_new 0 :: nat DelayQueue" "\<lambda>_. 0" 7 68719476736000000] new_inv [of 0 0]
  by (simp add: MAX_ENTRIES_def normalize_deadline_def ms_def)

theorem reset_expired_panics_witness:
  "\<exists>q :: nat DelayQueue. insert_at (\<lambda>_. 0) (DelayQueue_new 0) 7 0 = Some (0, q) \<and> reset_at q 0 5000000 = None"
proof -
  have n: "normalize_deadline (DelayQueue_new 0 :: nat DelayQueue) 0 = 0"
    by (simp add: normalize_deadline_def ms_def)
  obtain q :: "nat DelayQueue" where q: "insert_at (\<lambda>_. 0) (DelayQueue_new 0) 7 0 = Some (0, q)" "dq_inv 0 q"
    using insert_at_inv [of 0 "DelayQueue_new 0 :: nat DelayQueue" "\<lambda>_. 0" 0 7] new_inv [of 0 0] n
    by (auto simp: MAX_ENTRIES_def)
  have "is_expired q 0"
    using q(1) n
    by (auto simp: insert_at_def insert_idx_def Wheel_insert_def slab_update_def Stack_push_def Let_def is_expired_def
        MAX_ENTRIES_def DelayQueue_new_def Wheel_new_def Stack_default_def)
  then show ?thesis
    using reset_expired_panics [OF q(2)] q(1) by blast
qed

end
