(* ===== verification/Delay_Queue_Runs.thy ===== *)
theory Delay_Queue_Runs
  imports Delay_Queue_Poll "HOL-Library.Code_Target_Nat"
begin




end
