(* ===== verification/Byte_Buffer.thy ===== *)
theory Byte_Buffer
  imports Prelude
begin

unbundle bit_operations_syntax

text \<open>
  Byte order.  The sources write and read integers through the \<^verbatim>\<open>Buf\<close> and \<^verbatim>\<open>BufMut\<close> traits of the
  bytes crate, which is not part of the repository: these primitives are the record \<open>buf_ops\<close>,
  an argument of the operations that use them, and the locale \<open>byte_buffer\<close> states what the crate
  documents of them, the byte order and the width.  The interpretation on \<open>std_buf\<close> shows that the
  laws can be met.  The \<^verbatim>\<open>from_be_bytes\<close> of the standard library and the macro
  \<^verbatim>\<open>unpack_octets_4!\<close> (src/http/h2/frame/mod.rs) are defined here too, with the round trips.
\<close>

section \<open>Big-endian and little-endian strings\<close>

primrec be_bytes :: "nat \<Rightarrow> nat \<Rightarrow> bytes" where
  "be_bytes 0 v = []"
| "be_bytes (Suc n) v = of_nat (v div 256 ^ n) # be_bytes n v"

definition le_bytes :: "nat \<Rightarrow> nat \<Rightarrow> bytes" where
  "le_bytes n v = rev (be_bytes n v)"

definition be_val :: "bytes \<Rightarrow> nat" where
  "be_val bs = foldl (\<lambda>a b. a * 256 + unat b) 0 bs"

lemma length_be_bytes [simp]: "length (be_bytes n v) = n"
  by (induction n) simp_all

lemma length_le_bytes [simp]: "length (le_bytes n v) = n"
  by (simp add: le_bytes_def)

lemma foldl_be: "foldl (\<lambda>a b. a * 256 + unat (b :: u8)) a bs = a * 256 ^ length bs + be_val bs"
proof (induction bs arbitrary: a rule: rev_induct)
  case (snoc b bs)
  have "be_val (bs @ [b]) = be_val bs * 256 + unat b"
    by (simp add: be_val_def)
  then show ?case
    using snoc by (simp add: add_mult_distrib mult.assoc power_Suc2 del: power_Suc)
qed (simp add: be_val_def)

lemma be_val_Nil [simp]: "be_val [] = 0"
  by (simp add: be_val_def)

lemma be_val_Cons [simp]: "be_val (b # bs) = unat b * 256 ^ length bs + be_val bs"
  using foldl_be [of "unat b" bs] by (simp add: be_val_def)

lemma be_val_bytes: "be_val (be_bytes n v) = v mod 256 ^ n"
proof (induction n)
  case (Suc n)
  have "unat (of_nat (v div 256 ^ n) :: u8) = v div 256 ^ n mod 256"
    by (simp add: unat_of_nat)
  then show ?case
    using Suc mod_mult2_eq [of v "256 ^ n" 256] by (simp add: mult.commute)
qed simp

lemma be_val_bound: "be_val bs < 256 ^ length bs"
proof (induction bs)
  case (Cons b bs)
  have "Suc (unat b) * 256 ^ length bs \<le> 256 * 256 ^ length bs"
    using u8_bound [of b] by (intro mult_le_mono1) simp
  then show ?case
    using Cons by (simp only: be_val_Cons length_Cons power_Suc mult_Suc)
qed simp

lemma be_bytes_shift: "be_bytes n (a * 256 ^ n + v) = be_bytes n v"
proof (induction n arbitrary: a)
  case (Suc n)
  have z: "(256 :: u8) = 0" by simp
  have "(a * 256 ^ Suc n + v) div 256 ^ n = a * 256 + v div 256 ^ n"
    by (simp add: div_mult_self3 mult.assoc [symmetric])
  then have "(of_nat ((a * 256 ^ Suc n + v) div 256 ^ n) :: u8) = of_nat (v div 256 ^ n)"
    by (simp only: of_nat_add of_nat_mult of_nat_numeral z mult_zero_right add_0_left)
  then show ?case
    using Suc [of "a * 256"] by (simp only: be_bytes.simps power_Suc mult.assoc)
qed simp

lemma be_bytes_val: "be_bytes (length bs) (be_val bs) = bs"
proof (induction bs)
  case (Cons b bs)
  then show ?case
    using be_val_bound [of bs] be_bytes_shift [of "length bs" "unat b" "be_val bs"] by simp
qed simp

section \<open>Integers of the standard library\<close>

definition u32_from_be_bytes :: "bytes \<Rightarrow> u32" where
  "u32_from_be_bytes bs = of_nat (be_val bs)"

definition unpack_octets_4 :: "bytes \<Rightarrow> nat \<Rightarrow> u32 option" where
  "unpack_octets_4 buf offset = do {
     b0 \<leftarrow> index buf (offset + 0);
     b1 \<leftarrow> index buf (offset + 1);
     b2 \<leftarrow> index buf (offset + 2);
     b3 \<leftarrow> index buf (offset + 3);
     Some (push_bit 24 (ucast b0) OR push_bit 16 (ucast b1) OR push_bit 8 (ucast b2) OR push_bit 0 (ucast b3))
   }"

lemma or_bytes_val:
  "push_bit 24 (ucast b0) OR (push_bit 16 (ucast b1) OR (push_bit 8 (ucast b2) OR ucast b3)) =
   u32_from_be_bytes [b0, b1, b2, b3 :: u8]"
proof -
  have d1: "push_bit 8 (ucast b2) AND (ucast b3 :: u32) = 0"
    by (rule bit_word_eqI) (auto simp: bit_simps dest: bit_imp_le_length)
  have d2: "push_bit 16 (ucast b1) AND (push_bit 8 (ucast b2) OR (ucast b3 :: u32)) = 0"
    by (rule bit_word_eqI) (auto simp: bit_simps dest: bit_imp_le_length)
  have d3: "push_bit 24 (ucast b0) AND (push_bit 16 (ucast b1) OR (push_bit 8 (ucast b2) OR (ucast b3 :: u32))) = 0"
    by (rule bit_word_eqI) (auto simp: bit_simps dest: bit_imp_le_length)
  have "push_bit 24 (ucast b0) OR (push_bit 16 (ucast b1) OR (push_bit 8 (ucast b2) OR (ucast b3 :: u32))) =
      push_bit 24 (ucast b0) + (push_bit 16 (ucast b1) + (push_bit 8 (ucast b2) + ucast b3))"
    using disjunctive_add_eq_or [OF d1] disjunctive_add_eq_or [OF d2] disjunctive_add_eq_or [OF d3] by simp
  then show ?thesis
    by (simp add: u32_from_be_bytes_def push_bit_eq_mult)
qed

lemma u32_from_be_bytes_be: "u32_from_be_bytes (be_bytes 4 (unat x)) = x"
  using u32_bound [of x] by (simp add: u32_from_be_bytes_def be_val_bytes)

lemma be_bytes_4: "be_bytes 4 v = [of_nat (v div 256 ^ 3), of_nat (v div 256 ^ 2), of_nat (v div 256 ^ 1), of_nat (v div 256 ^ 0)]"
proof -
  have "(4 :: nat) = Suc (Suc (Suc (Suc 0)))" by simp
  then show ?thesis
    by (simp only: be_bytes.simps One_nat_def numeral_2_eq_2 numeral_3_eq_3)
qed

lemma be_bytes_2: "be_bytes 2 v = [of_nat (v div 256 ^ 1), of_nat (v div 256 ^ 0)]"
  by (simp only: be_bytes.simps One_nat_def numeral_2_eq_2)

lemma unpack_octets_4_list [byte_simps]: "unpack_octets_4 (b0 # b1 # b2 # b3 # bs) 0 = Some (u32_from_be_bytes [b0, b1, b2, b3])"
  using or_bytes_val [of b0 b1 b2 b3]
  by (simp add: unpack_octets_4_def index_def or.assoc)

lemma unpack_octets_4_app:
  assumes "length bs = n"
  shows "unpack_octets_4 (bs @ cs) n = unpack_octets_4 cs 0"
  using assms by (auto simp: unpack_octets_4_def index_def nth_append numeral_2_eq_2)

lemma unpack_octets_4_be [byte_simps]: "unpack_octets_4 (be_bytes 4 (unat x) @ bs) 0 = Some x"
  using u32_from_be_bytes_be [of x] unfolding be_bytes_4 by (simp only: append_Cons append_Nil unpack_octets_4_list)

lemma unpack_octets_4_Some: "unpack_octets_4 bs n \<noteq> None \<longleftrightarrow> n + 4 \<le> length bs"
  by (auto simp: unpack_octets_4_def index_def split: if_splits)

section \<open>The primitives of the bytes crate\<close>

record buf_ops =
  put_u16 :: "u16 \<Rightarrow> bytes"
  put_u32 :: "u32 \<Rightarrow> bytes"
  put_u32_le :: "u32 \<Rightarrow> bytes"
  put_u64 :: "u64 \<Rightarrow> bytes"
  put_uint :: "u64 \<Rightarrow> nat \<Rightarrow> bytes"
  put_uint_le :: "u64 \<Rightarrow> nat \<Rightarrow> bytes"
  get_uint :: "bytes \<Rightarrow> u64"
  get_uint_le :: "bytes \<Rightarrow> u64"

text \<open>
  \<^verbatim>\<open>put_uint(n, nbytes)\<close> writes the low-order \<open>nbytes\<close> bytes, and panics for more than 8;
  \<^verbatim>\<open>get_uint(nbytes)\<close> reads that many bytes, here those of its argument.
\<close>

locale byte_buffer =
  fixes B :: buf_ops
  assumes put_u16_law: "put_u16 B x = be_bytes 2 (unat x)"
    and put_u32_law: "put_u32 B y = be_bytes 4 (unat y)"
    and put_u32_le_law: "put_u32_le B y = le_bytes 4 (unat y)"
    and put_u64_law: "put_u64 B z = be_bytes 8 (unat z)"
    and put_uint_law: "n \<le> 8 \<Longrightarrow> put_uint B z n = be_bytes n (unat z)"
    and put_uint_le_law: "n \<le> 8 \<Longrightarrow> put_uint_le B z n = le_bytes n (unat z)"
    and get_uint_law: "length bs \<le> 8 \<Longrightarrow> get_uint B bs = of_nat (be_val bs)"
    and get_uint_le_law: "length bs \<le> 8 \<Longrightarrow> get_uint_le B bs = of_nat (be_val (rev bs))"
begin

lemma get_put_uint:
  assumes "n \<le> 8" and "unat z < 256 ^ n"
  shows "get_uint B (put_uint B z n) = z"
  using assms by (simp add: put_uint_law get_uint_law be_val_bytes)

lemma get_put_uint_le:
  assumes "n \<le> 8" and "unat z < 256 ^ n"
  shows "get_uint_le B (put_uint_le B z n) = z"
  using assms by (simp add: put_uint_le_law get_uint_le_law le_bytes_def be_val_bytes)

lemma length_put [byte_simps]:
  "length (put_u16 B x) = 2" "length (put_u32 B y) = 4" "length (put_u64 B z) = 8"
  by (simp_all add: put_u16_law put_u32_law put_u64_law)

lemma unpack_put_u32 [byte_simps]: "unpack_octets_4 (put_u32 B y @ bs) 0 = Some y"
  by (simp add: put_u32_law unpack_octets_4_be)

end

definition std_buf :: buf_ops where
  "std_buf =
     \<lparr>put_u16 = (\<lambda>x. be_bytes 2 (unat x)), put_u32 = (\<lambda>x. be_bytes 4 (unat x)),
      put_u32_le = (\<lambda>x. le_bytes 4 (unat x)),
      put_u64 = (\<lambda>x. be_bytes 8 (unat x)), put_uint = (\<lambda>x n. be_bytes n (unat x)),
      put_uint_le = (\<lambda>x n. le_bytes n (unat x)), get_uint = (\<lambda>bs. of_nat (be_val bs)),
      get_uint_le = (\<lambda>bs. of_nat (be_val (rev bs)))\<rparr>"

interpretation std: byte_buffer std_buf
  by unfold_locales (simp_all add: std_buf_def)

end
