(* ===== verification/H2_Base.thy ===== *)
theory H2_Base
  imports Byte_Buffer
begin

unbundle bit_operations_syntax

text \<open>
  The identifiers and error types the HTTP/2 components share: stream identifiers
  (src/http/h2/frame/stream\_id.rs), reasons (src/http/h2/frame/reason.rs), the errors of frame
  parsing (src/http/h2/frame/mod.rs), of header decompression (src/http/h2/hpack/decoder.rs), of the
  codec (src/http/h2/codec/error.rs) and of the protocol (src/http/h2/proto/error.rs), and the role
  of an endpoint (src/http/h2/proto/peer.rs).  An \<^verbatim>\<open>io::Error\<close> is its kind, the part the sources copy.
\<close>

section \<open>Stream identifiers\<close>

type_synonym StreamId = u32

datatype StreamIdOverflow = StreamIdOverflow

definition STREAM_ID_MASK :: u32 where
  "STREAM_ID_MASK = push_bit 31 1"

definition StreamId_ZERO :: StreamId where
  "StreamId_ZERO = 0"

definition StreamId_MAX :: StreamId where
  "StreamId_MAX = drop_bit 1 (- 1)"

definition StreamId_parse :: "bytes \<Rightarrow> (StreamId \<times> bool) option" where
  "StreamId_parse buf =
     (if length buf < 4 then None
      else
        let unpacked = u32_from_be_bytes (take 4 buf);
            flag = (unpacked AND STREAM_ID_MASK = STREAM_ID_MASK)
        in Some (unpacked AND NOT STREAM_ID_MASK, flag))"

definition is_client_initiated :: "StreamId \<Rightarrow> bool" where
  "is_client_initiated i \<longleftrightarrow> i \<noteq> 0 \<and> i mod 2 = 1"

definition is_server_initiated :: "StreamId \<Rightarrow> bool" where
  "is_server_initiated i \<longleftrightarrow> i \<noteq> 0 \<and> i mod 2 = 0"

definition StreamId_is_zero :: "StreamId \<Rightarrow> bool" where
  "StreamId_is_zero i \<longleftrightarrow> i = 0"

definition next_id :: "StreamId \<Rightarrow> (StreamId, StreamIdOverflow) result" where
  "next_id i = (let next = i + 2 in if next > StreamId_MAX then Err StreamIdOverflow else Ok next)"

definition StreamId_from :: "u32 \<Rightarrow> StreamId option" where
  "StreamId_from src = (if src AND STREAM_ID_MASK = 0 then Some src else None)"

section \<open>Reasons\<close>

type_synonym Reason = u32

definition NO_ERROR :: Reason where "NO_ERROR = 0"
definition PROTOCOL_ERROR :: Reason where "PROTOCOL_ERROR = 1"
definition INTERNAL_ERROR :: Reason where "INTERNAL_ERROR = 2"
definition FLOW_CONTROL_ERROR :: Reason where "FLOW_CONTROL_ERROR = 3"
definition SETTINGS_TIMEOUT :: Reason where "SETTINGS_TIMEOUT = 4"
definition STREAM_CLOSED :: Reason where "STREAM_CLOSED = 5"
definition FRAME_SIZE_ERROR :: Reason where "FRAME_SIZE_ERROR = 6"
definition REFUSED_STREAM :: Reason where "REFUSED_STREAM = 7"
definition CANCEL :: Reason where "CANCEL = 8"
definition COMPRESSION_ERROR :: Reason where "COMPRESSION_ERROR = 9"
definition CONNECT_ERROR :: Reason where "CONNECT_ERROR = 10"
definition ENHANCE_YOUR_CALM :: Reason where "ENHANCE_YOUR_CALM = 11"
definition INADEQUATE_SECURITY :: Reason where "INADEQUATE_SECURITY = 12"
definition HTTP_1_1_REQUIRED :: Reason where "HTTP_1_1_REQUIRED = 13"

lemmas reason_defs =
  NO_ERROR_def PROTOCOL_ERROR_def INTERNAL_ERROR_def FLOW_CONTROL_ERROR_def SETTINGS_TIMEOUT_def
  STREAM_CLOSED_def FRAME_SIZE_ERROR_def REFUSED_STREAM_def CANCEL_def COMPRESSION_ERROR_def
  CONNECT_ERROR_def ENHANCE_YOUR_CALM_def INADEQUATE_SECURITY_def HTTP_1_1_REQUIRED_def

definition Reason_description :: "Reason \<Rightarrow> string" where
  "Reason_description r =
     (if r = 0 then ''not a result of an error''
      else if r = 1 then ''unspecific protocol error detected''
      else if r = 2 then ''unexpected internal error encountered''
      else if r = 3 then ''flow-control protocol violated''
      else if r = 4 then ''settings ACK not received in timely manner''
      else if r = 5 then ''received frame when stream half-closed''
      else if r = 6 then ''frame with invalid size''
      else if r = 7 then ''refused stream before processing any application logic''
      else if r = 8 then ''stream no longer needed''
      else if r = 9 then ''unable to maintain the header compression context''
      else if r = 10 then ''connection established in response to a CONNECT request was reset or abnormally closed''
      else if r = 11 then ''detected excessive load generating behavior''
      else if r = 12 then ''security properties do not meet minimum requirements''
      else if r = 13 then ''endpoint requires HTTP/1.1''
      else ''unknown reason'')"

section \<open>Errors\<close>

datatype NeedMore = UnexpectedEndOfStream | IntegerUnderflow | StringUnderflow

datatype DecoderError =
    InvalidRepresentation
  | InvalidIntegerPrefix
  | InvalidTableIndex
  | InvalidHuffmanCode
  | InvalidUtf8
  | InvalidStatusCode
  | InvalidPseudoheader
  | InvalidMaxDynamicSize
  | IntegerOverflow
  | NeedMore NeedMore

datatype FrameError =
    BadFrameSize
  | TooMuchPadding
  | InvalidSettingValue
  | InvalidWindowUpdateValue
  | InvalidPayloadLength
  | InvalidPayloadAckSettings
  | InvalidStreamId
  | MalformedMessage
  | InvalidDependencyId
  | Hpack DecoderError

datatype ErrorKind = BrokenPipe | OtherIo nat

datatype RecvError =
    RecvConnection Reason
  | RecvStream StreamId Reason
  | RecvIo ErrorKind

datatype UserError =
    InactiveStreamId
  | UnexpectedFrameType
  | PayloadTooBig
  | HeaderTooBig
  | Rejected
  | ReleaseCapacityTooBig
  | OverflowedStreamId
  | MalformedHeaders
  | MissingUriSchemeAndAuthority
  | PollResetAfterSendResponse
  | SendPingWhilePending
  | SendSettingsWhilePending

datatype SendError =
    SendUser UserError
  | SendConnection Reason
  | SendIo ErrorKind

datatype ProtoError = Proto Reason | ProtoIo ErrorKind

primrec recv_error_of :: "ProtoError \<Rightarrow> RecvError" where
  "recv_error_of (Proto reason) = RecvConnection reason"
| "recv_error_of (ProtoIo e) = RecvIo e"

primrec send_error_of :: "ProtoError \<Rightarrow> SendError" where
  "send_error_of (Proto reason) = SendConnection reason"
| "send_error_of (ProtoIo e) = SendIo e"

section \<open>Lemmas on stream identifiers\<close>

lemma bit_STREAM_ID_MASK: "bit STREAM_ID_MASK n \<longleftrightarrow> n = 31"
  unfolding STREAM_ID_MASK_def bit_push_bit_iff by (auto simp: bit_1_iff)

lemma stream_id_mask_and: "(x :: u32) AND NOT STREAM_ID_MASK = take_bit 31 x"
proof (rule bit_word_eqI)
  fix n :: nat
  assume "n < LENGTH(32)"
  then have "n \<noteq> 31 \<longleftrightarrow> n < 31" by auto
  then show "bit (x AND NOT STREAM_ID_MASK) n = bit (take_bit 31 x) n"
    using \<open>n < LENGTH(32)\<close> by (auto simp: bit_and_iff bit_not_iff bit_take_bit_iff bit_STREAM_ID_MASK)
qed

lemma stream_id_flag: "(x :: u32) AND STREAM_ID_MASK = STREAM_ID_MASK \<longleftrightarrow> bit x 31"
proof
  assume "x AND STREAM_ID_MASK = STREAM_ID_MASK"
  then have "bit (x AND STREAM_ID_MASK) 31"
    by (simp add: bit_STREAM_ID_MASK)
  then show "bit x 31" by (simp add: bit_and_iff)
next
  assume "bit x 31"
  then show "x AND STREAM_ID_MASK = STREAM_ID_MASK"
    by (intro bit_word_eqI) (auto simp: bit_and_iff bit_STREAM_ID_MASK)
qed

lemma StreamId_parse_list [byte_simps]:
  "StreamId_parse (b0 # b1 # b2 # b3 # bs) =
     Some (take_bit 31 (u32_from_be_bytes [b0, b1, b2, b3]), bit (u32_from_be_bytes [b0, b1, b2, b3]) 31)"
  by (simp add: StreamId_parse_def Let_def stream_id_mask_and stream_id_flag)

lemma StreamId_parse_be:
  "StreamId_parse (be_bytes 4 (unat x) @ bs) = Some (take_bit 31 x, bit x 31)"
  by (simp add: StreamId_parse_def Let_def stream_id_mask_and stream_id_flag u32_from_be_bytes_be)

text \<open>An identifier with a clear most significant bit, the only ones the sources construct.\<close>

definition valid_stream_id :: "StreamId \<Rightarrow> bool" where
  "valid_stream_id i \<longleftrightarrow> \<not> bit i 31"

lemma valid_stream_id_take_bit [simp]: "valid_stream_id i \<Longrightarrow> take_bit 31 i = i"
proof (rule bit_word_eqI)
  fix n :: nat
  assume i: "valid_stream_id i" and "n < LENGTH(32)"
  then have "n \<noteq> 31 \<longleftrightarrow> n < 31" by auto
  then show "bit (take_bit 31 i) n = bit i n"
    using i by (auto simp: valid_stream_id_def bit_take_bit_iff)
qed

lemma StreamId_parse_valid: "StreamId_parse buf = Some (i, f) \<Longrightarrow> valid_stream_id i"
  by (auto simp: StreamId_parse_def Let_def stream_id_mask_and valid_stream_id_def bit_simps split: if_splits)

end
