(* ===== verification/H2_Frame.thy ===== *)
theory H2_Frame
  imports H2_Base
begin

unbundle bit_operations_syntax

text \<open>
  HTTP/2 frames without header blocks (src/http/h2/frame/): the frame head, and DATA, PRIORITY,
  RST\_STREAM, SETTINGS, PING, GOAWAY and WINDOW\_UPDATE.  A \<open>load\<close> takes the parsed head and the
  payload; an \<open>encode\<close> yields the bytes it appends to the destination buffer, with the byte-order
  primitives \<open>B\<close> of Byte\_Buffer.

  The lemmas show that what is encoded parses back, and what the parsers accept.
\<close>

section \<open>The frame head\<close>

datatype Kind =
    KData | KHeaders | KPriority | KReset | KSettings | KPushPromise | KPing | KGoAway
  | KWindowUpdate | KContinuation | KUnknown

record Head =
  h_kind :: Kind
  h_flag :: u8
  h_stream_id :: StreamId

definition HEADER_LEN :: nat where
  "HEADER_LEN = 9"

primrec Kind_u8 :: "Kind \<Rightarrow> u8" where
  "Kind_u8 KData = 0"
| "Kind_u8 KHeaders = 1"
| "Kind_u8 KPriority = 2"
| "Kind_u8 KReset = 3"
| "Kind_u8 KSettings = 4"
| "Kind_u8 KPushPromise = 5"
| "Kind_u8 KPing = 6"
| "Kind_u8 KGoAway = 7"
| "Kind_u8 KWindowUpdate = 8"
| "Kind_u8 KContinuation = 9"
| "Kind_u8 KUnknown = 10"

definition Kind_new :: "u8 \<Rightarrow> Kind" where
  "Kind_new byte =
     (if byte = 0 then KData else if byte = 1 then KHeaders else if byte = 2 then KPriority
      else if byte = 3 then KReset else if byte = 4 then KSettings else if byte = 5 then KPushPromise
      else if byte = 6 then KPing else if byte = 7 then KGoAway else if byte = 8 then KWindowUpdate
      else if byte = 9 then KContinuation else KUnknown)"

definition Head_new :: "Kind \<Rightarrow> u8 \<Rightarrow> StreamId \<Rightarrow> Head" where
  "Head_new kind flag stream_id = \<lparr>h_kind = kind, h_flag = flag, h_stream_id = stream_id\<rparr>"

definition Head_parse :: "bytes \<Rightarrow> Head option" where
  "Head_parse header = do {
     rest \<leftarrow> (if 5 \<le> length header then Some (drop 5 header) else None);
     (stream_id, _) \<leftarrow> StreamId_parse rest;
     k \<leftarrow> index header 3;
     f \<leftarrow> index header 4;
     Some \<lparr>h_kind = Kind_new k, h_flag = f, h_stream_id = stream_id\<rparr>
   }"

definition Head_encode :: "buf_ops \<Rightarrow> Head \<Rightarrow> nat \<Rightarrow> bytes" where
  "Head_encode B h payload_len =
     put_uint B (of_nat payload_len) 3 @ [Kind_u8 (h_kind h)] @ [h_flag h] @ put_u32 B (h_stream_id h)"

section \<open>Padding\<close>

text \<open>The padding length and the payload without padding.\<close>

definition strip_padding :: "bytes \<Rightarrow> (u8 \<times> bytes, FrameError) result" where
  "strip_padding payload =
     (let payload_len = length payload in
      if payload_len = 0 then Err TooMuchPadding
      else
        let pad_len = unat (payload ! 0) in
        if pad_len \<ge> payload_len then Err TooMuchPadding
        else Ok (of_nat pad_len, take (payload_len - pad_len - 1) (drop 1 payload)))"

section \<open>WINDOW\_UPDATE\<close>

record WindowUpdate =
  wu_stream_id :: StreamId
  wu_size_increment :: u32

definition SIZE_INCREMENT_MASK :: u32 where
  "SIZE_INCREMENT_MASK = push_bit 31 1"

definition WindowUpdate_load :: "Head \<Rightarrow> bytes \<Rightarrow> (WindowUpdate, FrameError) result option" where
  "WindowUpdate_load head payload =
     (if length payload \<noteq> 4 then Some (Err BadFrameSize)
      else do {
        v \<leftarrow> unpack_octets_4 payload 0;
        let size_increment = v AND NOT SIZE_INCREMENT_MASK;
        Some (if size_increment = 0 then Err InvalidWindowUpdateValue
              else Ok \<lparr>wu_stream_id = h_stream_id head, wu_size_increment = size_increment\<rparr>)
      })"

definition WindowUpdate_encode :: "buf_ops \<Rightarrow> WindowUpdate \<Rightarrow> bytes" where
  "WindowUpdate_encode B w =
     (let head = Head_new KWindowUpdate 0 (wu_stream_id w)
      in Head_encode B head 4 @ put_u32 B (wu_size_increment w))"

section \<open>RST\_STREAM\<close>

record Reset =
  rs_stream_id :: StreamId
  rs_error_code :: Reason

definition Reset_load :: "Head \<Rightarrow> bytes \<Rightarrow> (Reset, FrameError) result option" where
  "Reset_load head payload =
     (if length payload \<noteq> 4 then Some (Err InvalidPayloadLength)
      else do {
        error_code \<leftarrow> unpack_octets_4 payload 0;
        Some (Ok \<lparr>rs_stream_id = h_stream_id head, rs_error_code = error_code\<rparr>)
      })"

definition Reset_encode :: "buf_ops \<Rightarrow> Reset \<Rightarrow> bytes" where
  "Reset_encode B r =
     (let head = Head_new KReset 0 (rs_stream_id r)
      in Head_encode B head 4 @ put_u32 B (rs_error_code r))"

section \<open>PRIORITY\<close>

record StreamDependency =
  dependency_id :: StreamId
  weight :: u8
  is_exclusive :: bool

record Priority =
  pr_stream_id :: StreamId
  pr_dependency :: StreamDependency

definition StreamDependency_load :: "bytes \<Rightarrow> (StreamDependency, FrameError) result option" where
  "StreamDependency_load src =
     (if length src \<noteq> 5 then Some (Err InvalidPayloadLength)
      else do {
        (did, excl) \<leftarrow> StreamId_parse (take 4 src);
        w \<leftarrow> index src 4;
        Some (Ok \<lparr>dependency_id = did, weight = w, is_exclusive = excl\<rparr>)
      })"

definition Priority_load :: "Head \<Rightarrow> bytes \<Rightarrow> (Priority, FrameError) result option" where
  "Priority_load head payload = do {
     r \<leftarrow> StreamDependency_load payload;
     Some (bind_ok r (\<lambda>dependency.
       if dependency_id dependency = h_stream_id head then Err InvalidDependencyId
       else Ok \<lparr>pr_stream_id = h_stream_id head, pr_dependency = dependency\<rparr>))
   }"

section \<open>PING\<close>

record Ping =
  pi_ack :: bool
  pi_payload :: bytes

definition ACK_FLAG :: u8 where
  "ACK_FLAG = 1"

definition Ping_SHUTDOWN :: bytes where
  "Ping_SHUTDOWN = [0x0b, 0x7b, 0xa2, 0xf0, 0x8b, 0x9b, 0xfe, 0x54]"

definition Ping_USER :: bytes where
  "Ping_USER = [0x3b, 0x7c, 0xdb, 0x7a, 0x0b, 0x87, 0x16, 0xb4]"

definition Ping_new :: "bytes \<Rightarrow> Ping" where
  "Ping_new payload = \<lparr>pi_ack = False, pi_payload = payload\<rparr>"

definition Ping_pong :: "bytes \<Rightarrow> Ping" where
  "Ping_pong payload = \<lparr>pi_ack = True, pi_payload = payload\<rparr>"

definition Ping_load :: "Head \<Rightarrow> bytes \<Rightarrow> (Ping, FrameError) result" where
  "Ping_load head bs =
     (if \<not> StreamId_is_zero (h_stream_id head) then Err InvalidStreamId
      else if length bs \<noteq> 8 then Err BadFrameSize
      else Ok \<lparr>pi_ack = (h_flag head AND ACK_FLAG \<noteq> 0), pi_payload = bs\<rparr>)"

definition Ping_encode :: "buf_ops \<Rightarrow> Ping \<Rightarrow> bytes" where
  "Ping_encode B p =
     (let sz = length (pi_payload p);
          flags = (if pi_ack p then ACK_FLAG else 0);
          head = Head_new KPing flags StreamId_ZERO
      in Head_encode B head sz @ pi_payload p)"

section \<open>GOAWAY\<close>

record GoAway =
  ga_last_stream_id :: StreamId
  ga_error_code :: Reason
  ga_debug_data :: bytes

definition GoAway_new :: "StreamId \<Rightarrow> Reason \<Rightarrow> GoAway" where
  "GoAway_new last_stream_id reason =
     \<lparr>ga_last_stream_id = last_stream_id, ga_error_code = reason, ga_debug_data = []\<rparr>"

definition GoAway_load :: "bytes \<Rightarrow> (GoAway, FrameError) result option" where
  "GoAway_load payload =
     (if length payload < 8 then Some (Err BadFrameSize)
      else do {
        (last_stream_id, _) \<leftarrow> StreamId_parse (take 4 payload);
        error_code \<leftarrow> unpack_octets_4 payload 4;
        Some (Ok \<lparr>ga_last_stream_id = last_stream_id, ga_error_code = error_code,
                  ga_debug_data = drop 8 payload\<rparr>)
      })"

definition GoAway_encode :: "buf_ops \<Rightarrow> GoAway \<Rightarrow> bytes" where
  "GoAway_encode B g =
     (let head = Head_new KGoAway 0 StreamId_ZERO
      in Head_encode B head 8 @ put_u32 B (ga_last_stream_id g) @ put_u32 B (ga_error_code g))"

section \<open>DATA\<close>

record DataFrame =
  dt_stream_id :: StreamId
  dt_data :: bytes
  dt_flags :: u8
  dt_pad_len :: "u8 option"

definition END_STREAM :: u8 where "END_STREAM = 1"
definition PADDED :: u8 where "PADDED = 8"

definition DataFlags_load :: "u8 \<Rightarrow> u8" where
  "DataFlags_load bits = bits AND (END_STREAM OR PADDED)"

definition DataFlags_is_end_stream :: "u8 \<Rightarrow> bool" where
  "DataFlags_is_end_stream f \<longleftrightarrow> f AND END_STREAM = END_STREAM"

definition DataFlags_is_padded :: "u8 \<Rightarrow> bool" where
  "DataFlags_is_padded f \<longleftrightarrow> f AND PADDED = PADDED"

definition Data_new :: "StreamId \<Rightarrow> bytes \<Rightarrow> DataFrame option" where
  "Data_new stream_id payload =
     (if StreamId_is_zero stream_id then None
      else Some \<lparr>dt_stream_id = stream_id, dt_data = payload, dt_flags = 0, dt_pad_len = None\<rparr>)"

definition Data_set_end_stream :: "DataFrame \<Rightarrow> bool \<Rightarrow> DataFrame" where
  "Data_set_end_stream d val =
     (if val then d\<lparr>dt_flags := dt_flags d OR END_STREAM\<rparr>
      else d\<lparr>dt_flags := dt_flags d AND NOT END_STREAM\<rparr>)"

definition Data_set_padded :: "DataFrame \<Rightarrow> DataFrame" where
  "Data_set_padded d = d\<lparr>dt_flags := dt_flags d OR PADDED\<rparr>"

definition Data_head :: "DataFrame \<Rightarrow> Head" where
  "Data_head d = Head_new KData (dt_flags d) (dt_stream_id d)"

definition Data_load :: "Head \<Rightarrow> bytes \<Rightarrow> (DataFrame, FrameError) result" where
  "Data_load head payload =
     (let flags = DataFlags_load (h_flag head) in
      if StreamId_is_zero (h_stream_id head) then Err InvalidStreamId
      else if DataFlags_is_padded flags then
        bind_ok (strip_padding payload) (\<lambda>(len, payload').
          Ok \<lparr>dt_stream_id = h_stream_id head, dt_data = payload', dt_flags = flags, dt_pad_len = Some len\<rparr>)
      else Ok \<lparr>dt_stream_id = h_stream_id head, dt_data = payload, dt_flags = flags, dt_pad_len = None\<rparr>)"

text \<open>The chunk written; the frame's buffer is drained.  \<open>remaining_mut\<close> is the room of the destination.\<close>

definition Data_encode_chunk :: "buf_ops \<Rightarrow> nat \<Rightarrow> DataFrame \<Rightarrow> (bytes \<times> DataFrame) option" where
  "Data_encode_chunk B remaining_mut d =
     (let len = length (dt_data d) in
      if \<not> remaining_mut \<ge> len then None
      else Some (Head_encode B (Data_head d) len @ dt_data d, d\<lparr>dt_data := []\<rparr>))"

section \<open>SETTINGS\<close>

record Settings =
  se_flags :: u8
  header_table_size :: "u32 option"
  enable_push :: "u32 option"
  max_concurrent_streams :: "u32 option"
  initial_window_size :: "u32 option"
  max_frame_size :: "u32 option"
  max_header_list_size :: "u32 option"

datatype Setting =
    HeaderTableSize u32
  | EnablePush u32
  | MaxConcurrentStreams u32
  | InitialWindowSize u32
  | MaxFrameSize u32
  | MaxHeaderListSize u32

definition SETTINGS_ACK :: u8 where "SETTINGS_ACK = 1"

definition DEFAULT_SETTINGS_HEADER_TABLE_SIZE :: nat where "DEFAULT_SETTINGS_HEADER_TABLE_SIZE = 4096"
definition DEFAULT_INITIAL_WINDOW_SIZE :: u32 where "DEFAULT_INITIAL_WINDOW_SIZE = 65535"
definition DEFAULT_MAX_FRAME_SIZE :: u32 where "DEFAULT_MAX_FRAME_SIZE = 16384"
definition MAX_INITIAL_WINDOW_SIZE :: nat where "MAX_INITIAL_WINDOW_SIZE = 2 ^ 31 - 1"
definition MAX_MAX_FRAME_SIZE :: u32 where "MAX_MAX_FRAME_SIZE = push_bit 24 1 - 1"

definition Settings_default :: Settings where
  "Settings_default =
     \<lparr>se_flags = 0, header_table_size = None, enable_push = None, max_concurrent_streams = None,
      initial_window_size = None, max_frame_size = None, max_header_list_size = None\<rparr>"

definition SettingsFlags_load :: "u8 \<Rightarrow> u8" where
  "SettingsFlags_load bits = bits AND SETTINGS_ACK"

definition SettingsFlags_is_ack :: "u8 \<Rightarrow> bool" where
  "SettingsFlags_is_ack f \<longleftrightarrow> f AND SETTINGS_ACK = SETTINGS_ACK"

definition Settings_ack :: Settings where
  "Settings_ack = Settings_default\<lparr>se_flags := SETTINGS_ACK\<rparr>"

definition Settings_is_ack :: "Settings \<Rightarrow> bool" where
  "Settings_is_ack s = SettingsFlags_is_ack (se_flags s)"

definition set_max_frame_size :: "Settings \<Rightarrow> u32 option \<Rightarrow> Settings option" where
  "set_max_frame_size s sz =
     (if (case sz of Some val \<Rightarrow> DEFAULT_MAX_FRAME_SIZE \<le> val \<and> val \<le> MAX_MAX_FRAME_SIZE | None \<Rightarrow> True)
      then Some (s\<lparr>max_frame_size := sz\<rparr>) else None)"

definition is_push_enabled :: "Settings \<Rightarrow> bool" where
  "is_push_enabled s \<longleftrightarrow> (case enable_push s of Some v \<Rightarrow> v | None \<Rightarrow> 1) \<noteq> 0"

definition set_enable_push :: "Settings \<Rightarrow> bool \<Rightarrow> Settings" where
  "set_enable_push s enable = s\<lparr>enable_push := Some (if enable then 1 else 0)\<rparr>"

definition Setting_from_id :: "u16 \<Rightarrow> u32 \<Rightarrow> Setting option" where
  "Setting_from_id i val =
     (if i = 1 then Some (HeaderTableSize val)
      else if i = 2 then Some (EnablePush val)
      else if i = 3 then Some (MaxConcurrentStreams val)
      else if i = 4 then Some (InitialWindowSize val)
      else if i = 5 then Some (MaxFrameSize val)
      else if i = 6 then Some (MaxHeaderListSize val)
      else None)"

definition Setting_load :: "bytes \<Rightarrow> Setting option option" where
  "Setting_load raw = do {
     r0 \<leftarrow> index raw 0;
     r1 \<leftarrow> index raw 1;
     let i = (push_bit 8 (ucast r0) OR ucast r1 :: u16);
     val \<leftarrow> unpack_octets_4 raw 2;
     Some (Setting_from_id i val)
   }"

primrec Setting_kind_val :: "Setting \<Rightarrow> u16 \<times> u32" where
  "Setting_kind_val (HeaderTableSize v) = (1, v)"
| "Setting_kind_val (EnablePush v) = (2, v)"
| "Setting_kind_val (MaxConcurrentStreams v) = (3, v)"
| "Setting_kind_val (InitialWindowSize v) = (4, v)"
| "Setting_kind_val (MaxFrameSize v) = (5, v)"
| "Setting_kind_val (MaxHeaderListSize v) = (6, v)"

definition Setting_encode :: "buf_ops \<Rightarrow> Setting \<Rightarrow> bytes" where
  "Setting_encode B s = (let (kind, val) = Setting_kind_val s in put_u16 B kind @ put_u32 B val)"

text \<open>The body of the loop of \<^verbatim>\<open>Settings::load\<close>.\<close>

fun Settings_apply :: "Settings \<Rightarrow> Setting option \<Rightarrow> (Settings, FrameError) result" where
  "Settings_apply s (Some (HeaderTableSize val)) = Ok (s\<lparr>header_table_size := Some val\<rparr>)"
| "Settings_apply s (Some (EnablePush val)) =
     (if val = 0 \<or> val = 1 then Ok (s\<lparr>enable_push := Some val\<rparr>) else Err InvalidSettingValue)"
| "Settings_apply s (Some (MaxConcurrentStreams val)) = Ok (s\<lparr>max_concurrent_streams := Some val\<rparr>)"
| "Settings_apply s (Some (InitialWindowSize val)) =
     (if unat val > MAX_INITIAL_WINDOW_SIZE then Err InvalidSettingValue
      else Ok (s\<lparr>initial_window_size := Some val\<rparr>))"
| "Settings_apply s (Some (MaxFrameSize val)) =
     (if val < DEFAULT_MAX_FRAME_SIZE \<or> val > MAX_MAX_FRAME_SIZE then Err InvalidSettingValue
      else Ok (s\<lparr>max_frame_size := Some val\<rparr>))"
| "Settings_apply s (Some (MaxHeaderListSize val)) = Ok (s\<lparr>max_header_list_size := Some val\<rparr>)"
| "Settings_apply s None = Ok s"

fun Settings_load_loop :: "Settings \<Rightarrow> bytes \<Rightarrow> (Settings, FrameError) result option" where
  "Settings_load_loop settings payload =
     (if payload = [] then Some (Ok settings)
      else do {
        setting \<leftarrow> Setting_load (take 6 payload);
        (case Settings_apply settings setting of
           Err e \<Rightarrow> Some (Err e)
         | Ok settings' \<Rightarrow> Settings_load_loop settings' (drop 6 payload))
      })"

declare Settings_load_loop.simps [simp del]

definition Settings_load :: "Head \<Rightarrow> bytes \<Rightarrow> (Settings, FrameError) result option" where
  "Settings_load head payload =
     (if \<not> StreamId_is_zero (h_stream_id head) then Some (Err InvalidStreamId)
      else if SettingsFlags_is_ack (SettingsFlags_load (h_flag head)) then
        Some (if payload \<noteq> [] then Err InvalidPayloadLength else Ok Settings_ack)
      else if length payload mod 6 \<noteq> 0 then Some (Err InvalidPayloadAckSettings)
      else Settings_load_loop Settings_default payload)"

text \<open>The settings that \<^verbatim>\<open>for_each\<close> visits, in its order.\<close>

definition Settings_for_each :: "Settings \<Rightarrow> Setting list" where
  "Settings_for_each s =
     map HeaderTableSize (case header_table_size s of Some v \<Rightarrow> [v] | None \<Rightarrow> []) @
     map EnablePush (case enable_push s of Some v \<Rightarrow> [v] | None \<Rightarrow> []) @
     map MaxConcurrentStreams (case max_concurrent_streams s of Some v \<Rightarrow> [v] | None \<Rightarrow> []) @
     map InitialWindowSize (case initial_window_size s of Some v \<Rightarrow> [v] | None \<Rightarrow> []) @
     map MaxFrameSize (case max_frame_size s of Some v \<Rightarrow> [v] | None \<Rightarrow> []) @
     map MaxHeaderListSize (case max_header_list_size s of Some v \<Rightarrow> [v] | None \<Rightarrow> [])"

definition Settings_payload_len :: "Settings \<Rightarrow> nat" where
  "Settings_payload_len s = 6 * length (Settings_for_each s)"

definition Settings_encode :: "buf_ops \<Rightarrow> Settings \<Rightarrow> bytes" where
  "Settings_encode B s =
     (let head = Head_new KSettings (se_flags s) StreamId_ZERO
      in Head_encode B head (Settings_payload_len s) @ concat (map (Setting_encode B) (Settings_for_each s)))"

section \<open>Heads\<close>

lemma Kind_new_u8 [simp]: "Kind_new (Kind_u8 k) = k"
  by (cases k) (simp_all add: Kind_new_def)

lemma Head_new_sel [simp]:
  "h_kind (Head_new k f i) = k" "h_flag (Head_new k f i) = f" "h_stream_id (Head_new k f i) = i"
  by (simp_all add: Head_new_def)

lemma be_bytes_3: "be_bytes 3 v = [of_nat (v div 256 ^ 2), of_nat (v div 256 ^ 1), of_nat (v div 256 ^ 0)]"
  by (simp only: be_bytes.simps One_nat_def numeral_2_eq_2 numeral_3_eq_3)

context byte_buffer
begin

lemma Head_encode_bytes:
  "Head_encode B h n = be_bytes 3 n @ [Kind_u8 (h_kind h), h_flag h] @ be_bytes 4 (unat (h_stream_id h))"
proof -
  have "be_bytes 3 (unat (of_nat n :: u64)) = be_bytes 3 n"
  proof -
    have "n = n div 2 ^ 64 * 2 ^ 40 * 256 ^ 3 + n mod 2 ^ 64"
      by (simp add: mult.assoc)
    then have "be_bytes 3 n = be_bytes 3 (n mod 2 ^ 64)"
      using be_bytes_shift [of 3 "n div 2 ^ 64 * 2 ^ 40" "n mod 2 ^ 64"] by simp
    then show ?thesis by (simp add: unat_of_nat)
  qed
  then show ?thesis
    by (simp add: Head_encode_def put_uint_law put_u32_law)
qed

lemma length_Head_encode [byte_simps]: "length (Head_encode B h n) = HEADER_LEN"
  by (simp add: Head_encode_bytes HEADER_LEN_def)

lemma Head_parse_encode:
  assumes "valid_stream_id (h_stream_id h)"
  shows "Head_parse (Head_encode B h n @ bs) = Some h"
proof -
  have "drop 5 (Head_encode B h n @ bs) = be_bytes 4 (unat (h_stream_id h)) @ bs"
    by (simp add: Head_encode_bytes be_bytes_3)
  moreover have "index (Head_encode B h n @ bs) 3 = Some (Kind_u8 (h_kind h))"
    "index (Head_encode B h n @ bs) 4 = Some (h_flag h)"
    using index_at [of "be_bytes 3 n" 3] index_at [of "be_bytes 3 n @ [Kind_u8 (h_kind h)]" 4]
    by (simp_all add: Head_encode_bytes)
  moreover have "5 \<le> length (Head_encode B h n @ bs)"
    by (simp add: length_Head_encode HEADER_LEN_def)
  ultimately show ?thesis
    using assms by (simp add: Head_parse_def StreamId_parse_be)
qed

text \<open>The length written is read back from the first three bytes.\<close>

lemma Head_encode_len: "n < 2 ^ 24 \<Longrightarrow> be_val (take 3 (Head_encode B h n)) = n"
  by (simp add: Head_encode_bytes be_val_bytes)

end

section \<open>Frames that parse back\<close>

text \<open>
  \<open>well_framed bs h p\<close>: the bytes of one frame, whose head parses to \<open>h\<close> and whose length field is
  the length of the payload \<open>p\<close> that follows.
\<close>

definition well_framed :: "bytes \<Rightarrow> Head \<Rightarrow> bytes \<Rightarrow> bool" where
  "well_framed bs h p \<longleftrightarrow> Head_parse bs = Some h \<and> drop HEADER_LEN bs = p \<and> be_val (take 3 bs) = length p"

lemma size_increment_mask: "(x :: u32) AND NOT SIZE_INCREMENT_MASK = take_bit 31 x"
  using stream_id_mask_and [of x] by (simp only: SIZE_INCREMENT_MASK_def STREAM_ID_MASK_def)

lemma ack_flag_iff: "(f :: u8) AND ACK_FLAG \<noteq> 0 \<longleftrightarrow> bit f 0"
  by (simp add: ACK_FLAG_def and_one_eq bit_0 odd_iff_mod_2_eq_one)

context byte_buffer
begin

lemma well_framed_encode:
  assumes "valid_stream_id (h_stream_id h)" and "length p < 2 ^ 24"
  shows "well_framed (Head_encode B h (length p) @ p) h p"
  using assms Head_parse_encode [of h "length p" p] Head_encode_len [of "length p" h]
  by (simp add: well_framed_def length_Head_encode HEADER_LEN_def)

lemma window_update_parses:
  assumes "valid_stream_id (wu_stream_id w)" and "valid_stream_id (wu_size_increment w)" and "wu_size_increment w \<noteq> 0"
  shows "\<exists>h p. well_framed (WindowUpdate_encode B w) h p \<and> h_kind h = KWindowUpdate \<and>
    WindowUpdate_load h p = Some (Ok w)"
proof -
  let ?h = "Head_new KWindowUpdate 0 (wu_stream_id w)" and ?p = "put_u32 B (wu_size_increment w)"
  have "WindowUpdate_encode B w = Head_encode B ?h (length ?p) @ ?p"
    by (simp add: WindowUpdate_encode_def Let_def length_put)
  moreover have "WindowUpdate_load ?h ?p = Some (Ok w)"
    using assms unpack_put_u32 [of "wu_size_increment w" "[]"]
    by (simp add: WindowUpdate_load_def length_put size_increment_mask)
  ultimately show ?thesis
    using well_framed_encode [of ?h ?p] assms(1) by (intro exI [of _ ?h] exI [of _ ?p]) (simp add: length_put)
qed

lemma reset_parses:
  assumes "valid_stream_id (rs_stream_id r)"
  shows "\<exists>h p. well_framed (Reset_encode B r) h p \<and> h_kind h = KReset \<and> Reset_load h p = Some (Ok r)"
proof -
  let ?h = "Head_new KReset 0 (rs_stream_id r)" and ?p = "put_u32 B (rs_error_code r)"
  have "Reset_encode B r = Head_encode B ?h (length ?p) @ ?p"
    by (simp add: Reset_encode_def Let_def length_put)
  moreover have "Reset_load ?h ?p = Some (Ok r)"
    using unpack_put_u32 [of "rs_error_code r" "[]"] by (simp add: Reset_load_def length_put)
  ultimately show ?thesis
    using well_framed_encode [of ?h ?p] assms by (intro exI [of _ ?h] exI [of _ ?p]) (simp add: length_put)
qed

lemma ping_parses:
  assumes "length (pi_payload p) = 8"
  shows "\<exists>h q. well_framed (Ping_encode B p) h q \<and> h_kind h = KPing \<and> Ping_load h q = Ok p"
proof -
  let ?h = "Head_new KPing (if pi_ack p then ACK_FLAG else 0) StreamId_ZERO"
  have "Ping_encode B p = Head_encode B ?h (length (pi_payload p)) @ pi_payload p"
    by (simp add: Ping_encode_def Let_def)
  moreover have "Ping_load ?h (pi_payload p) = Ok p"
    using assms by (simp add: Ping_load_def StreamId_is_zero_def StreamId_ZERO_def ACK_FLAG_def)
  ultimately show ?thesis
    using well_framed_encode [of ?h "pi_payload p"] assms
    by (intro exI [of _ ?h] exI [of _ "pi_payload p"]) (simp add: StreamId_ZERO_def valid_stream_id_def)
qed

lemma go_away_parses:
  assumes "valid_stream_id (ga_last_stream_id g)" and "ga_debug_data g = []"
  shows "\<exists>h p. well_framed (GoAway_encode B g) h p \<and> h_kind h = KGoAway \<and> GoAway_load p = Some (Ok g)"
proof -
  let ?h = "Head_new KGoAway 0 StreamId_ZERO"
    and ?p = "put_u32 B (ga_last_stream_id g) @ put_u32 B (ga_error_code g)"
  have "GoAway_encode B g = Head_encode B ?h (length ?p) @ ?p"
    by (simp add: GoAway_encode_def Let_def length_put)
  moreover have "GoAway_load ?p = Some (Ok g)"
    using assms unpack_octets_4_app [of "put_u32 B (ga_last_stream_id g)" 4 "put_u32 B (ga_error_code g)"]
      unpack_put_u32 [of "ga_error_code g" "[]"] StreamId_parse_be [of "ga_last_stream_id g" "[]"]
    by (simp add: GoAway_load_def length_put put_u32_law)
  ultimately show ?thesis
    using well_framed_encode [of ?h ?p]
    by (intro exI [of _ ?h] exI [of _ ?p]) (simp add: length_put StreamId_ZERO_def valid_stream_id_def)
qed

lemma data_parses:
  assumes "valid_stream_id (dt_stream_id d)" and "dt_stream_id d \<noteq> 0" and "dt_pad_len d = None"
    and "dt_flags d = 0 \<or> dt_flags d = END_STREAM" and "length (dt_data d) < 2 ^ 24" and "length (dt_data d) \<le> room"
  shows "\<exists>bs d' h p. Data_encode_chunk B room d = Some (bs, d') \<and> well_framed bs h p \<and> h_kind h = KData \<and>
    Data_load h p = Ok d"
proof -
  have "Data_load (Data_head d) (dt_data d) = Ok d"
    using assms(2-4)
    by (auto simp: Data_load_def Data_head_def DataFlags_load_def DataFlags_is_padded_def PADDED_def END_STREAM_def
        StreamId_is_zero_def)
  moreover have "Data_encode_chunk B room d = Some (Head_encode B (Data_head d) (length (dt_data d)) @ dt_data d, d\<lparr>dt_data := []\<rparr>)"
    using assms(6) by (simp add: Data_encode_chunk_def Let_def)
  ultimately show ?thesis
    using well_framed_encode [of "Data_head d" "dt_data d"] assms(1,5)
    by (intro exI [of _ "Data_head d"] exI [of _ "dt_data d"] exI conjI) (assumption | simp add: Data_head_def)+
qed

end

end
