(* ===== verification/H2_Frame_Props.thy ===== *)
theory H2_Frame_Props
  imports H2_Frame
begin

unbundle bit_operations_syntax

text \<open>
  What the frame parsers of src/http/h2/frame/ accept: padding, the values of SETTINGS, and that
  every frame the encoders write is read back, for all byte-order primitives \<open>B\<close> that satisfy the laws
  of \<open>byte_buffer\<close>.
\<close>

section \<open>SETTINGS\<close>

text \<open>The values that RFC 7540, 6.5.2 allows.\<close>

definition valid_settings :: "Settings \<Rightarrow> bool" where
  "valid_settings s \<longleftrightarrow>
     (\<forall>v. enable_push s = Some v \<longrightarrow> v = 0 \<or> v = 1) \<and>
     (\<forall>v. initial_window_size s = Some v \<longrightarrow> unat v \<le> 2 ^ 31 - 1) \<and>
     (\<forall>v. max_frame_size s = Some v \<longrightarrow> 16384 \<le> unat v \<and> unat v \<le> 16777215)"

lemma frame_size_bounds:
  "\<not> val < DEFAULT_MAX_FRAME_SIZE \<longleftrightarrow> 16384 \<le> unat val" "\<not> MAX_MAX_FRAME_SIZE < val \<longleftrightarrow> unat val \<le> 16777215"
  by (simp_all add: DEFAULT_MAX_FRAME_SIZE_def MAX_MAX_FRAME_SIZE_def word_le_nat_alt word_less_nat_alt not_less)

lemma Settings_apply_valid:
  assumes "Settings_apply s x = Ok s'" and "valid_settings s"
  shows "valid_settings s'" and "se_flags s' = se_flags s"
  using assms
  by (induction s x rule: Settings_apply.induct)
    (auto simp: valid_settings_def MAX_INITIAL_WINDOW_SIZE_def frame_size_bounds split: if_splits)

lemma Setting_load_total:
  assumes "6 \<le> length bs"
  shows "\<exists>x. Setting_load (take 6 bs) = Some x"
proof -
  obtain v where "unpack_octets_4 (take 6 bs) 2 = Some v"
    using assms unpack_octets_4_Some [of "take 6 bs" 2] by auto
  then show ?thesis
    using assms by (auto simp: Setting_load_def index_def)
qed

lemma Settings_load_loop_total:
  assumes "length bs mod 6 = 0" and "valid_settings s" and "se_flags s = 0"
  shows "\<exists>r. Settings_load_loop s bs = Some r \<and> (\<forall>s'. r = Ok s' \<longrightarrow> valid_settings s' \<and> se_flags s' = 0)"
  using assms
proof (induction s bs rule: Settings_load_loop.induct)
  case (1 s bs)
  show ?case
  proof (cases "bs = []")
    case False
    then have len: "6 \<le> length bs"
      using \<open>length bs mod 6 = 0\<close> by (metis dvd_imp_le length_greater_0_conv mod_0_imp_dvd)
    then obtain x where x: "Setting_load (take 6 bs) = Some x"
      using Setting_load_total by blast
    show ?thesis
    proof (cases "Settings_apply s x")
      case (Ok s')
      then have "valid_settings s'" "se_flags s' = 0" "length (drop 6 bs) mod 6 = 0"
        using Settings_apply_valid [OF Ok] 1(3-4) 1(2) len by (simp_all add: le_mod_geq)
      then show ?thesis
        using 1(1) [OF False x Ok] False x Ok by (subst Settings_load_loop.simps) simp
    qed (use False x in \<open>subst Settings_load_loop.simps, simp\<close>)
  qed (use 1 in \<open>subst Settings_load_loop.simps, simp\<close>)
qed

text \<open>
  C22: parsing a SETTINGS frame never panics, whatever the payload, and the settings it returns have only
  values that the protocol allows; an acknowledgement carries no settings.
\<close>

theorem settings_load_valid:
  "\<exists>r. Settings_load h p = Some r \<and>
     (\<forall>s. r = Ok s \<longrightarrow> valid_settings s \<and> (Settings_is_ack s \<longrightarrow> s = Settings_ack))"
proof -
  have d: "valid_settings Settings_default" "se_flags Settings_default = 0"
    by (simp_all add: valid_settings_def Settings_default_def)
  show ?thesis
  proof (cases "length p mod 6 = 0")
    case True
    from Settings_load_loop_total [OF this d] show ?thesis
      using d by (auto simp: Settings_load_def Settings_ack_def Settings_is_ack_def SettingsFlags_is_ack_def SETTINGS_ACK_def
          valid_settings_def)
  qed (auto simp: Settings_load_def Settings_ack_def Settings_default_def valid_settings_def)
qed

text \<open>A frame with ENABLE\_PUSH = 1 and MAX\_FRAME\_SIZE = 16384.\<close>

theorem settings_load_valid_witness:
  "\<exists>s. Settings_load (Head_new KSettings 0 0) [0, 2, 0, 0, 0, 1, 0, 5, 0, 0, 0x40, 0] = Some (Ok s) \<and> valid_settings s \<and>
     enable_push s = Some 1 \<and> max_frame_size s = Some 16384"
proof -
  have "Settings_load (Head_new KSettings 0 0) [0, 2, 0, 0, 0, 1, 0, 5, 0, 0, 0x40, 0] =
      Some (Ok (Settings_default\<lparr>enable_push := Some 1, max_frame_size := Some 16384\<rparr>))"
    by code_simp
  then show ?thesis
    using settings_load_valid [of "Head_new KSettings 0 0" "[0, 2, 0, 0, 0, 1, 0, 5, 0, 0, 0x40, 0]"]
    by simp
qed

section \<open>SETTINGS read back\<close>

lemma Setting_from_kind_val: "Setting_from_id (fst (Setting_kind_val x)) (snd (Setting_kind_val x)) = Some x"
  by (cases x) (simp_all add: Setting_from_id_def)

lemma Setting_kind_bytes:
  "(push_bit 8 (ucast (of_nat (unat (fst (Setting_kind_val x)) div 256) :: u8)) OR
    ucast (of_nat (unat (fst (Setting_kind_val x))) :: u8) :: u16) = fst (Setting_kind_val x)"
  by (cases x) simp_all

text \<open>The settings of a frame, applied one after the other.\<close>

fun Settings_apply_all :: "Settings \<Rightarrow> Setting list \<Rightarrow> (Settings, FrameError) result" where
  "Settings_apply_all s [] = Ok s"
| "Settings_apply_all s (x # xs) = bind_ok (Settings_apply s (Some x)) (\<lambda>s'. Settings_apply_all s' xs)"

lemma Settings_apply_all_append:
  "Settings_apply_all s (xs @ ys) = bind_ok (Settings_apply_all s xs) (\<lambda>s'. Settings_apply_all s' ys)"
proof (induction xs arbitrary: s)
  case (Cons x xs)
  then show ?case by (cases "Settings_apply s (Some x)") simp_all
qed simp

lemma Settings_apply_for_each:
  assumes "valid_settings s" and "se_flags s = 0"
  shows "Settings_apply_all Settings_default (Settings_for_each s) = Ok s"
  using assms frame_size_bounds
  by (cases "header_table_size s"; cases "enable_push s"; cases "max_concurrent_streams s"; cases "initial_window_size s";
      cases "max_frame_size s"; cases "max_header_list_size s")
    (auto simp: Settings_for_each_def Settings_default_def valid_settings_def MAX_INITIAL_WINDOW_SIZE_def not_less)

context byte_buffer
begin

lemma length_Setting_encode: "length (Setting_encode B x) = 6"
  by (simp add: Setting_encode_def case_prod_unfold Let_def length_put)

lemma Setting_load_encode: "Setting_load (Setting_encode B x) = Some (Some x)"
  using Setting_from_kind_val [of x] Setting_kind_bytes [of x] unpack_put_u32 [of "snd (Setting_kind_val x)" "[]"]
    unpack_octets_4_app [of "put_u16 B (fst (Setting_kind_val x))" 2 "put_u32 B (snd (Setting_kind_val x))"]
  by (simp add: Setting_load_def Setting_encode_def case_prod_unfold Let_def length_put)
    (simp add: put_u16_law be_bytes_2 index_def)

lemma Settings_load_loop_encode:
  "Settings_load_loop s (concat (map (Setting_encode B) xs)) = Some (Settings_apply_all s xs)"
proof (induction xs arbitrary: s)
  case Nil
  then show ?case by (subst Settings_load_loop.simps) simp
next
  case (Cons x xs)
  then show ?case
    using length_Setting_encode [of x] Setting_load_encode [of x]
    by (subst Settings_load_loop.simps) (auto split: result.split)
qed

lemma settings_parses:
  assumes "valid_settings s" and "se_flags s = 0 \<or> s = Settings_ack"
  shows "\<exists>h p. well_framed (Settings_encode B s) h p \<and> h_kind h = KSettings \<and> Settings_load h p = Some (Ok s)"
proof -
  let ?h = "Head_new KSettings (se_flags s) StreamId_ZERO" and ?p = "concat (map (Setting_encode B) (Settings_for_each s))"
  have len: "length ?p = Settings_payload_len s"
    by (simp add: length_concat length_Setting_encode comp_def sum_list_triv Settings_payload_len_def)
  moreover have "length (Settings_for_each s) \<le> 6"
    by (auto simp: Settings_for_each_def split: option.split)
  ultimately have "well_framed (Settings_encode B s) ?h ?p"
    using well_framed_encode [of ?h ?p]
    by (simp add: Settings_encode_def Settings_payload_len_def StreamId_ZERO_def valid_stream_id_def)
  moreover have "Settings_load ?h ?p = Some (Ok s)"
  proof (cases "se_flags s = 0")
    case True
    then show ?thesis
      using len Settings_load_loop_encode [of Settings_default "Settings_for_each s"]
        Settings_apply_for_each [OF assms(1) True]
      by (simp add: Settings_load_def StreamId_is_zero_def StreamId_ZERO_def SettingsFlags_is_ack_def SETTINGS_ACK_def
          SettingsFlags_load_def Settings_payload_len_def)
  next
    case False
    then have "s = Settings_ack" using assms(2) by simp
    then show ?thesis
      by (simp add: Settings_load_def StreamId_is_zero_def StreamId_ZERO_def SettingsFlags_is_ack_def SETTINGS_ACK_def
          SettingsFlags_load_def Settings_ack_def Settings_for_each_def Settings_default_def)
  qed
  ultimately show ?thesis
    by (intro exI [of _ ?h] exI [of _ ?p]) simp
qed

end

section \<open>Padding\<close>

lemma strip_padding_app:
  assumes "length pad < 256"
  shows "strip_padding (of_nat (length pad) # bs @ pad) = Ok (of_nat (length pad), bs)"
  using assms by (simp add: strip_padding_def Let_def unat_of_nat)

lemma strip_padding_Ok:
  assumes "strip_padding p = Ok (n, bs)"
  shows "\<exists>pad. length pad < 256 \<and> n = of_nat (length pad) \<and> p = of_nat (length pad) # bs @ pad"
proof -
  obtain b q where p: "p = b # q"
    using assms by (cases p) (auto simp: strip_padding_def)
  let ?k = "length q - unat b"
  have b: "unat b \<le> length q" and n: "n = b" and bs: "bs = take ?k q"
    using assms by (auto simp: p strip_padding_def Let_def split: if_splits)
  have "length (drop ?k q) = unat b" using b by simp
  then show ?thesis
    using u8_bound [of b] n bs p by (intro exI [of _ "drop ?k q"]) (simp del: length_drop)
qed

text \<open>
  C23: a padded DATA payload is accepted exactly when it is a length byte, the data, and as many bytes of
  padding as the length byte says; the data is what lies between.  Every other padded payload is
  refused with \<open>TooMuchPadding\<close>.
\<close>

theorem data_load_padded:
  assumes "h_stream_id h \<noteq> 0" and "DataFlags_is_padded (h_flag h)"
  shows "Data_load h p = (if \<exists>bs pad. length pad < 256 \<and> p = of_nat (length pad) # bs @ pad
      then Ok \<lparr>dt_stream_id = h_stream_id h,
        dt_data = take (length p - 1 - unat (hd p)) (tl p), dt_flags = DataFlags_load (h_flag h), dt_pad_len = Some (hd p)\<rparr>
      else Err TooMuchPadding)"
proof -
  have f: "DataFlags_is_padded (DataFlags_load (h_flag h))"
    using assms(2) by (simp add: DataFlags_is_padded_def DataFlags_load_def END_STREAM_def PADDED_def and.assoc)
  show ?thesis
  proof (cases "strip_padding p")
    case (Ok r)
    obtain n bs where r: "r = (n, bs)" by (cases r)
    obtain pad where "length pad < 256" "n = of_nat (length pad)" "p = of_nat (length pad) # bs @ pad"
      using strip_padding_Ok Ok r by blast
    then show ?thesis
      using assms(1) f Ok r by (auto simp: Data_load_def StreamId_is_zero_def unat_of_nat)
  next
    case (Err e)
    then have "\<nexists>bs pad. length pad < 256 \<and> p = of_nat (length pad) # bs @ pad"
      using strip_padding_app by auto
    then show ?thesis
      using assms(1) f Err
      by (auto simp: Data_load_def StreamId_is_zero_def strip_padding_def Let_def split: if_splits)
  qed
qed

theorem data_load_padded_witness:
  "Data_load (Head_new KData 9 1) [2, 104, 105, 0, 0] =
     Ok \<lparr>dt_stream_id = 1, dt_data = [104, 105], dt_flags = 9, dt_pad_len = Some 2\<rparr>"
proof -
  have "DataFlags_is_padded (h_flag (Head_new KData 9 1))"
    by (simp add: DataFlags_is_padded_def PADDED_def)
  moreover have "\<exists>bs pad. length pad < 256 \<and> ([2, 104, 105, 0, 0] :: bytes) = of_nat (length pad) # bs @ pad"
    by (intro exI [of _ "[104, 105]"] exI [of _ "[0, 0]"]) simp
  ultimately show ?thesis
    using data_load_padded [of "Head_new KData 9 1" "[2, 104, 105, 0, 0]"]
    by (simp add: DataFlags_load_def END_STREAM_def PADDED_def)
qed

end
