(* ===== verification/H2_State.thy ===== *)
theory H2_State
  imports H2_Base
begin

text \<open>
  The state of an HTTP/2 stream (src/http/h2/proto/streams/state.rs).  Every method of \<^verbatim>\<open>State\<close> is a
  function on \<open>Inner\<close>, the only field of the struct; a method that fails leaves the state as it is.
  \<open>send_close\<close> panics (\<open>None\<close>) in the states in which the source does.

  The specification is the life cycle of RFC 7540, section 5.1, as a labelled step relation
  \<open>rfc_step\<close>.  The lemmas show that every run of the implementation is a run of that life cycle, that
  both halves of a stream only move forward, and which states each operation accepts.
\<close>

section \<open>The state machine of the sources\<close>

datatype StreamPeer = AwaitingHeaders | Streaming

datatype Cause =
    EndStream
  | CauseProto Reason
  | LocallyReset Reason
  | CauseIo
  | Scheduled Reason

datatype Inner =
    Idle
  | ReservedLocal
  | ReservedRemote
  | Open (local_peer: StreamPeer) (remote_peer: StreamPeer)
  | HalfClosedLocal StreamPeer
  | HalfClosedRemote StreamPeer
  | Closed Cause

datatype PollReset = PollAwaitingHeaders | PollStreaming

datatype H2Error = KindProto Reason | KindUser UserError | KindIo ErrorKind

primrec h2_error_of :: "ProtoError \<Rightarrow> H2Error" where
  "h2_error_of (Proto reason) = KindProto reason"
| "h2_error_of (ProtoIo e) = KindIo e"

definition State_default :: Inner where
  "State_default = Idle"

fun send_open :: "bool \<Rightarrow> Inner \<Rightarrow> (unit, UserError) result \<times> Inner" where
  "send_open eos Idle = (Ok (), if eos then HalfClosedLocal AwaitingHeaders else Open Streaming AwaitingHeaders)"
| "send_open eos (Open AwaitingHeaders remote) = (Ok (), if eos then HalfClosedLocal remote else Open Streaming remote)"
| "send_open eos (HalfClosedRemote AwaitingHeaders) = (Ok (), if eos then Closed EndStream else HalfClosedRemote Streaming)"
| "send_open eos ReservedLocal = (Ok (), if eos then Closed EndStream else HalfClosedRemote Streaming)"
| "send_open eos s = (Err UnexpectedFrameType, s)"

fun recv_open :: "bool \<Rightarrow> Inner \<Rightarrow> (bool, RecvError) result \<times> Inner" where
  "recv_open eos Idle = (Ok True, if eos then HalfClosedRemote AwaitingHeaders else Open AwaitingHeaders Streaming)"
| "recv_open eos ReservedRemote = (Ok True, if eos then Closed EndStream else HalfClosedLocal Streaming)"
| "recv_open eos (Open lcl AwaitingHeaders) = (Ok False, if eos then HalfClosedRemote lcl else Open lcl Streaming)"
| "recv_open eos (HalfClosedLocal AwaitingHeaders) = (Ok False, if eos then Closed EndStream else HalfClosedLocal Streaming)"
| "recv_open eos s = (Err (RecvConnection PROTOCOL_ERROR), s)"

fun reserve_remote :: "Inner \<Rightarrow> (unit, RecvError) result \<times> Inner" where
  "reserve_remote Idle = (Ok (), ReservedRemote)"
| "reserve_remote s = (Err (RecvConnection PROTOCOL_ERROR), s)"

fun reserve_local :: "Inner \<Rightarrow> (unit, UserError) result \<times> Inner" where
  "reserve_local Idle = (Ok (), ReservedLocal)"
| "reserve_local s = (Err UnexpectedFrameType, s)"

fun recv_close :: "Inner \<Rightarrow> (unit, RecvError) result \<times> Inner" where
  "recv_close (Open lcl _) = (Ok (), HalfClosedRemote lcl)"
| "recv_close (HalfClosedLocal _) = (Ok (), Closed EndStream)"
| "recv_close s = (Err (RecvConnection PROTOCOL_ERROR), s)"

fun is_closed :: "Inner \<Rightarrow> bool" where
  "is_closed (Closed _) = True"
| "is_closed _ = False"

fun recv_reset :: "Reason \<Rightarrow> bool \<Rightarrow> Inner \<Rightarrow> Inner" where
  "recv_reset reason queued s = (if is_closed s \<and> \<not> queued then s else Closed (CauseProto reason))"

fun recv_err :: "ProtoError \<Rightarrow> Inner \<Rightarrow> Inner" where
  "recv_err _ (Closed c) = Closed c"
| "recv_err (Proto reason) _ = Closed (LocallyReset reason)"
| "recv_err (ProtoIo _) _ = Closed CauseIo"

fun recv_eof :: "Inner \<Rightarrow> Inner" where
  "recv_eof (Closed c) = Closed c"
| "recv_eof _ = Closed CauseIo"

fun send_close :: "Inner \<Rightarrow> Inner option" where
  "send_close (Open _ remote) = Some (HalfClosedLocal remote)"
| "send_close (HalfClosedRemote _) = Some (Closed EndStream)"
| "send_close _ = None"

definition set_reset :: "Reason \<Rightarrow> Inner \<Rightarrow> Inner" where
  "set_reset reason s = Closed (LocallyReset reason)"

definition set_scheduled_reset :: "Reason \<Rightarrow> Inner \<Rightarrow> Inner" where
  "set_scheduled_reset reason s = Closed (Scheduled reason)"

fun get_scheduled_reset :: "Inner \<Rightarrow> Reason option" where
  "get_scheduled_reset (Closed (Scheduled reason)) = Some reason"
| "get_scheduled_reset _ = None"

fun is_scheduled_reset :: "Inner \<Rightarrow> bool" where
  "is_scheduled_reset (Closed (Scheduled _)) = True"
| "is_scheduled_reset _ = False"

fun is_local_reset :: "Inner \<Rightarrow> bool" where
  "is_local_reset (Closed (LocallyReset _)) = True"
| "is_local_reset (Closed (Scheduled _)) = True"
| "is_local_reset _ = False"

fun is_reset :: "Inner \<Rightarrow> bool" where
  "is_reset (Closed EndStream) = False"
| "is_reset (Closed _) = True"
| "is_reset _ = False"

fun is_send_streaming :: "Inner \<Rightarrow> bool" where
  "is_send_streaming (Open Streaming _) = True"
| "is_send_streaming (HalfClosedRemote Streaming) = True"
| "is_send_streaming _ = False"

fun is_recv_headers :: "Inner \<Rightarrow> bool" where
  "is_recv_headers Idle = True"
| "is_recv_headers (Open _ AwaitingHeaders) = True"
| "is_recv_headers (HalfClosedLocal AwaitingHeaders) = True"
| "is_recv_headers ReservedRemote = True"
| "is_recv_headers _ = False"

fun is_recv_streaming :: "Inner \<Rightarrow> bool" where
  "is_recv_streaming (Open _ Streaming) = True"
| "is_recv_streaming (HalfClosedLocal Streaming) = True"
| "is_recv_streaming _ = False"

fun is_recv_closed :: "Inner \<Rightarrow> bool" where
  "is_recv_closed (Closed _) = True"
| "is_recv_closed (HalfClosedRemote _) = True"
| "is_recv_closed ReservedLocal = True"
| "is_recv_closed _ = False"

fun is_send_closed :: "Inner \<Rightarrow> bool" where
  "is_send_closed (Closed _) = True"
| "is_send_closed (HalfClosedLocal _) = True"
| "is_send_closed ReservedRemote = True"
| "is_send_closed _ = False"

fun is_idle :: "Inner \<Rightarrow> bool" where
  "is_idle Idle = True"
| "is_idle _ = False"

fun ensure_recv_open :: "Inner \<Rightarrow> (bool, ProtoError) result" where
  "ensure_recv_open (Closed (CauseProto reason)) = Err (Proto reason)"
| "ensure_recv_open (Closed (LocallyReset reason)) = Err (Proto reason)"
| "ensure_recv_open (Closed (Scheduled reason)) = Err (Proto reason)"
| "ensure_recv_open (Closed CauseIo) = Err (ProtoIo BrokenPipe)"
| "ensure_recv_open (Closed EndStream) = Ok False"
| "ensure_recv_open (HalfClosedRemote _) = Ok False"
| "ensure_recv_open ReservedLocal = Ok False"
| "ensure_recv_open _ = Ok True"

definition reset_mode :: "PollReset \<Rightarrow> (Reason option, H2Error) result" where
  "reset_mode mode = (case mode of PollAwaitingHeaders \<Rightarrow> Err (KindUser PollResetAfterSendResponse) | PollStreaming \<Rightarrow> Ok None)"

fun ensure_reason :: "PollReset \<Rightarrow> Inner \<Rightarrow> (Reason option, H2Error) result" where
  "ensure_reason mode (Closed (CauseProto reason)) = Ok (Some reason)"
| "ensure_reason mode (Closed (LocallyReset reason)) = Ok (Some reason)"
| "ensure_reason mode (Closed (Scheduled reason)) = Ok (Some reason)"
| "ensure_reason mode (Closed CauseIo) = Err (h2_error_of (ProtoIo BrokenPipe))"
| "ensure_reason mode (Open Streaming _) = reset_mode mode"
| "ensure_reason mode (HalfClosedRemote Streaming) = reset_mode mode"
| "ensure_reason mode _ = Ok None"

section \<open>The life cycle of RFC 7540\<close>

datatype rfc_state =
    RIdle | RReservedLocal | RReservedRemote | ROpen | RHalfClosedLocal | RHalfClosedRemote | RClosed

text \<open>
  The frames that move a stream: HEADERS, the END\_STREAM flag, PUSH\_PROMISE and RST\_STREAM, sent or
  received; the closing of a stream on which nothing was sent (5.1.1), and the end of the connection.
\<close>

datatype rfc_event = SendH | RecvH | SendES | RecvES | SendPP | RecvPP | SendR | RecvR | ImplicitClose | ConnEnd

inductive rfc_step :: "rfc_state \<Rightarrow> rfc_event \<Rightarrow> rfc_state \<Rightarrow> bool" where
  "rfc_step RIdle SendPP RReservedLocal"
| "rfc_step RIdle RecvPP RReservedRemote"
| "rfc_step RIdle SendH ROpen"
| "rfc_step RIdle RecvH ROpen"
| "rfc_step RReservedLocal SendH RHalfClosedRemote"
| "rfc_step RReservedRemote RecvH RHalfClosedLocal"
| "rfc_step ROpen SendH ROpen"
| "rfc_step ROpen RecvH ROpen"
| "rfc_step ROpen SendES RHalfClosedLocal"
| "rfc_step ROpen RecvES RHalfClosedRemote"
| "rfc_step RHalfClosedLocal RecvH RHalfClosedLocal"
| "rfc_step RHalfClosedRemote SendH RHalfClosedRemote"
| "rfc_step RHalfClosedLocal RecvES RClosed"
| "rfc_step RHalfClosedRemote SendES RClosed"
| "s \<noteq> RIdle \<Longrightarrow> rfc_step s SendR RClosed"
| "s \<noteq> RIdle \<Longrightarrow> rfc_step s RecvR RClosed"
| "rfc_step RIdle ImplicitClose RClosed"
| "rfc_step s ConnEnd RClosed"

inductive rfc_steps :: "rfc_state \<Rightarrow> rfc_event list \<Rightarrow> rfc_state \<Rightarrow> bool" where
  rfc_nil: "rfc_steps s [] s"
| rfc_cons: "rfc_step s e s' \<Longrightarrow> rfc_steps s' es s'' \<Longrightarrow> rfc_steps s (e # es) s''"

primrec rfc_of :: "Inner \<Rightarrow> rfc_state" where
  "rfc_of Idle = RIdle"
| "rfc_of ReservedLocal = RReservedLocal"
| "rfc_of ReservedRemote = RReservedRemote"
| "rfc_of (Open _ _) = ROpen"
| "rfc_of (HalfClosedLocal _) = RHalfClosedLocal"
| "rfc_of (HalfClosedRemote _) = RHalfClosedRemote"
| "rfc_of (Closed _) = RClosed"

text \<open>
  The successful operations on a state, labelled with the frames they stand for.  A reset of a stream
  in the idle state has no frame.
\<close>

definition with_eos :: "rfc_event \<Rightarrow> rfc_event \<Rightarrow> bool \<Rightarrow> rfc_event list" where
  "with_eos h e eos = (if eos then [h, e] else [h])"

definition reset_event :: "rfc_event \<Rightarrow> Inner \<Rightarrow> rfc_event list" where
  "reset_event r s = (if s = Idle then [ImplicitClose] else [r])"

inductive state_step :: "Inner \<Rightarrow> rfc_event list \<Rightarrow> Inner \<Rightarrow> bool" where
  "send_open eos s = (Ok (), s') \<Longrightarrow> state_step s (with_eos SendH SendES eos) s'"
| "recv_open eos s = (Ok ini, s') \<Longrightarrow> state_step s (with_eos RecvH RecvES eos) s'"
| "reserve_local s = (Ok (), s') \<Longrightarrow> state_step s [SendPP] s'"
| "reserve_remote s = (Ok (), s') \<Longrightarrow> state_step s [RecvPP] s'"
| "send_close s = Some s' \<Longrightarrow> state_step s [SendES] s'"
| "recv_close s = (Ok (), s') \<Longrightarrow> state_step s [RecvES] s'"
| "state_step s (reset_event RecvR s) (recv_reset reason queued s)"
| "state_step s (reset_event SendR s) (set_reset reason s)"
| "state_step s (reset_event SendR s) (set_scheduled_reset reason s)"
| "state_step s [ConnEnd] (recv_err e s)"
| "state_step s [ConnEnd] (recv_eof s)"

inductive state_run :: "Inner \<Rightarrow> rfc_event list \<Rightarrow> Inner \<Rightarrow> bool" where
  run_nil: "state_run s [] s"
| run_cons: "state_step s es s' \<Longrightarrow> state_run s' fs s'' \<Longrightarrow> state_run s (es @ fs) s''"

lemma rfc_steps_append: "rfc_steps s es s' \<Longrightarrow> rfc_steps s' fs s'' \<Longrightarrow> rfc_steps s (es @ fs) s''"
  by (induction rule: rfc_steps.induct) (auto intro: rfc_steps.intros)

lemmas rfc_steps_intros = rfc_nil rfc_cons rfc_step.intros

lemma rfc_steps_1: "rfc_step s e s' \<Longrightarrow> rfc_steps s [e] s'"
  by (blast intro: rfc_steps.intros)

lemma rfc_steps_2: "rfc_step s e s' \<Longrightarrow> rfc_step s' f s'' \<Longrightarrow> rfc_steps s [e, f] s''"
  by (blast intro: rfc_steps.intros)

lemma is_closed_iff: "is_closed s \<longleftrightarrow> rfc_of s = RClosed"
  by (cases s) auto

lemma recv_err_closed [simp]: "is_closed (recv_err e s)"
  by (cases "(e, s)" rule: recv_err.cases) auto

lemma recv_eof_closed [simp]: "is_closed (recv_eof s)"
  by (cases s rule: recv_eof.cases) auto

lemma resets_closed [simp]: "is_closed (recv_reset r q s)" "is_closed (set_reset r s)" "is_closed (set_scheduled_reset r s)"
  by (auto simp: set_reset_def set_scheduled_reset_def)

lemma rfc_of_idle [simp]: "rfc_of s = RIdle \<longleftrightarrow> s = Idle"
  by (cases s) auto

lemma send_open_rfc: "send_open eos s = (Ok (), s') \<Longrightarrow> rfc_steps (rfc_of s) (with_eos SendH SendES eos) (rfc_of s')"
  by (cases "(eos, s)" rule: send_open.cases)
    (auto simp: with_eos_def split: if_splits intro!: rfc_steps_1 rfc_step.intros intro: rfc_steps_2 rfc_step.intros)

lemma recv_open_rfc: "recv_open eos s = (Ok ini, s') \<Longrightarrow> rfc_steps (rfc_of s) (with_eos RecvH RecvES eos) (rfc_of s')"
  by (cases "(eos, s)" rule: recv_open.cases)
    (auto simp: with_eos_def split: if_splits intro!: rfc_steps_1 rfc_step.intros intro: rfc_steps_2 rfc_step.intros)

lemma reset_rfc: "is_closed s' \<Longrightarrow> r \<in> {SendR, RecvR} \<Longrightarrow> rfc_steps (rfc_of s) (reset_event r s) (rfc_of s')"
  by (auto simp: is_closed_iff reset_event_def intro!: rfc_steps_1 rfc_step.intros)

lemma state_step_rfc: "state_step s es s' \<Longrightarrow> rfc_steps (rfc_of s) es (rfc_of s')"
proof (induction rule: state_step.induct)
  case (3 s s')
  then show ?case by (cases s) (auto intro!: rfc_steps_1 rfc_step.intros)
next
  case (4 s s')
  then show ?case by (cases s) (auto intro!: rfc_steps_1 rfc_step.intros)
next
  case (5 s s')
  then show ?case by (cases s) (auto intro!: rfc_steps_1 rfc_step.intros)
next
  case (6 s s')
  then show ?case by (cases s) (auto intro!: rfc_steps_1 rfc_step.intros)
next
  case (10 s e)
  then show ?case
    using recv_err_closed [of e s] unfolding is_closed_iff by (auto intro!: rfc_steps_1 rfc_step.intros)
next
  case (11 s)
  then show ?case
    using recv_eof_closed [of s] unfolding is_closed_iff by (auto intro!: rfc_steps_1 rfc_step.intros)
qed (simp_all add: send_open_rfc recv_open_rfc reset_rfc del: recv_reset.simps)

section \<open>Both halves move forward\<close>

text \<open>0: no headers yet; 1: headers passed; 2: the half is closed.\<close>

primrec peer_phase :: "StreamPeer \<Rightarrow> nat" where
  "peer_phase AwaitingHeaders = 0"
| "peer_phase Streaming = 1"

primrec send_phase :: "Inner \<Rightarrow> nat" where
  "send_phase Idle = 0"
| "send_phase ReservedLocal = 0"
| "send_phase ReservedRemote = 2"
| "send_phase (Open lcl remote) = peer_phase lcl"
| "send_phase (HalfClosedLocal remote) = 2"
| "send_phase (HalfClosedRemote lcl) = peer_phase lcl"
| "send_phase (Closed c) = 2"

primrec recv_phase :: "Inner \<Rightarrow> nat" where
  "recv_phase Idle = 0"
| "recv_phase ReservedLocal = 2"
| "recv_phase ReservedRemote = 0"
| "recv_phase (Open lcl remote) = peer_phase remote"
| "recv_phase (HalfClosedLocal remote) = peer_phase remote"
| "recv_phase (HalfClosedRemote lcl) = 2"
| "recv_phase (Closed c) = 2"

lemma peer_phase_le [simp]: "peer_phase p \<le> Suc 0" "\<not> 2 \<le> peer_phase p" "peer_phase p \<le> 2"
  by (cases p; simp)+

lemma phase_le: "send_phase s \<le> 2" "recv_phase s \<le> 2"
  by (cases s; simp)+

lemma closed_phase: "is_closed s \<Longrightarrow> send_phase s = 2 \<and> recv_phase s = 2"
  by (cases s) auto

text \<open>How many HEADERS and END\_STREAM of each direction a state already accounts for.\<close>

definition used :: "rfc_event \<Rightarrow> Inner \<Rightarrow> nat" where
  "used e s =
     (if e = SendH then (if 1 \<le> send_phase s then 1 else 0)
      else if e = SendES then (if 2 \<le> send_phase s then 1 else 0)
      else if e = RecvH then (if 1 \<le> recv_phase s then 1 else 0)
      else if e = RecvES then (if 2 \<le> recv_phase s then 1 else 0) else 0)"

definition once :: "rfc_event set" where
  "once = {SendH, SendES, RecvH, RecvES}"

lemma used_le: "used e s \<le> 1"
  by (simp add: used_def)

lemma used_closed: "is_closed s \<Longrightarrow> e \<in> once \<Longrightarrow> used e s = 1"
  using closed_phase by (auto simp: used_def once_def)

lemma send_open_used:
  assumes "send_open eos s = (Ok (), s')" and "e \<in> once"
  shows "count_list (with_eos SendH SendES eos) e + used e s \<le> used e s'"
  using assms by (cases eos; cases "(eos, s)" rule: send_open.cases) (auto simp: with_eos_def used_def once_def)

lemma recv_open_used:
  assumes "recv_open eos s = (Ok ini, s')" and "e \<in> once"
  shows "count_list (with_eos RecvH RecvES eos) e + used e s \<le> used e s'"
  using assms by (cases eos; cases "(eos, s)" rule: recv_open.cases) (auto simp: with_eos_def used_def once_def)

lemma close_used:
  "send_close s = Some s' \<Longrightarrow> e \<in> once \<Longrightarrow> count_list [SendES] e + used e s \<le> used e s'"
  "recv_close s = (Ok (), s') \<Longrightarrow> e \<in> once \<Longrightarrow> count_list [RecvES] e + used e s \<le> used e s'"
  by (cases s; auto simp: used_def once_def)+

lemma reserve_used:
  "reserve_local s = (Ok (), s') \<Longrightarrow> used e s \<le> used e s'"
  "reserve_remote s = (Ok (), s') \<Longrightarrow> used e s \<le> used e s'"
  by (cases s; auto simp: used_def)+

lemma state_step_used: "state_step s es s' \<Longrightarrow> e \<in> once \<Longrightarrow> count_list es e + used e s \<le> used e s'"
proof (induction rule: state_step.induct)
  case (3 s s')
  then show ?case using reserve_used(1) [of s s' e] by (auto simp: once_def)
next
  case (4 s s')
  then show ?case using reserve_used(2) [of s s' e] by (auto simp: once_def)
next
  case (7 s reason queued)
  have "count_list (reset_event RecvR s) e = 0" using 7 by (auto simp: reset_event_def once_def)
  then show ?case using 7 used_closed [of "recv_reset reason queued s" e] used_le [of e s] by (simp del: recv_reset.simps)
next
  case (8 s reason)
  have "count_list (reset_event SendR s) e = 0" using 8 by (auto simp: reset_event_def once_def)
  then show ?case using 8 used_closed [of "set_reset reason s" e] used_le [of e s] by simp
next
  case (9 s reason)
  have "count_list (reset_event SendR s) e = 0" using 9 by (auto simp: reset_event_def once_def)
  then show ?case using 9 used_closed [of "set_scheduled_reset reason s" e] used_le [of e s] by simp
next
  case (10 s err)
  then show ?case using used_closed [of "recv_err err s" e] used_le [of e s] by (auto simp: once_def)
next
  case (11 s)
  then show ?case using used_closed [of "recv_eof s" e] used_le [of e s] by (auto simp: once_def)
qed (rule send_open_used recv_open_used close_used; assumption)+

lemma state_run_used: "state_run s es s' \<Longrightarrow> e \<in> once \<Longrightarrow> count_list es e + used e s \<le> used e s'"
proof (induction rule: state_run.induct)
  case (run_cons s es s' fs s'')
  then show ?case using state_step_used [of s es s' e] by simp
qed simp

lemma state_step_phase:
  assumes "state_step s es s'"
  shows "send_phase s \<le> send_phase s' \<and> recv_phase s \<le> recv_phase s'"
  using assms
proof (induction rule: state_step.induct)
  case (1 eos s s')
  then show ?case by (cases eos; cases "(eos, s)" rule: send_open.cases) auto
next
  case (2 eos s ini s')
  then show ?case by (cases eos; cases "(eos, s)" rule: recv_open.cases) auto
next
  case (3 s s')
  then show ?case by (cases s) auto
next
  case (4 s s')
  then show ?case by (cases s) auto
next
  case (5 s s')
  then show ?case by (cases s) auto
next
  case (6 s s')
  then show ?case by (cases s) auto
qed (use closed_phase phase_le in \<open>simp_all del: recv_reset.simps\<close>)

lemma state_step_closed: "state_step (Closed c) fs s' \<Longrightarrow> is_closed s'"
  by (erule state_step.cases) (auto simp: set_reset_def set_scheduled_reset_def)

section \<open>Properties\<close>

text \<open>
  C4: every run of the stream state machine from a new stream is a run of the life cycle of RFC 7540:
  the frames it stands for take the protocol's idle state to the protocol's view of the state reached.
\<close>

theorem stream_state_refines_rfc:
  assumes "state_run State_default es s"
  shows "rfc_steps RIdle es (rfc_of s)"
proof -
  have "state_run s0 es s \<Longrightarrow> rfc_steps (rfc_of s0) es (rfc_of s)" for s0
    by (induction rule: state_run.induct) (auto intro: rfc_nil rfc_steps_append state_step_rfc)
  from this [OF assms] show ?thesis by (simp add: State_default_def)
qed

text \<open>A request with a body and its response: HEADERS, END\_STREAM of the body, HEADERS with END\_STREAM.\<close>

lemma request_run: "state_run Idle [SendH, SendES, RecvH, RecvES] (Closed EndStream)"
proof -
  have "state_step Idle [SendH] (Open Streaming AwaitingHeaders)"
    using state_step.intros(1) [of False Idle] by (simp add: with_eos_def)
  moreover have "state_step (Open Streaming AwaitingHeaders) [SendES] (HalfClosedLocal AwaitingHeaders)"
    by (rule state_step.intros(5)) simp
  moreover have "state_step (HalfClosedLocal AwaitingHeaders) [RecvH, RecvES] (Closed EndStream)"
    using state_step.intros(2) [of True "HalfClosedLocal AwaitingHeaders" False] by (simp add: with_eos_def)
  ultimately show ?thesis
    using run_cons [OF _ run_cons [OF _ run_cons [OF _ run_nil]]] by fastforce
qed

theorem stream_state_refines_rfc_witness: "rfc_steps RIdle [SendH, SendES, RecvH, RecvES] RClosed"
  using stream_state_refines_rfc [of "[SendH, SendES, RecvH, RecvES]" "Closed EndStream"] request_run
  by (simp add: State_default_def)

text \<open>
  C18: on a stream, HEADERS open each direction at most once and END\_STREAM closes each direction at most
  once, in every run of the state machine, whatever resets and errors occur; and no operation
  moves a half of the stream back or reopens a closed stream.
\<close>

theorem stream_halves_move_forward:
  assumes "state_run State_default es s"
  shows "count_list es SendH \<le> 1 \<and> count_list es SendES \<le> 1 \<and> count_list es RecvH \<le> 1 \<and> count_list es RecvES \<le> 1 \<and>
    (\<forall>fs s'. state_step s fs s' \<longrightarrow>
       send_phase s \<le> send_phase s' \<and> recv_phase s \<le> recv_phase s' \<and> (is_closed s \<longrightarrow> is_closed s'))"
proof -
  have "count_list es e \<le> 1" if "e \<in> once" for e
    using state_run_used [OF assms that] used_le [of e s] by simp
  moreover have "is_closed s'" if "state_step s fs s'" and "is_closed s" for fs s'
    using that state_step_closed by (metis is_closed.elims(2))
  ultimately show ?thesis
    using state_step_phase by (auto simp: once_def)
qed

theorem stream_halves_move_forward_witness:
  "count_list [SendH, SendES, RecvH, RecvES] RecvH \<le> 1 \<and> is_closed (recv_reset CANCEL True (Closed EndStream))"
proof -
  have step: "state_step (Closed EndStream) [RecvR] (recv_reset CANCEL True (Closed EndStream))"
    using state_step.intros(7) [of "Closed EndStream" CANCEL True] by (simp add: reset_event_def)
  have "state_run State_default [SendH, SendES, RecvH, RecvES] (Closed EndStream)"
    using request_run by (simp add: State_default_def)
  from stream_halves_move_forward [OF this] step show ?thesis
    by (metis is_closed.simps(1))
qed

text \<open>
  C19: the predicates by which the callers guard the transitions are exact: HEADERS are accepted exactly
  when \<open>is_recv_headers\<close> holds; the end of the peer's data is accepted exactly while the receive
  half of an opened stream is not closed; the stream counts as open for receiving exactly when its receive half is
  not closed; and \<open>send_close\<close> panics exactly when the send half is closed or the stream not opened, so
  never on a stream that is sending.
\<close>

theorem stream_guards_exact:
  "((\<exists>b s'. recv_open eos s = (Ok b, s')) \<longleftrightarrow> is_recv_headers s) \<and>
   ((\<exists>s'. recv_close s = (Ok (), s')) \<longleftrightarrow> \<not> is_recv_closed s \<and> s \<noteq> Idle \<and> s \<noteq> ReservedRemote) \<and>
   (ensure_recv_open s = Ok True \<longleftrightarrow> \<not> is_recv_closed s) \<and>
   (send_close s = None \<longleftrightarrow> is_send_closed s \<or> s = Idle \<or> s = ReservedLocal) \<and>
   \<not> (is_send_streaming s \<and> send_close s = None)"
proof -
  have "(\<exists>b s'. recv_open eos s = (Ok b, s')) \<longleftrightarrow> is_recv_headers s"
    by (cases "(eos, s)" rule: recv_open.cases) auto
  moreover have "ensure_recv_open s = Ok True \<longleftrightarrow> \<not> is_recv_closed s"
    by (cases s rule: ensure_recv_open.cases) auto
  moreover have "\<not> (is_send_streaming s \<and> send_close s = None)"
    by (cases s rule: is_send_streaming.cases) auto
  moreover have "(\<exists>s'. recv_close s = (Ok (), s')) \<longleftrightarrow> \<not> is_recv_closed s \<and> s \<noteq> Idle \<and> s \<noteq> ReservedRemote"
    by (cases s) auto
  moreover have "send_close s = None \<longleftrightarrow> is_send_closed s \<or> s = Idle \<or> s = ReservedLocal"
    by (cases s) auto
  ultimately show ?thesis by blast
qed

end
