(* ===== verification/H2_Control.thy ===== *)
theory H2_Control
  imports H2_Frame
begin

text \<open>
  The control protocols of a connection: PING (src/http/h2/proto/ping\_pong.rs), SETTINGS
  synchronisation (src/http/h2/proto/settings.rs) and GOAWAY (src/http/h2/proto/go\_away.rs), and the
  checks on who may open a stream (src/http/h2/proto/peer.rs).

  A method that writes to the codec takes the outcome of \<^verbatim>\<open>poll_ready\<close> as an argument (\<open>ready\<close>) and
  returns the frames it buffers.  The atomic word that the user's half and the connection's half of
  \<^verbatim>\<open>UserPings\<close> share is changed by atomic steps, which interleave in \<open>ping_step\<close>; the wakers are not
  modelled.
\<close>

section \<open>Peers\<close>

datatype Dyn = Client | Server

datatype RecvOpen = OpenPushPromise | OpenHeaders

definition is_server :: "Dyn \<Rightarrow> bool" where
  "is_server d \<longleftrightarrow> d = Server"

definition is_local_init :: "Dyn \<Rightarrow> StreamId \<Rightarrow> bool option" where
  "is_local_init d i = (if StreamId_is_zero i then None else Some (is_server d = is_server_initiated i))"

definition is_push_promise :: "RecvOpen \<Rightarrow> bool" where
  "is_push_promise m = (case m of OpenPushPromise \<Rightarrow> True | OpenHeaders \<Rightarrow> False)"

definition ensure_can_open :: "Dyn \<Rightarrow> StreamId \<Rightarrow> RecvOpen \<Rightarrow> (unit, RecvError) result" where
  "ensure_can_open d i mode =
     (if is_server d then
        (if is_push_promise mode \<or> \<not> is_client_initiated i then Err (RecvConnection PROTOCOL_ERROR) else Ok ())
      else
        (if \<not> is_push_promise mode \<or> \<not> is_server_initiated i then Err (RecvConnection PROTOCOL_ERROR) else Ok ()))"

section \<open>GOAWAY\<close>

record GoingAway =
  last_processed_id :: StreamId
  ga_reason :: Reason

record GoAwayState =
  close_now :: bool
  going_away :: "GoingAway option"
  is_user_initiated :: bool
  ga_pending :: "GoAway option"

definition GoAwayState_new :: GoAwayState where
  "GoAwayState_new = \<lparr>close_now = False, going_away = None, is_user_initiated = False, ga_pending = None\<rparr>"

definition go_away :: "GoAway \<Rightarrow> GoAwayState \<Rightarrow> GoAwayState option" where
  "go_away f s =
     (if (case going_away s of Some g \<Rightarrow> \<not> ga_last_stream_id f \<le> last_processed_id g | None \<Rightarrow> False) then None
      else Some (s\<lparr>going_away := Some \<lparr>last_processed_id = ga_last_stream_id f, ga_reason = ga_error_code f\<rparr>,
                  ga_pending := Some f\<rparr>))"

definition go_away_now :: "GoAway \<Rightarrow> GoAwayState \<Rightarrow> GoAwayState option" where
  "go_away_now f s =
     (let s = s\<lparr>close_now := True\<rparr> in
      case going_away s of
        Some g \<Rightarrow> if last_processed_id g = ga_last_stream_id f \<and> ga_reason g = ga_error_code f then Some s
                  else go_away f s
      | None \<Rightarrow> go_away f s)"

definition go_away_from_user :: "GoAway \<Rightarrow> GoAwayState \<Rightarrow> GoAwayState option" where
  "go_away_from_user f s = go_away_now f (s\<lparr>is_user_initiated := True\<rparr>)"

definition is_going_away :: "GoAwayState \<Rightarrow> bool" where
  "is_going_away s \<longleftrightarrow> going_away s \<noteq> None"

definition going_away_reason :: "GoAwayState \<Rightarrow> Reason option" where
  "going_away_reason s = map_option ga_reason (going_away s)"

definition should_close_now :: "GoAwayState \<Rightarrow> bool" where
  "should_close_now s \<longleftrightarrow> ga_pending s = None \<and> close_now s"

definition should_close_on_idle :: "GoAwayState \<Rightarrow> bool" where
  "should_close_on_idle s \<longleftrightarrow>
     \<not> close_now s \<and> (case going_away s of Some g \<Rightarrow> last_processed_id g \<noteq> StreamId_MAX | None \<Rightarrow> False)"

definition send_pending_go_away ::
  "(unit, ErrorKind) result poll \<Rightarrow> GoAwayState \<Rightarrow> (Reason, ErrorKind) result option poll \<times> GoAwayState \<times> GoAway list" where
  "send_pending_go_away ready s =
     (case ga_pending s of
        Some frame \<Rightarrow>
          let s' = s\<lparr>ga_pending := None\<rparr> in
          (case ready of
             Ready (Err e) \<Rightarrow> (Ready (Some (Err e)), s', [])
           | Pending \<Rightarrow> (Pending, s'\<lparr>ga_pending := Some frame\<rparr>, [])
           | Ready (Ok _) \<Rightarrow> (Ready (Some (Ok (ga_error_code frame))), s', [frame]))
      | None \<Rightarrow>
          if should_close_now s then
            (case going_away_reason s of
               Some reason \<Rightarrow> (Ready (Some (Ok reason)), s, [])
             | None \<Rightarrow> (Ready None, s, []))
          else (Ready None, s, []))"

section \<open>SETTINGS synchronisation\<close>



text \<open>What the synchronisation asks of the codec and of the streams, in order.\<close>

datatype effect =
    SetMaxRecvFrameSize nat
  | SetMaxRecvHeaderListSize nat
  | SetMaxSendFrameSize nat
  | ApplyLocal Settings
  | ApplyRemote Settings
  | BufferSettings Settings







section \<open>PING\<close>

datatype ReceivedPing = MustAck | UnknownPing | Shutdown

record PendingPing =
  pp_payload :: bytes
  pp_sent :: bool

definition USER_STATE_EMPTY :: nat where "USER_STATE_EMPTY = 0"
definition USER_STATE_PENDING_PING :: nat where "USER_STATE_PENDING_PING = 1"
definition USER_STATE_PENDING_PONG :: nat where "USER_STATE_PENDING_PONG = 2"
definition USER_STATE_RECEIVED_PONG :: nat where "USER_STATE_RECEIVED_PONG = 3"
definition USER_STATE_CLOSED :: nat where "USER_STATE_CLOSED = 4"

lemmas user_state_defs =
  USER_STATE_EMPTY_def USER_STATE_PENDING_PING_def USER_STATE_PENDING_PONG_def USER_STATE_RECEIVED_PONG_def
  USER_STATE_CLOSED_def

text \<open>\<open>user_pings\<close> is the value of the shared word, once \<^verbatim>\<open>take_user_pings\<close> was called.\<close>

record PingPong =
  pending_ping :: "PendingPing option"
  pending_pong :: "bytes option"
  user_pings :: "nat option"

definition PingPong_new :: PingPong where
  "PingPong_new = \<lparr>pending_ping = None, pending_pong = None, user_pings = None\<rparr>"

definition take_user_pings :: "PingPong \<Rightarrow> bool \<times> PingPong" where
  "take_user_pings p =
     (if user_pings p \<noteq> None then (False, p) else (True, p\<lparr>user_pings := Some USER_STATE_EMPTY\<rparr>))"

definition ping_shutdown :: "PingPong \<Rightarrow> PingPong option" where
  "ping_shutdown p =
     (if pending_ping p \<noteq> None then None
      else Some (p\<lparr>pending_ping := Some \<lparr>pp_payload = Ping_SHUTDOWN, pp_sent = False\<rparr>\<rparr>))"

text \<open>\<^verbatim>\<open>compare_and_swap\<close>: the previous value and the value after it.\<close>

definition compare_and_swap :: "nat \<Rightarrow> nat \<Rightarrow> nat \<Rightarrow> nat \<times> nat" where
  "compare_and_swap current new st = (st, if st = current then new else st)"

definition receive_pong :: "nat \<Rightarrow> bool \<times> nat" where
  "receive_pong st =
     (let (prev, st') = compare_and_swap USER_STATE_PENDING_PONG USER_STATE_RECEIVED_PONG st
      in (prev = USER_STATE_PENDING_PONG, st'))"

definition send_ping :: "nat \<Rightarrow> (unit, ErrorKind option) result \<times> nat" where
  "send_ping st =
     (let (prev, st') = compare_and_swap USER_STATE_EMPTY USER_STATE_PENDING_PING st in
      (if prev = USER_STATE_EMPTY then Ok () else if prev = USER_STATE_CLOSED then Err (Some BrokenPipe) else Err None, st'))"

definition poll_pong :: "nat \<Rightarrow> (unit, ErrorKind) result poll \<times> nat" where
  "poll_pong st =
     (let (prev, st') = compare_and_swap USER_STATE_RECEIVED_PONG USER_STATE_EMPTY st in
      (if prev = USER_STATE_RECEIVED_PONG then Ready (Ok ())
       else if prev = USER_STATE_CLOSED then Ready (Err BrokenPipe) else Pending, st'))"

definition user_pong :: "Ping \<Rightarrow> PingPong \<Rightarrow> ReceivedPing \<times> PingPong" where
  "user_pong ping p =
     (case user_pings p of
        Some st \<Rightarrow>
          if pi_payload ping = Ping_USER
          then let (b, st') = receive_pong st in (UnknownPing, p\<lparr>user_pings := Some st'\<rparr>)
          else (UnknownPing, p)
      | None \<Rightarrow> (UnknownPing, p))"

definition recv_ping :: "Ping \<Rightarrow> PingPong \<Rightarrow> (ReceivedPing \<times> PingPong) option" where
  "recv_ping ping p =
     (if pending_pong p \<noteq> None then None
      else if pi_ack ping then
        (case pending_ping p of
           Some pending \<Rightarrow>
             if pp_payload pending = pi_payload ping then
               (if pp_payload pending = Ping_SHUTDOWN then Some (Shutdown, p\<lparr>pending_ping := None\<rparr>) else None)
             else Some (user_pong ping p)
         | None \<Rightarrow> Some (user_pong ping p))
      else Some (MustAck, p\<lparr>pending_pong := Some (pi_payload ping)\<rparr>))"

definition send_pending_pong ::
  "(unit, ErrorKind) result poll \<Rightarrow> PingPong \<Rightarrow> (unit, ErrorKind) result poll \<times> PingPong \<times> Ping list" where
  "send_pending_pong ready p =
     (case pending_pong p of
        Some pong \<Rightarrow>
          let p' = p\<lparr>pending_pong := None\<rparr> in
          (case ready of
             Ready (Err e) \<Rightarrow> (Ready (Err e), p', [])
           | Pending \<Rightarrow> (Pending, p'\<lparr>pending_pong := Some pong\<rparr>, [])
           | Ready (Ok _) \<Rightarrow> (Ready (Ok ()), p', [Ping_pong pong]))
      | None \<Rightarrow> (Ready (Ok ()), p, []))"

definition send_pending_ping ::
  "(unit, ErrorKind) result poll \<Rightarrow> PingPong \<Rightarrow> (unit, ErrorKind) result poll \<times> PingPong \<times> Ping list" where
  "send_pending_ping ready p =
     (case pending_ping p of
        Some ping \<Rightarrow>
          if \<not> pp_sent ping then
            (case ready of
               Ready (Err e) \<Rightarrow> (Ready (Err e), p, [])
             | Pending \<Rightarrow> (Pending, p, [])
             | Ready (Ok _) \<Rightarrow>
                 (Ready (Ok ()), p\<lparr>pending_ping := Some (ping\<lparr>pp_sent := True\<rparr>)\<rparr>, [Ping_new (pp_payload ping)]))
          else (Ready (Ok ()), p, [])
      | None \<Rightarrow>
          (case user_pings p of
             Some st \<Rightarrow>
               if st = USER_STATE_PENDING_PING then
                 (case ready of
                    Ready (Err e) \<Rightarrow> (Ready (Err e), p, [])
                  | Pending \<Rightarrow> (Pending, p, [])
                  | Ready (Ok _) \<Rightarrow>
                      (Ready (Ok ()), p\<lparr>user_pings := Some USER_STATE_PENDING_PONG\<rparr>, [Ping_new Ping_USER]))
               else (Ready (Ok ()), p, [])
           | None \<Rightarrow> (Ready (Ok ()), p, [])))"

section \<open>Runs of the GOAWAY state\<close>

datatype ga_op = OpGoAway GoAway | OpNow GoAway | OpUser GoAway | OpSend "(unit, ErrorKind) result poll"

definition ga_exec :: "ga_op \<Rightarrow> GoAwayState \<Rightarrow> (GoAwayState \<times> GoAway list) option" where
  "ga_exec c s =
     (case c of
        OpGoAway f \<Rightarrow> map_option (\<lambda>s'. (s', [])) (go_away f s)
      | OpNow f \<Rightarrow> map_option (\<lambda>s'. (s', [])) (go_away_now f s)
      | OpUser f \<Rightarrow> map_option (\<lambda>s'. (s', [])) (go_away_from_user f s)
      | OpSend ready \<Rightarrow> Some (snd (send_pending_go_away ready s)))"

text \<open>The state after a sequence of calls and the frames they wrote; \<open>None\<close> when a call panicked.\<close>

fun ga_run :: "ga_op list \<Rightarrow> GoAwayState \<Rightarrow> (GoAwayState \<times> GoAway list) option" where
  "ga_run [] s = Some (s, [])"
| "ga_run (c # cs) s = do {
     (s', fs) \<leftarrow> ga_exec c s;
     (s'', gs) \<leftarrow> ga_run cs s';
     Some (s'', fs @ gs)
   }"

text \<open>What was written so far, \<open>fs\<close>, against the state: \<open>e\<close> says that a write failed.\<close>

definition ga_inv :: "GoAway list \<Rightarrow> bool \<Rightarrow> GoAwayState \<Rightarrow> bool" where
  "ga_inv fs e s \<longleftrightarrow>
     (case going_away s of
        None \<Rightarrow> fs = [] \<and> ga_pending s = None
      | Some g \<Rightarrow>
          (\<forall>f\<in>set fs. last_processed_id g \<le> ga_last_stream_id f) \<and>
          (case ga_pending s of
             Some f \<Rightarrow> ga_last_stream_id f = last_processed_id g \<and> ga_error_code f = ga_reason g
           | None \<Rightarrow> e \<or> (fs \<noteq> [] \<and> ga_last_stream_id (last fs) = last_processed_id g \<and> ga_error_code (last fs) = ga_reason g)))
     \<and> sorted_wrt (\<lambda>f g. ga_last_stream_id g \<le> ga_last_stream_id f) fs"

definition failed :: "ga_op \<Rightarrow> bool" where
  "failed c = (case c of OpSend (Ready (Err _)) \<Rightarrow> True | _ \<Rightarrow> False)"

lemma go_away_inv: "ga_inv fs e s \<Longrightarrow> go_away f s = Some s' \<Longrightarrow> ga_inv fs e s'"
  by (fastforce simp: ga_inv_def go_away_def split: option.splits if_splits)

lemma ga_inv_more [simp]:
  "ga_inv fs e (s\<lparr>close_now := b\<rparr>) = ga_inv fs e s" "ga_inv fs e (s\<lparr>is_user_initiated := b\<rparr>) = ga_inv fs e s"
  by (simp_all add: ga_inv_def split: option.split)

lemma go_away_now_inv: "ga_inv fs e s \<Longrightarrow> go_away_now f s = Some s' \<Longrightarrow> ga_inv fs e s'"
  using go_away_inv [of fs e "s\<lparr>close_now := True\<rparr>" f s']
  by (auto simp: go_away_now_def Let_def split: option.splits if_splits)

lemma send_pending_inv:
  assumes "ga_inv fs e s" and "snd (send_pending_go_away ready s) = (s', gs)"
  shows "ga_inv (fs @ gs) (e \<or> failed (OpSend ready)) s'"
proof (cases "ga_pending s")
  case None
  then have "snd (send_pending_go_away ready s) = (s, [])"
    by (simp add: send_pending_go_away_def split: option.split)
  then show ?thesis using assms by (auto simp: ga_inv_def split: option.splits)
next
  case (Some f)
  then obtain g where g: "going_away s = Some g" "ga_last_stream_id f = last_processed_id g" "ga_error_code f = ga_reason g"
    using assms(1) by (auto simp: ga_inv_def split: option.splits)
  consider "ready = Pending" | e where "ready = Ready (Err e)" | "ready = Ready (Ok ())"
    by (metis poll.exhaust result.exhaust unit.exhaust)
  then show ?thesis
  proof cases
    case 1
    then have "s' = s\<lparr>ga_pending := Some f\<rparr>" "gs = []"
      using assms(2) Some by (simp_all add: send_pending_go_away_def)
    then show ?thesis using assms(1) Some g by (simp add: ga_inv_def)
  next
    case 2
    then have "s' = s\<lparr>ga_pending := None\<rparr>" "gs = []"
      using assms(2) Some by (simp_all add: send_pending_go_away_def)
    then show ?thesis using assms(1) Some g 2 by (simp add: ga_inv_def failed_def)
  next
    case 3
    then have "s' = s\<lparr>ga_pending := None\<rparr>" "gs = [f]"
      using assms(2) Some by (simp_all add: send_pending_go_away_def)
    then show ?thesis using assms(1) Some g by (simp add: ga_inv_def sorted_wrt_append)
  qed
qed

lemma ga_exec_inv:
  assumes "ga_inv fs e s" and "ga_exec c s = Some (s', gs)"
  shows "ga_inv (fs @ gs) (e \<or> failed c) s'"
proof (cases c)
  case (OpSend ready)
  then show ?thesis using assms send_pending_inv by (auto simp: ga_exec_def)
next
  case (OpUser f)
  then show ?thesis
    using assms go_away_now_inv [of fs e "s\<lparr>is_user_initiated := True\<rparr>" f]
    by (auto simp: ga_exec_def go_away_from_user_def failed_def)
qed (use assms in \<open>auto simp: ga_exec_def failed_def intro: go_away_inv go_away_now_inv\<close>)

lemma ga_run_inv:
  assumes "ga_inv fs e s" and "ga_run cs s = Some (s', gs)"
  shows "ga_inv (fs @ gs) (e \<or> (\<exists>c\<in>set cs. failed c)) s'"
  using assms
proof (induction cs arbitrary: fs e s gs)
  case (Cons c cs)
  obtain s1 g1 g2 where 1: "ga_exec c s = Some (s1, g1)" "ga_run cs s1 = Some (s', g2)" "gs = g1 @ g2"
    using Cons.prems(2) by (auto split: Option.bind_splits)
  show ?case
    using Cons.IH [OF ga_exec_inv [OF Cons.prems(1) 1(1)] 1(2)] by (simp add: 1(3) disj_assoc)
qed simp

text \<open>
  C11: in every sequence of calls that does not panic, the stream identifiers of the GOAWAY frames written
  never increase; and when no write failed and the connection is told to close, a GOAWAY was written, and
  the last one carries the recorded reason.
\<close>

theorem goaway_ids_never_increase:
  assumes "ga_run cs GoAwayState_new = Some (s, fs)"
  shows "sorted_wrt (\<lambda>f g. ga_last_stream_id g \<le> ga_last_stream_id f) fs \<and>
    ((\<forall>c\<in>set cs. \<not> failed c) \<and> is_going_away s \<and> should_close_now s \<longrightarrow>
       fs \<noteq> [] \<and> going_away_reason s = Some (ga_error_code (last fs)))"
proof -
  have "ga_inv [] False GoAwayState_new" by (simp add: ga_inv_def GoAwayState_new_def)
  from ga_run_inv [OF this assms] have inv: "ga_inv fs (\<exists>c\<in>set cs. failed c) s" by simp
  then have "fs \<noteq> [] \<and> going_away_reason s = Some (ga_error_code (last fs))"
    if "\<forall>c\<in>set cs. \<not> failed c" "is_going_away s" "should_close_now s"
    using that by (auto simp: ga_inv_def is_going_away_def should_close_now_def going_away_reason_def split: option.splits)
  then show ?thesis using inv by (auto simp: ga_inv_def)
qed

definition demo_ops :: "ga_op list" where
  "demo_ops =
     [OpGoAway (GoAway_new StreamId_MAX NO_ERROR), OpSend (Ready (Ok ())), OpNow (GoAway_new 5 CANCEL), OpSend Pending,
      OpSend (Ready (Ok ()))]"

theorem goaway_ids_never_increase_witness:
  "\<exists>s fs. ga_run demo_ops GoAwayState_new = Some (s, fs) \<and> map ga_last_stream_id fs = [StreamId_MAX, 5] \<and>
     going_away_reason s = Some CANCEL \<and> sorted_wrt (\<lambda>f g. ga_last_stream_id g \<le> ga_last_stream_id f) fs"
proof -
  let ?s = "\<lparr>close_now = True, going_away = Some \<lparr>last_processed_id = 5, ga_reason = CANCEL\<rparr>, is_user_initiated = False,
      ga_pending = None\<rparr>"
  have "ga_run demo_ops GoAwayState_new = Some (?s, [GoAway_new StreamId_MAX NO_ERROR, GoAway_new 5 CANCEL])"
    by code_simp
  then show ?thesis
    using goaway_ids_never_increase [of demo_ops ?s "[GoAway_new StreamId_MAX NO_ERROR, GoAway_new 5 CANCEL]"]
    by (auto simp: GoAway_new_def going_away_reason_def)
qed

section \<open>Runs of the SETTINGS synchronisation\<close>



text \<open>The settings applied, the settings sent and the acknowledgements sent, in the order of the effects.\<close>

definition applied_local :: "effect list \<Rightarrow> Settings list" where
  "applied_local es = concat (map (\<lambda>e. case e of ApplyLocal s \<Rightarrow> [s] | _ \<Rightarrow> []) es)"

definition applied_remote :: "effect list \<Rightarrow> Settings list" where
  "applied_remote es = concat (map (\<lambda>e. case e of ApplyRemote s \<Rightarrow> [s] | _ \<Rightarrow> []) es)"

definition sent_settings :: "effect list \<Rightarrow> Settings list" where
  "sent_settings es = concat (map (\<lambda>e. case e of BufferSettings s \<Rightarrow> if Settings_is_ack s then [] else [s] | _ \<Rightarrow> []) es)"

definition acks_sent :: "effect list \<Rightarrow> nat" where
  "acks_sent es = length (filter (\<lambda>e. e = BufferSettings Settings_ack) es)"




lemmas effect_defs = applied_local_def applied_remote_def sent_settings_def acks_sent_def

lemma Settings_ack_is_ack [simp]: "Settings_is_ack Settings_ack"
  by (simp add: Settings_is_ack_def Settings_ack_def SettingsFlags_is_ack_def)

lemma effects_append [simp]:
  "applied_local (es @ fs) = applied_local es @ applied_local fs"
  "applied_remote (es @ fs) = applied_remote es @ applied_remote fs"
  "sent_settings (es @ fs) = sent_settings es @ sent_settings fs"
  "acks_sent (es @ fs) = acks_sent es + acks_sent fs"
  by (simp_all add: effect_defs)

lemma effects_nil [simp]:
  "applied_local [] = []" "applied_remote [] = []" "sent_settings [] = []" "acks_sent [] = 0"
  by (simp_all add: effect_defs)









section \<open>Concurrent user pings\<close>

text \<open>
  The user's half and the connection's half of a ping run on different threads.  The shared word is
  read and written by atomic operations, one per step; \<^verbatim>\<open>send_pending_ping\<close> loads the word, buffers the frame, and stores
  the word, so steps of the user can fall in between (\<open>writing\<close>).  The counters record what happened:
  pings accepted from the user, PING frames written, pongs taken from the peer, pongs
  reported to the user.
\<close>

record ping_sys =
  word :: nat
  writing :: bool
  requested :: nat
  written :: nat
  answered :: nat
  reported :: nat

definition ping_init :: ping_sys where
  "ping_init = \<lparr>word = USER_STATE_EMPTY, writing = False, requested = 0, written = 0, answered = 0, reported = 0\<rparr>"

inductive ping_step :: "ping_sys \<Rightarrow> ping_sys \<Rightarrow> bool" where
  user_send: "send_ping (word s) = (r, w) \<Longrightarrow>
    ping_step s (s\<lparr>word := w, requested := requested s + (if r = Ok () then 1 else 0)\<rparr>)"
| user_poll: "poll_pong (word s) = (r, w) \<Longrightarrow>
    ping_step s (s\<lparr>word := w, reported := reported s + (if r = Ready (Ok ()) then 1 else 0)\<rparr>)"
| conn_load: "word s = USER_STATE_PENDING_PING \<Longrightarrow> \<not> writing s \<Longrightarrow>
    ping_step s (s\<lparr>writing := True, written := written s + 1\<rparr>)"
| conn_store: "writing s \<Longrightarrow> ping_step s (s\<lparr>word := USER_STATE_PENDING_PONG, writing := False\<rparr>)"
| conn_pong: "\<not> writing s \<Longrightarrow> receive_pong (word s) = (b, w) \<Longrightarrow>
    ping_step s (s\<lparr>word := w, answered := answered s + (if b then 1 else 0)\<rparr>)"
| conn_drop: "\<not> writing s \<Longrightarrow> ping_step s (s\<lparr>word := USER_STATE_CLOSED\<rparr>)"

definition ping_inv :: "ping_sys \<Rightarrow> bool" where
  "ping_inv s \<longleftrightarrow>
     (if word s = USER_STATE_EMPTY then
        \<not> writing s \<and> requested s = written s \<and> written s = answered s \<and> answered s = reported s
      else if word s = USER_STATE_PENDING_PING then
        requested s = reported s + 1 \<and> answered s = reported s \<and> written s = reported s + (if writing s then 1 else 0)
      else if word s = USER_STATE_PENDING_PONG then
        \<not> writing s \<and> requested s = reported s + 1 \<and> written s = requested s \<and> answered s = reported s
      else if word s = USER_STATE_RECEIVED_PONG then
        \<not> writing s \<and> requested s = reported s + 1 \<and> written s = requested s \<and> answered s = requested s
      else word s = USER_STATE_CLOSED \<and> \<not> writing s \<and>
        reported s \<le> answered s \<and> answered s \<le> written s \<and> written s \<le> requested s \<and> requested s \<le> reported s + 1)"

lemmas ping_op_defs = send_ping_def poll_pong_def receive_pong_def compare_and_swap_def

lemma ping_step_inv: "ping_step s s' \<Longrightarrow> ping_inv s \<Longrightarrow> ping_inv s'"
  by (induction rule: ping_step.induct)
    (auto simp: ping_inv_def ping_op_defs user_state_defs split: if_splits)

text \<open>
  C25: however the user's calls and the connection's steps interleave, at most one ping is under way: no
  more PING frames are written than the user requested, no pong is taken that no PING was written
  for, none is reported to the user that was not received, and a new ping is only accepted
  when the last pong was reported.
\<close>

theorem user_pings_in_lockstep:
  assumes "ping_step\<^sup>*\<^sup>* ping_init s"
  shows "reported s \<le> answered s \<and> answered s \<le> written s \<and> written s \<le> requested s \<and> requested s \<le> reported s + 1 \<and>
    (fst (send_ping (word s)) = Ok () \<longrightarrow> requested s = reported s)"
proof -
  have "ping_inv ping_init" by (simp add: ping_inv_def ping_init_def user_state_defs)
  with assms have "ping_inv s" by (induction rule: rtranclp_induct) (blast intro: ping_step_inv)+
  then show ?thesis by (auto simp: ping_inv_def ping_op_defs user_state_defs split: if_splits)
qed

text \<open>A ping that is written while the user polls for the pong.\<close>

theorem user_pings_in_lockstep_witness:
  "\<exists>s. ping_step\<^sup>*\<^sup>* ping_init s \<and> written s = 1 \<and> requested s = 1 \<and> answered s \<le> 1"
proof -
  let ?s1 = "ping_init\<lparr>word := USER_STATE_PENDING_PING, requested := 1\<rparr>"
  let ?s2 = "?s1\<lparr>writing := True, written := 1\<rparr>"
  have "ping_step ping_init ?s1"
    using user_send [of ping_init "Ok ()" USER_STATE_PENDING_PING] by (simp add: ping_init_def ping_op_defs)
  moreover have "ping_step ?s1 ?s2"
    using conn_load [of ?s1] by (simp add: ping_init_def)
  moreover have "ping_step ?s2 (?s2\<lparr>word := USER_STATE_PENDING_PONG, writing := False\<rparr>)"
    using conn_store [of ?s2] by simp
  ultimately have run: "ping_step\<^sup>*\<^sup>* ping_init (?s2\<lparr>word := USER_STATE_PENDING_PONG, writing := False\<rparr>)"
    by (meson converse_rtranclp_into_rtranclp rtranclp.rtrancl_refl)
  show ?thesis
    using user_pings_in_lockstep [OF run] run by (intro exI conjI) (assumption | simp add: ping_init_def)+
qed

end
