(* ===== verification/Utf8.thy ===== *)
theory Utf8
  imports Prelude
begin

text \<open>
  Text of the standard library: ASCII literals as bytes, the validity of UTF-8 (\<^verbatim>\<open>std::str::from_utf8\<close>) and the
  conversion that replaces what is not valid (\<^verbatim>\<open>String::from_utf8_lossy\<close>).
\<close>

section \<open>Strings\<close>

definition ascii :: "string \<Rightarrow> bytes" where
  "ascii = map of_char"

text \<open>\<^verbatim>\<open>std::str::from_utf8\<close>: well-formed UTF-8, by the table of the Unicode standard.\<close>

definition utf8_cont :: "u8 \<Rightarrow> bool" where
  "utf8_cont b \<longleftrightarrow> 0x80 \<le> b \<and> b \<le> 0xBF"

definition utf8_second :: "u8 \<Rightarrow> u8 \<Rightarrow> bool" where
  "utf8_second b c \<longleftrightarrow>
     (if b = 0xE0 then 0xA0 \<le> c \<and> c \<le> 0xBF
      else if b = 0xED then 0x80 \<le> c \<and> c \<le> 0x9F
      else if b = 0xF0 then 0x90 \<le> c \<and> c \<le> 0xBF
      else if b = 0xF4 then 0x80 \<le> c \<and> c \<le> 0x8F
      else utf8_cont c)"

fun from_utf8 :: "bytes \<Rightarrow> bool" where
  "from_utf8 [] = True"
| "from_utf8 (b # bs) =
     (if b < 0x80 then from_utf8 bs
      else if 0xC2 \<le> b \<and> b \<le> 0xDF then
        (case bs of c1 # bs \<Rightarrow> utf8_cont c1 \<and> from_utf8 bs | _ \<Rightarrow> False)
      else if 0xE0 \<le> b \<and> b \<le> 0xEF then
        (case bs of c1 # c2 # bs \<Rightarrow> utf8_second b c1 \<and> utf8_cont c2 \<and> from_utf8 bs | _ \<Rightarrow> False)
      else if 0xF0 \<le> b \<and> b \<le> 0xF4 then
        (case bs of c1 # c2 # c3 # bs \<Rightarrow> utf8_second b c1 \<and> utf8_cont c2 \<and> utf8_cont c3 \<and> from_utf8 bs | _ \<Rightarrow> False)
      else False)"

text \<open>\<^verbatim>\<open>String::from_utf8_lossy\<close>: each maximal invalid part becomes the replacement character.\<close>

definition replacement :: bytes where
  "replacement = [0xEF, 0xBF, 0xBD]"

fun from_utf8_lossy :: "bytes \<Rightarrow> bytes" where
  "from_utf8_lossy [] = []"
| "from_utf8_lossy (b # bs) =
     (if b < 0x80 then b # from_utf8_lossy bs
      else if 0xC2 \<le> b \<and> b \<le> 0xDF then
        (case bs of
           c1 # cs \<Rightarrow> if utf8_cont c1 then b # c1 # from_utf8_lossy cs else replacement @ from_utf8_lossy bs
         | [] \<Rightarrow> replacement)
      else if 0xE0 \<le> b \<and> b \<le> 0xEF then
        (case bs of
           c1 # cs \<Rightarrow>
             if utf8_second b c1 then
               (case cs of
                  c2 # ds \<Rightarrow> if utf8_cont c2 then b # c1 # c2 # from_utf8_lossy ds else replacement @ from_utf8_lossy cs
                | [] \<Rightarrow> replacement)
             else replacement @ from_utf8_lossy bs
         | [] \<Rightarrow> replacement)
      else if 0xF0 \<le> b \<and> b \<le> 0xF4 then
        (case bs of
           c1 # cs \<Rightarrow>
             if utf8_second b c1 then
               (case cs of
                  c2 # ds \<Rightarrow>
                    if utf8_cont c2 then
                      (case ds of
                         c3 # es \<Rightarrow>
                           if utf8_cont c3 then b # c1 # c2 # c3 # from_utf8_lossy es else replacement @ from_utf8_lossy ds
                       | [] \<Rightarrow> replacement)
                    else replacement @ from_utf8_lossy cs
                | [] \<Rightarrow> replacement)
             else replacement @ from_utf8_lossy bs
         | [] \<Rightarrow> replacement)
      else replacement @ from_utf8_lossy bs)"

lemma from_utf8_lossy_valid: "from_utf8 bs \<Longrightarrow> from_utf8_lossy bs = bs"
proof (induction bs rule: from_utf8.induct)
  case (2 b bs)
  consider "b < 0x80" | "\<not> b < 0x80" "0xC2 \<le> b \<and> b \<le> 0xDF" | "\<not> b < 0x80" "\<not> (0xC2 \<le> b \<and> b \<le> 0xDF)" "0xE0 \<le> b \<and> b \<le> 0xEF"
    | "\<not> b < 0x80" "\<not> (0xC2 \<le> b \<and> b \<le> 0xDF)" "\<not> (0xE0 \<le> b \<and> b \<le> 0xEF)" "0xF0 \<le> b \<and> b \<le> 0xF4"
    using 2(5) by (simp split: if_splits)
  then show ?case
  proof cases
    case 1
    then show ?thesis using 2(1,5) by simp
  next
    case c: 2
    obtain c1 cs where bs: "bs = c1 # cs" using c 2(5) by (cases bs) simp_all
    show ?thesis using 2(2) [OF c bs] 2(5) c unfolding bs by (subst from_utf8_lossy.simps(2)) (auto simp del: from_utf8_lossy.simps(2))
  next
    case c: 3
    obtain c1 c2 cs where bs: "bs = c1 # c2 # cs" using c 2(5) by (cases bs rule: from_utf8.cases; simp split: list.splits)
    show ?thesis using 2(3) [OF c bs refl] 2(5) c unfolding bs by (subst from_utf8_lossy.simps(2)) (auto simp del: from_utf8_lossy.simps(2))
  next
    case c: 4
    obtain c1 c2 c3 cs where bs: "bs = c1 # c2 # c3 # cs" using c 2(5) by (auto split: if_splits list.splits)
    show ?thesis using 2(4) [OF c bs refl refl] 2(5) c unfolding bs by (subst from_utf8_lossy.simps(2)) (auto simp del: from_utf8_lossy.simps(2))
  qed
qed simp

end
