(* ===== verification/Hpack_Header.thy ===== *)
theory Hpack_Header
  imports H2_Base Utf8
begin

unbundle bit_operations_syntax

text \<open>
  Header fields of src/http/h2/hpack/header.rs, with the checks that a decoded name and value go through.
  The types of the http crate are its byte representations; its constants and its constructors that
  validate are the fields of \<open>http_ops\<close>, with their documented laws in the locale \<open>http_types\<close>.
\<close>

section \<open>The http crate\<close>

text \<open>The header names the crate has as constants and this code refers to.\<close>

datatype StdHeader =
     ACCEPT_CHARSET | ACCEPT_ENCODING | ACCEPT_LANGUAGE | ACCEPT_RANGES | ACCEPT | ACCESS_CONTROL_ALLOW_ORIGIN
     | AGE | ALLOW | AUTHORIZATION | CACHE_CONTROL | CONTENT_DISPOSITION | CONTENT_ENCODING | CONTENT_LANGUAGE
     | CONTENT_LENGTH | CONTENT_LOCATION | CONTENT_RANGE | CONTENT_TYPE | COOKIE | DATE | ETAG | EXPECT
     | EXPIRES | FROM | HOST | IF_MATCH | IF_MODIFIED_SINCE | IF_NONE_MATCH | IF_RANGE | IF_UNMODIFIED_SINCE
     | LAST_MODIFIED | LINK | LOCATION | MAX_FORWARDS | PROXY_AUTHENTICATE | PROXY_AUTHORIZATION | RANGE
     | REFERER | REFRESH | RETRY_AFTER | SERVER | SET_COOKIE | STRICT_TRANSPORT_SECURITY | TRANSFER_ENCODING
     | USER_AGENT | VARY | VIA | WWW_AUTHENTICATE

datatype StdStatus = ST_OK | ST_NO_CONTENT | ST_PARTIAL_CONTENT | ST_NOT_MODIFIED | ST_BAD_REQUEST | ST_NOT_FOUND
  | ST_INTERNAL_SERVER_ERROR

record http_ops =
  hn_const :: "StdHeader \<Rightarrow> bytes"
  hn_from_lowercase :: "bytes \<Rightarrow> bytes option"
  hv_from_bytes :: "bytes \<Rightarrow> bytes option"
  method_GET :: bytes
  method_POST :: bytes
  method_from_bytes :: "bytes \<Rightarrow> bytes option"
  status_const :: "StdStatus \<Rightarrow> u16"
  status_from_bytes :: "bytes \<Rightarrow> u16 option"
  status_as_str :: "u16 \<Rightarrow> bytes"

record HeaderValue =
  hv_bytes :: bytes
  hv_sensitive :: bool

definition hv_from_static :: "string \<Rightarrow> HeaderValue" where
  "hv_from_static s = \<lparr>hv_bytes = ascii s, hv_sensitive = False\<rparr>"

text \<open>Values are equal when their bytes are.\<close>

definition hv_eq :: "HeaderValue \<Rightarrow> HeaderValue \<Rightarrow> bool" where
  "hv_eq a b \<longleftrightarrow> hv_bytes a = hv_bytes b"

section \<open>Headers\<close>

datatype 'n GHeader =
    Field 'n HeaderValue
  | Authority bytes
  | Method bytes
  | Scheme bytes
  | Path bytes
  | Status u16

type_synonym Header = "bytes GHeader"

datatype Name = NField bytes | NAuthority | NMethod | NScheme | NPath | NStatus

definition header_field_len :: "bytes \<Rightarrow> HeaderValue \<Rightarrow> nat" where
  "header_field_len name val = 32 + length name + length (hv_bytes val)"

primrec reify :: "bytes option GHeader \<Rightarrow> (Header, HeaderValue) result" where
  "reify (Field name val) = (case name of Some n \<Rightarrow> Ok (Field n val) | None \<Rightarrow> Err val)"
| "reify (Authority v) = Ok (Authority v)"
| "reify (Method v) = Ok (Method v)"
| "reify (Scheme v) = Ok (Scheme v)"
| "reify (Path v) = Ok (Path v)"
| "reify (Status v) = Ok (Status v)"

definition BytesStr_try_from :: "bytes \<Rightarrow> (bytes, DecoderError) result" where
  "BytesStr_try_from bs = (if from_utf8 bs then Ok bs else Err InvalidUtf8)"

text \<open>The conversions of the crate's errors: they all become \<open>InvalidUtf8\<close>.\<close>

definition or_invalid :: "'a option \<Rightarrow> ('a, DecoderError) result" where
  "or_invalid x = (case x of Some v \<Rightarrow> Ok v | None \<Rightarrow> Err InvalidUtf8)"

definition Header_new :: "http_ops \<Rightarrow> bytes \<Rightarrow> bytes \<Rightarrow> (Header, DecoderError) result" where
  "Header_new H name val =
     (if name = [] then Err (NeedMore UnexpectedEndOfStream)
      else if hd name = 0x3A then
        if tl name = ascii ''authority'' then bind_ok (BytesStr_try_from val) (\<lambda>v. Ok (Authority v))
        else if tl name = ascii ''method'' then bind_ok (or_invalid (method_from_bytes H val)) (\<lambda>v. Ok (Method v))
        else if tl name = ascii ''scheme'' then bind_ok (BytesStr_try_from val) (\<lambda>v. Ok (Scheme v))
        else if tl name = ascii ''path'' then bind_ok (BytesStr_try_from val) (\<lambda>v. Ok (Path v))
        else if tl name = ascii ''status'' then bind_ok (or_invalid (status_from_bytes H val)) (\<lambda>v. Ok (Status v))
        else Err InvalidPseudoheader
      else
        bind_ok (or_invalid (hn_from_lowercase H name)) (\<lambda>n.
        bind_ok (or_invalid (hv_from_bytes H val)) (\<lambda>v.
        Ok (Field n \<lparr>hv_bytes = v, hv_sensitive = False\<rparr>))))"

primrec header_len :: "Header \<Rightarrow> nat" where
  "header_len (Field name val) = header_field_len name val"
| "header_len (Authority v) = 32 + 10 + length v"
| "header_len (Method v) = 32 + 7 + length v"
| "header_len (Scheme v) = 32 + 7 + length v"
| "header_len (Path v) = 32 + 5 + length v"
| "header_len (Status v) = 32 + 7 + 3"

primrec header_name :: "Header \<Rightarrow> Name" where
  "header_name (Field name val) = NField name"
| "header_name (Authority v) = NAuthority"
| "header_name (Method v) = NMethod"
| "header_name (Scheme v) = NScheme"
| "header_name (Path v) = NPath"
| "header_name (Status v) = NStatus"

primrec value_slice :: "http_ops \<Rightarrow> Header \<Rightarrow> bytes" where
  "value_slice H (Field name val) = hv_bytes val"
| "value_slice H (Authority v) = v"
| "value_slice H (Method v) = v"
| "value_slice H (Scheme v) = v"
| "value_slice H (Path v) = v"
| "value_slice H (Status v) = status_as_str H v"

fun value_eq :: "Header \<Rightarrow> Header \<Rightarrow> bool" where
  "value_eq (Field _ a) (Field _ b) = hv_eq a b"
| "value_eq (Authority a) (Authority b) = (a = b)"
| "value_eq (Method a) (Method b) = (a = b)"
| "value_eq (Scheme a) (Scheme b) = (a = b)"
| "value_eq (Path a) (Path b) = (a = b)"
| "value_eq (Status a) (Status b) = (a = b)"
| "value_eq _ _ = False"

fun is_sensitive :: "Header \<Rightarrow> bool" where
  "is_sensitive (Field _ v) = hv_sensitive v"
| "is_sensitive _ = False"

fun skip_value_index :: "http_ops \<Rightarrow> Header \<Rightarrow> bool" where
  "skip_value_index H (Field name _) =
     (name \<in> set (map (hn_const H)
        [AGE, AUTHORIZATION, CONTENT_LENGTH, ETAG, IF_MODIFIED_SINCE, IF_NONE_MATCH, LOCATION, COOKIE, SET_COOKIE]))"
| "skip_value_index H (Path _) = True"
| "skip_value_index H _ = False"

primrec into_entry :: "http_ops \<Rightarrow> Name \<Rightarrow> bytes \<Rightarrow> (Header, DecoderError) result" where
  "into_entry H (NField name) val =
     bind_ok (or_invalid (hv_from_bytes H val)) (\<lambda>v. Ok (Field name \<lparr>hv_bytes = v, hv_sensitive = False\<rparr>))"
| "into_entry H NAuthority val = bind_ok (BytesStr_try_from val) (\<lambda>v. Ok (Authority v))"
| "into_entry H NMethod val = bind_ok (or_invalid (method_from_bytes H val)) (\<lambda>v. Ok (Method v))"
| "into_entry H NScheme val = bind_ok (BytesStr_try_from val) (\<lambda>v. Ok (Scheme v))"
| "into_entry H NPath val = bind_ok (BytesStr_try_from val) (\<lambda>v. Ok (Path v))"
| "into_entry H NStatus val =
     (case status_from_bytes H val of Some s \<Rightarrow> Ok (Status s) | None \<Rightarrow> Err InvalidStatusCode)"

primrec name_as_slice :: "Name \<Rightarrow> bytes" where
  "name_as_slice (NField name) = name"
| "name_as_slice NAuthority = ascii '':authority''"
| "name_as_slice NMethod = ascii '':method''"
| "name_as_slice NScheme = ascii '':scheme''"
| "name_as_slice NPath = ascii '':path''"
| "name_as_slice NStatus = ascii '':status''"

section \<open>The laws of the http crate\<close>

text \<open>
  The documented behaviour the codec relies on: a name, value or method that is accepted is kept byte
  for byte; visible ASCII makes a value; the constants are distinct names the constructor accepts, no name is empty or starts with a
  colon; a status between 100 and 999 prints as its three digits and parses back.
\<close>

locale http_types =
  fixes H :: http_ops
  assumes hn_const_inj: "hn_const H c = hn_const H d \<Longrightarrow> c = d"
    and hn_const_valid: "hn_from_lowercase H (hn_const H c) = Some (hn_const H c)"
    and hn_kept: "hn_from_lowercase H bs = Some n \<Longrightarrow> n = bs \<and> bs \<noteq> [] \<and> hd bs \<noteq> 0x3A"
    and hv_kept: "hv_from_bytes H bs = Some v \<Longrightarrow> v = bs"
    and hv_visible: "list_all (\<lambda>b. 32 \<le> b \<and> b < 127) bs \<Longrightarrow> hv_from_bytes H bs = Some bs"
    and method_kept: "method_from_bytes H bs = Some v \<Longrightarrow> v = bs"
    and methods: "method_from_bytes H (method_GET H) = Some (method_GET H)"
      "method_from_bytes H (method_POST H) = Some (method_POST H)" "method_GET H \<noteq> method_POST H"
    and status_consts: "status_const H ST_OK = 200" "status_const H ST_NO_CONTENT = 204"
      "status_const H ST_PARTIAL_CONTENT = 206" "status_const H ST_NOT_MODIFIED = 304"
      "status_const H ST_BAD_REQUEST = 400" "status_const H ST_NOT_FOUND = 404"
      "status_const H ST_INTERNAL_SERVER_ERROR = 500"
    and status_print: "100 \<le> s \<Longrightarrow> s < 1000 \<Longrightarrow>
      status_from_bytes H (status_as_str H s) = Some s \<and> length (status_as_str H s) = 3"
    and status_range: "status_from_bytes H bs = Some s \<Longrightarrow> 100 \<le> s \<and> s < 1000"

text \<open>Headers as the constructors of the crate make them.\<close>

primrec valid_header :: "http_ops \<Rightarrow> Header \<Rightarrow> bool" where
  "valid_header H (Field name val) \<longleftrightarrow>
     hn_from_lowercase H name = Some name \<and> hv_from_bytes H (hv_bytes val) = Some (hv_bytes val)"
| "valid_header H (Authority v) \<longleftrightarrow> from_utf8 v"
| "valid_header H (Method v) \<longleftrightarrow> method_from_bytes H v = Some v"
| "valid_header H (Scheme v) \<longleftrightarrow> from_utf8 v"
| "valid_header H (Path v) \<longleftrightarrow> from_utf8 v"
| "valid_header H (Status v) \<longleftrightarrow> 100 \<le> v \<and> v < 1000"

text \<open>What the wire carries of a header: everything but the sensitive mark.\<close>

primrec plain_header :: "Header \<Rightarrow> Header" where
  "plain_header (Field name val) = Field name (val\<lparr>hv_sensitive := False\<rparr>)"
| "plain_header (Authority v) = Authority v"
| "plain_header (Method v) = Method v"
| "plain_header (Scheme v) = Scheme v"
| "plain_header (Path v) = Path v"
| "plain_header (Status v) = Status v"

lemma plain_header_len [simp]: "header_len (plain_header h) = header_len h"
  by (cases h) (simp_all add: header_field_len_def)

lemma plain_header_name [simp]: "header_name (plain_header h) = header_name h"
  by (cases h) simp_all

lemma plain_header_plain [simp]: "plain_header (plain_header h) = plain_header h"
  by (cases h) simp_all

lemma value_eq_plain:
  "header_name a = header_name b \<Longrightarrow> value_eq a b \<longleftrightarrow> plain_header a = plain_header b"
  by (cases a; cases b) (auto simp: hv_eq_def dest: arg_cong [where f = hv_bytes])

context http_types
begin

lemma into_entry_value:
  "valid_header H h \<Longrightarrow> into_entry H (header_name h) (value_slice H h) = Ok (plain_header h)"
  by (cases h) (auto simp: or_invalid_def BytesStr_try_from_def status_print)

lemma accepted_again:
  "hn_from_lowercase H bs = Some n \<Longrightarrow> hn_from_lowercase H n = Some n"
  "hv_from_bytes H bs = Some v \<Longrightarrow> hv_from_bytes H v = Some v"
  "method_from_bytes H bs = Some v \<Longrightarrow> method_from_bytes H v = Some v"
  using hn_kept hv_kept method_kept by metis+

lemma into_entry_valid:
  "into_entry H (header_name e) val = Ok h \<Longrightarrow> valid_header H e \<Longrightarrow> valid_header H h"
  by (cases e) (auto simp: bind_ok_eq_Ok or_invalid_def BytesStr_try_from_def
      dest: accepted_again status_range split: option.splits if_splits)

lemma Header_new_valid: "Header_new H name val = Ok h \<Longrightarrow> valid_header H h"
  by (auto simp: Header_new_def bind_ok_eq_Ok or_invalid_def BytesStr_try_from_def
      dest: accepted_again status_range split: option.splits if_splits)

lemma Header_new_parts:
  assumes "valid_header H h"
  shows "Header_new H (name_as_slice (header_name h)) (value_slice H h) = Ok (plain_header h)"
proof (cases h)
  case (Field n v)
  then show ?thesis using assms hn_kept [of n n] by (auto simp: Header_new_def or_invalid_def)
qed (use assms in \<open>auto simp: Header_new_def ascii_def or_invalid_def BytesStr_try_from_def status_print\<close>)

end

section \<open>The crate's documented tables\<close>

primrec std_name :: "StdHeader \<Rightarrow> string" where
  "std_name ACCEPT_CHARSET = ''accept-charset''"
| "std_name ACCEPT_ENCODING = ''accept-encoding''"
| "std_name ACCEPT_LANGUAGE = ''accept-language''"
| "std_name ACCEPT_RANGES = ''accept-ranges''"
| "std_name ACCEPT = ''accept''"
| "std_name ACCESS_CONTROL_ALLOW_ORIGIN = ''access-control-allow-origin''"
| "std_name AGE = ''age''"
| "std_name ALLOW = ''allow''"
| "std_name AUTHORIZATION = ''authorization''"
| "std_name CACHE_CONTROL = ''cache-control''"
| "std_name CONTENT_DISPOSITION = ''content-disposition''"
| "std_name CONTENT_ENCODING = ''content-encoding''"
| "std_name CONTENT_LANGUAGE = ''content-language''"
| "std_name CONTENT_LENGTH = ''content-length''"
| "std_name CONTENT_LOCATION = ''content-location''"
| "std_name CONTENT_RANGE = ''content-range''"
| "std_name CONTENT_TYPE = ''content-type''"
| "std_name COOKIE = ''cookie''"
| "std_name DATE = ''date''"
| "std_name ETAG = ''etag''"
| "std_name EXPECT = ''expect''"
| "std_name EXPIRES = ''expires''"
| "std_name FROM = ''from''"
| "std_name HOST = ''host''"
| "std_name IF_MATCH = ''if-match''"
| "std_name IF_MODIFIED_SINCE = ''if-modified-since''"
| "std_name IF_NONE_MATCH = ''if-none-match''"
| "std_name IF_RANGE = ''if-range''"
| "std_name IF_UNMODIFIED_SINCE = ''if-unmodified-since''"
| "std_name LAST_MODIFIED = ''last-modified''"
| "std_name LINK = ''link''"
| "std_name LOCATION = ''location''"
| "std_name MAX_FORWARDS = ''max-forwards''"
| "std_name PROXY_AUTHENTICATE = ''proxy-authenticate''"
| "std_name PROXY_AUTHORIZATION = ''proxy-authorization''"
| "std_name RANGE = ''range''"
| "std_name REFERER = ''referer''"
| "std_name REFRESH = ''refresh''"
| "std_name RETRY_AFTER = ''retry-after''"
| "std_name SERVER = ''server''"
| "std_name SET_COOKIE = ''set-cookie''"
| "std_name STRICT_TRANSPORT_SECURITY = ''strict-transport-security''"
| "std_name TRANSFER_ENCODING = ''transfer-encoding''"
| "std_name USER_AGENT = ''user-agent''"
| "std_name VARY = ''vary''"
| "std_name VIA = ''via''"
| "std_name WWW_AUTHENTICATE = ''www-authenticate''"

definition std_headers :: "StdHeader list" where
  "std_headers =
    [ACCEPT_CHARSET, ACCEPT_ENCODING, ACCEPT_LANGUAGE, ACCEPT_RANGES, ACCEPT, ACCESS_CONTROL_ALLOW_ORIGIN, AGE
     , ALLOW, AUTHORIZATION, CACHE_CONTROL, CONTENT_DISPOSITION, CONTENT_ENCODING, CONTENT_LANGUAGE
     , CONTENT_LENGTH, CONTENT_LOCATION, CONTENT_RANGE, CONTENT_TYPE, COOKIE, DATE, ETAG, EXPECT, EXPIRES
     , FROM, HOST, IF_MATCH, IF_MODIFIED_SINCE, IF_NONE_MATCH, IF_RANGE, IF_UNMODIFIED_SINCE, LAST_MODIFIED
     , LINK, LOCATION, MAX_FORWARDS, PROXY_AUTHENTICATE, PROXY_AUTHORIZATION, RANGE, REFERER, REFRESH
     , RETRY_AFTER, SERVER, SET_COOKIE, STRICT_TRANSPORT_SECURITY, TRANSFER_ENCODING, USER_AGENT, VARY, VIA
     , WWW_AUTHENTICATE]"

text \<open>The characters of a lower-case token.\<close>

definition token_char :: "u8 \<Rightarrow> bool" where
  "token_char b \<longleftrightarrow> (0x61 \<le> b \<and> b \<le> 0x7A) \<or> (0x30 \<le> b \<and> b \<le> 0x39) \<or> b \<in> set (ascii ''!#$%&*+-.^_|~'') \<or> b = 0x27 \<or> b = 0x60"

definition method_char :: "u8 \<Rightarrow> bool" where
  "method_char b \<longleftrightarrow> token_char b \<or> (0x41 \<le> b \<and> b \<le> 0x5A)"

definition value_char :: "u8 \<Rightarrow> bool" where
  "value_char b \<longleftrightarrow> 32 \<le> b \<and> b \<noteq> 127 \<or> b = 9"

definition digit :: "nat \<Rightarrow> u8" where
  "digit n = of_nat (48 + n)"

definition std_status :: "bytes \<Rightarrow> u16 option" where
  "std_status bs = (case bs of
     [a, b, c] \<Rightarrow>
       if 0x31 \<le> a \<and> a \<le> 0x39 \<and> 0x30 \<le> b \<and> b \<le> 0x39 \<and> 0x30 \<le> c \<and> c \<le> 0x39
       then Some (of_nat ((unat a - 48) * 100 + (unat b - 48) * 10 + (unat c - 48)))
       else None
   | _ \<Rightarrow> None)"

definition std_http :: http_ops where
  "std_http = \<lparr>
     hn_const = \<lambda>c. ascii (std_name c),
     hn_from_lowercase = \<lambda>bs. if bs \<noteq> [] \<and> list_all token_char bs then Some bs else None,
     hv_from_bytes = \<lambda>bs. if list_all value_char bs then Some bs else None,
     method_GET = ascii ''GET'',
     method_POST = ascii ''POST'',
     method_from_bytes = \<lambda>bs. if bs \<noteq> [] \<and> list_all method_char bs then Some bs else None,
     status_const = case_StdStatus 200 204 206 304 400 404 500,
     status_from_bytes = std_status,
     status_as_str = \<lambda>s. [digit (unat s div 100), digit (unat s div 10 mod 10), digit (unat s mod 10)]\<rparr>"

lemma std_headers_all: "c \<in> set std_headers"
  by (cases c) (simp_all add: std_headers_def)

lemma std_names_distinct: "distinct (map (\<lambda>c. ascii (std_name c)) std_headers)"
  by code_simp

lemma std_names_valid: "list_all (\<lambda>c. list_all token_char (ascii (std_name c))) std_headers"
  by code_simp

lemma unat_digit: "n < 10 \<Longrightarrow> unat (digit n) = 48 + n"
  unfolding digit_def unat_of_nat by simp

lemma pos_mod_bound_9: "n mod 10 \<le> (9 :: nat)"
  using mod_less_divisor [of 10 n] by linarith

lemma std_status_print:
  assumes "100 \<le> s" and "s < 1000"
  shows "std_status [digit (unat s div 100), digit (unat s div 10 mod 10), digit (unat s mod 10)] = Some s"
proof -
  have s: "100 \<le> unat s" "unat s < 1000" using assms by (simp_all add: word_le_nat_alt word_less_nat_alt)
  then have d: "1 \<le> unat s div 100" "unat s div 100 < 10" by auto
  have "unat s div 100 = unat s div 10 div 10" by (simp add: div_mult2_eq [symmetric])
  then have "unat s div 100 * 100 + unat s div 10 mod 10 * 10 + unat s mod 10 = unat s"
    using div_mult_mod_eq [of "unat s" 10] div_mult_mod_eq [of "unat s div 10" 10]
    by linarith
  then show ?thesis
    using d pos_mod_bound_9 [of "unat s div 10"] pos_mod_bound_9 [of "unat s"]
    by (simp add: std_status_def word_le_nat_alt unat_digit)
qed

lemma std_status_range:
  assumes "std_status bs = Some s"
  shows "100 \<le> s \<and> s < 1000"
proof -
  obtain a b c where "bs = [a, b, c]" using assms by (auto simp: std_status_def split: list.splits)
  then have r: "0x31 \<le> a" "a \<le> 0x39" "0x30 \<le> b" "b \<le> 0x39" "0x30 \<le> c" "c \<le> 0x39"
    and s: "s = of_nat ((unat a - 48) * 100 + (unat b - 48) * 10 + (unat c - 48))"
    using assms by (simp_all add: std_status_def del: of_nat_add of_nat_mult split: if_splits)
  have "unat s = (unat a - 48) * 100 + (unat b - 48) * 10 + (unat c - 48)"
    using r unfolding s unat_of_nat word_le_nat_alt by simp
  then show ?thesis using r by (simp add: word_le_nat_alt word_less_nat_alt) linarith
qed

interpretation std_http: http_types std_http
proof
  show "c = d" if "hn_const std_http c = hn_const std_http d" for c d
    using that std_names_distinct std_headers_all [of c] std_headers_all [of d]
    by (auto simp: std_http_def distinct_map dest: inj_onD)
  have name: "std_name c \<noteq> []" for c by (cases c) simp_all
  show "hn_from_lowercase std_http (hn_const std_http c) = Some (hn_const std_http c)" for c
    using std_names_valid std_headers_all [of c] name [of c] by (auto simp: std_http_def list_all_iff ascii_def)
  show "n = bs \<and> bs \<noteq> [] \<and> hd bs \<noteq> 0x3A" if "hn_from_lowercase std_http bs = Some n" for n bs
    using that by (cases bs) (auto simp: std_http_def token_char_def ascii_def split: if_splits)
  show "hv_from_bytes std_http bs = Some bs" if "list_all (\<lambda>b. 32 \<le> b \<and> b < 127) bs" for bs
    using that by (auto simp: std_http_def value_char_def list_all_iff)
  show "100 \<le> s \<and> s < 1000" if "status_from_bytes std_http bs = Some s" for s bs
    using that std_status_range by (simp add: std_http_def)
qed (auto simp: std_http_def std_status_print ascii_def method_char_def token_char_def split: if_splits)

end
