(* ===== verification/Hpack_Static.thy ===== *)
theory Hpack_Static
  imports Hpack_Header
begin

text \<open>
  The static table of HPACK, which the code has twice: \<^verbatim>\<open>get_static\<close> of src/http/h2/hpack/decoder.rs
  gives the entry of an index, \<^verbatim>\<open>index_static\<close> of src/http/h2/hpack/table.rs finds the index of a
  header.
\<close>

definition static_entries :: "http_ops \<Rightarrow> Header list" where
  "static_entries H =
    [Authority [], Method (method_GET H), Method (method_POST H), Path (ascii ''/'')
     , Path (ascii ''/index.html''), Scheme (ascii ''http''), Scheme (ascii ''https'')
     , Status (status_const H ST_OK), Status (status_const H ST_NO_CONTENT)
     , Status (status_const H ST_PARTIAL_CONTENT), Status (status_const H ST_NOT_MODIFIED)
     , Status (status_const H ST_BAD_REQUEST), Status (status_const H ST_NOT_FOUND)
     , Status (status_const H ST_INTERNAL_SERVER_ERROR), Field (hn_const H ACCEPT_CHARSET) (hv_from_static [])
     , Field (hn_const H ACCEPT_ENCODING) (hv_from_static ''gzip, deflate'')
     , Field (hn_const H ACCEPT_LANGUAGE) (hv_from_static [])
     , Field (hn_const H ACCEPT_RANGES) (hv_from_static []), Field (hn_const H ACCEPT) (hv_from_static [])
     , Field (hn_const H ACCESS_CONTROL_ALLOW_ORIGIN) (hv_from_static [])
     , Field (hn_const H AGE) (hv_from_static []), Field (hn_const H ALLOW) (hv_from_static [])
     , Field (hn_const H AUTHORIZATION) (hv_from_static [])
     , Field (hn_const H CACHE_CONTROL) (hv_from_static [])
     , Field (hn_const H CONTENT_DISPOSITION) (hv_from_static [])
     , Field (hn_const H CONTENT_ENCODING) (hv_from_static [])
     , Field (hn_const H CONTENT_LANGUAGE) (hv_from_static [])
     , Field (hn_const H CONTENT_LENGTH) (hv_from_static [])
     , Field (hn_const H CONTENT_LOCATION) (hv_from_static [])
     , Field (hn_const H CONTENT_RANGE) (hv_from_static [])
     , Field (hn_const H CONTENT_TYPE) (hv_from_static []), Field (hn_const H COOKIE) (hv_from_static [])
     , Field (hn_const H DATE) (hv_from_static []), Field (hn_const H ETAG) (hv_from_static [])
     , Field (hn_const H EXPECT) (hv_from_static []), Field (hn_const H EXPIRES) (hv_from_static [])
     , Field (hn_const H FROM) (hv_from_static []), Field (hn_const H HOST) (hv_from_static [])
     , Field (hn_const H IF_MATCH) (hv_from_static [])
     , Field (hn_const H IF_MODIFIED_SINCE) (hv_from_static [])
     , Field (hn_const H IF_NONE_MATCH) (hv_from_static []), Field (hn_const H IF_RANGE) (hv_from_static [])
     , Field (hn_const H IF_UNMODIFIED_SINCE) (hv_from_static [])
     , Field (hn_const H LAST_MODIFIED) (hv_from_static []), Field (hn_const H LINK) (hv_from_static [])
     , Field (hn_const H LOCATION) (hv_from_static []), Field (hn_const H MAX_FORWARDS) (hv_from_static [])
     , Field (hn_const H PROXY_AUTHENTICATE) (hv_from_static [])
     , Field (hn_const H PROXY_AUTHORIZATION) (hv_from_static [])
     , Field (hn_const H RANGE) (hv_from_static []), Field (hn_const H REFERER) (hv_from_static [])
     , Field (hn_const H REFRESH) (hv_from_static []), Field (hn_const H RETRY_AFTER) (hv_from_static [])
     , Field (hn_const H SERVER) (hv_from_static []), Field (hn_const H SET_COOKIE) (hv_from_static [])
     , Field (hn_const H STRICT_TRANSPORT_SECURITY) (hv_from_static [])
     , Field (hn_const H TRANSFER_ENCODING) (hv_from_static [])
     , Field (hn_const H USER_AGENT) (hv_from_static []), Field (hn_const H VARY) (hv_from_static [])
     , Field (hn_const H VIA) (hv_from_static []), Field (hn_const H WWW_AUTHENTICATE) (hv_from_static [])]"

definition get_static :: "http_ops \<Rightarrow> nat \<Rightarrow> Header option" where
  "get_static H idx = (if idx = 0 then None else index (static_entries H) (idx - 1))"

text \<open>The arms of the match on a field's name, in the order of the source.\<close>

definition static_names :: "(StdHeader \<times> nat) list" where
  "static_names =
    [(ACCEPT_CHARSET, 15), (ACCEPT_ENCODING, 16), (ACCEPT_LANGUAGE, 17), (ACCEPT_RANGES, 18), (ACCEPT, 19)
     , (ACCESS_CONTROL_ALLOW_ORIGIN, 20), (AGE, 21), (ALLOW, 22), (AUTHORIZATION, 23), (CACHE_CONTROL, 24)
     , (CONTENT_DISPOSITION, 25), (CONTENT_ENCODING, 26), (CONTENT_LANGUAGE, 27), (CONTENT_LENGTH, 28)
     , (CONTENT_LOCATION, 29), (CONTENT_RANGE, 30), (CONTENT_TYPE, 31), (COOKIE, 32), (DATE, 33), (ETAG, 34)
     , (EXPECT, 35), (EXPIRES, 36), (FROM, 37), (HOST, 38), (IF_MATCH, 39), (IF_MODIFIED_SINCE, 40)
     , (IF_NONE_MATCH, 41), (IF_RANGE, 42), (IF_UNMODIFIED_SINCE, 43), (LAST_MODIFIED, 44), (LINK, 45)
     , (LOCATION, 46), (MAX_FORWARDS, 47), (PROXY_AUTHENTICATE, 48), (PROXY_AUTHORIZATION, 49), (RANGE, 50)
     , (REFERER, 51), (REFRESH, 52), (RETRY_AFTER, 53), (SERVER, 54), (SET_COOKIE, 55)
     , (STRICT_TRANSPORT_SECURITY, 56), (TRANSFER_ENCODING, 57), (USER_AGENT, 58), (VARY, 59), (VIA, 60)
     , (WWW_AUTHENTICATE, 61)]"

primrec index_static :: "http_ops \<Rightarrow> Header \<Rightarrow> (nat \<times> bool) option" where
  "index_static H (Field name val) =
     (case find (\<lambda>(c, n). name = hn_const H c) static_names of
        None \<Rightarrow> None
      | Some (c, n) \<Rightarrow> Some (n, c = ACCEPT_ENCODING \<and> hv_bytes val = ascii ''gzip, deflate''))"
| "index_static H (Authority v) = Some (1, False)"
| "index_static H (Method v) =
     (if v = method_GET H then Some (2, True)
      else if v = method_POST H then Some (3, True)
      else Some (2, False))"
| "index_static H (Scheme v) =
     (if v = ascii ''http'' then Some (6, True)
      else if v = ascii ''https'' then Some (7, True)
      else Some (6, False))"
| "index_static H (Path v) =
     (if v = ascii ''/'' then Some (4, True)
      else if v = ascii ''/index.html'' then Some (5, True)
      else Some (4, False))"
| "index_static H (Status v) =
     (if v = 200 then Some (8, True)
      else if v = 204 then Some (9, True)
      else if v = 206 then Some (10, True)
      else if v = 304 then Some (11, True)
      else if v = 400 then Some (12, True)
      else if v = 404 then Some (13, True)
      else if v = 500 then Some (14, True)
      else Some (8, False))"

section \<open>The two tables agree\<close>

lemma length_static [simp]: "length (static_entries H) = 61"
  by (simp add: static_entries_def)

lemma get_static_Some: "get_static H n = Some e \<longleftrightarrow> 1 \<le> n \<and> n \<le> 61 \<and> e = static_entries H ! (n - 1)"
  by (auto simp: get_static_def index_Some)

definition names_ok :: "http_ops \<Rightarrow> StdHeader \<times> nat \<Rightarrow> bool" where
  "names_ok H = (\<lambda>(c, n). 15 \<le> n \<and> n \<le> 61 \<and>
     static_entries H ! (n - 1) = Field (hn_const H c) (hv_from_static (if c = ACCEPT_ENCODING then ''gzip, deflate'' else [])))"

lemma static_names_ok: "list_all (names_ok H) static_names"
  by (simp add: static_names_def names_ok_def static_entries_def)

lemma static_name_find:
  assumes "find (\<lambda>(c, n). name = hn_const H c) static_names = Some (c, n)"
  shows "name = hn_const H c" and "names_ok H (c, n)"
proof -
  have "(c, n) \<in> set static_names" "name = hn_const H c"
    using assms by (auto simp: find_Some_iff dest: nth_mem)
  then show "name = hn_const H c" "names_ok H (c, n)"
    using static_names_ok [of H] by (auto simp: list_all_iff)
qed

context http_types
begin

lemma index_static_entry:
  assumes "index_static H h = Some (n, full)"
  shows "\<exists>e. get_static H n = Some e \<and> header_name e = header_name h \<and> (full \<longrightarrow> plain_header h = e)"
proof (cases h)
  case (Field name v)
  then obtain c where "find (\<lambda>(c, n). name = hn_const H c) static_names = Some (c, n)"
    and f: "full \<longleftrightarrow> c = ACCEPT_ENCODING \<and> hv_bytes v = ascii ''gzip, deflate''"
    using assms by (auto split: option.splits)
  from static_name_find [OF this(1)] show ?thesis
    using Field f by (cases v) (auto simp: get_static_Some names_ok_def hv_from_static_def)
qed (use assms in \<open>auto simp: get_static_Some static_entries_def status_consts split: if_splits\<close>)

lemma static_value: "hv_from_bytes H [] = Some []" "hv_from_bytes H (ascii ''gzip, deflate'') = Some (ascii ''gzip, deflate'')"
  by (simp_all add: hv_visible ascii_def)

lemma static_valid: "get_static H n = Some e \<Longrightarrow> valid_header H e"
proof -
  have "list_all (valid_header H) (static_entries H)"
    by (simp add: static_entries_def hv_from_static_def static_value hn_const_valid methods status_consts)
      (simp_all add: ascii_def hv_visible)
  then show "get_static H n = Some e \<Longrightarrow> valid_header H e"
    by (auto simp: get_static_Some list_all_length)
qed

lemma skip_static: "skip_value_index H h \<Longrightarrow> index_static H h \<noteq> None"
proof (cases h)
  case (Field name v)
  assume "skip_value_index H h"
  then obtain c where "c \<in> set [AGE, AUTHORIZATION, CONTENT_LENGTH, ETAG, IF_MODIFIED_SINCE, IF_NONE_MATCH, LOCATION,
      COOKIE, SET_COOKIE]" and name: "name = hn_const H c"
    using Field by auto
  then have "c \<in> fst ` set static_names" unfolding static_names_def by auto
  then have "find (\<lambda>(c, n). name = hn_const H c) static_names \<noteq> None"
    using name by (auto simp: find_None_iff)
  then show ?thesis using Field by auto
qed auto

end

section \<open>Properties of the static table\<close>

text \<open>C30: The encoder's static lookup agrees with the decoder's static table: an index it gives is one of the
  61 entries, whose name is the header's, and when it reports a full match the entry is the header.  A
  header whose value must not be indexed always has its name in the table.\<close>

theorem static_tables_agree:
  assumes "http_types H"
  shows "(index_static H h = Some (n, full) \<longrightarrow>
      (\<exists>e. get_static H n = Some e \<and> header_name e = header_name h \<and> (full \<longrightarrow> plain_header h = e))) \<and>
    (skip_value_index H h \<longrightarrow> index_static H h \<noteq> None)"
  using http_types.index_static_entry [OF assms] http_types.skip_static [OF assms] by blast

theorem static_tables_agree_witness:
  "\<exists>e. get_static std_http 13 = Some e \<and> header_name e = NStatus \<and> Status 404 = e"
  using static_tables_agree [OF std_http.http_types_axioms, of "Status 404" 13 True] by simp

end
