(* ===== verification/Hpack_Int.thy ===== *)
theory Hpack_Int
  imports H2_Base
begin

unbundle bit_operations_syntax

text \<open>
  HPACK integers: \<^verbatim>\<open>encode_int\<close> of src/http/h2/hpack/encoder.rs and \<^verbatim>\<open>decode_int\<close> of
  src/http/h2/hpack/decoder.rs.  The encoder's destination is a buffer with a limit: the bytes written so
  far and the number of bytes that still fit.  A write beyond the limit panics; the encoder checks before
  it writes.  The lemmas show that what is encoded decodes to the same integer, and which integers
  do.
\<close>

section \<open>The destination\<close>

datatype EncoderError = BufferOverflow

record DstBuf =
  dst_bytes :: bytes
  remaining_mut :: nat

definition dst_put_u8 :: "u8 \<Rightarrow> DstBuf \<Rightarrow> DstBuf option" where
  "dst_put_u8 b dst =
     (if remaining_mut dst = 0 then None
      else Some \<lparr>dst_bytes = dst_bytes dst @ [b], remaining_mut = remaining_mut dst - 1\<rparr>)"

section \<open>Encoding\<close>

definition encode_int_one_byte :: "nat \<Rightarrow> nat \<Rightarrow> bool" where
  "encode_int_one_byte val prefix_bits \<longleftrightarrow> val < 2 ^ prefix_bits - 1"

fun encode_int_loop :: "nat \<Rightarrow> DstBuf \<Rightarrow> ((unit, EncoderError) result \<times> DstBuf) option" where
  "encode_int_loop val dst =
     (if val \<ge> 128 then
        if remaining_mut dst = 0 then Some (Err BufferOverflow, dst)
        else dst_put_u8 (0x80 OR of_nat val) dst \<bind> encode_int_loop (val div 128)
      else if remaining_mut dst = 0 then Some (Err BufferOverflow, dst)
      else map_option (\<lambda>d. (Ok (), d)) (dst_put_u8 (of_nat val) dst))"

declare encode_int_loop.simps [simp del]

definition encode_int :: "nat \<Rightarrow> nat \<Rightarrow> u8 \<Rightarrow> DstBuf \<Rightarrow> ((unit, EncoderError) result \<times> DstBuf) option" where
  "encode_int val prefix_bits first_byte dst =
     (if remaining_mut dst = 0 then Some (Err BufferOverflow, dst)
      else if encode_int_one_byte val prefix_bits then
        map_option (\<lambda>d. (Ok (), d)) (dst_put_u8 (first_byte OR of_nat val) dst)
      else
        let low = 2 ^ prefix_bits - 1;
            v = val - low
        in if v > 0x0fffffff then None
           else dst_put_u8 (first_byte OR of_nat low) dst \<bind> encode_int_loop v)"

section \<open>Decoding\<close>

text \<open>The bytes left after the integer; \<open>shift\<close> is the position of the next seven bits.\<close>

fun decode_int_loop :: "bytes \<Rightarrow> nat \<Rightarrow> nat \<Rightarrow> nat \<Rightarrow> (nat \<times> bytes, DecoderError) result" where
  "decode_int_loop [] nbytes ret shift = Err (NeedMore IntegerUnderflow)"
| "decode_int_loop (b # buf) nbytes ret shift =
     (let nbytes = nbytes + 1;
          ret = ret + unat (b AND 0x7f) * 2 ^ shift;
          shift = shift + 7
      in if b AND 0x80 = 0 then Ok (ret, buf)
         else if nbytes = 5 then Err IntegerOverflow
         else decode_int_loop buf nbytes ret shift)"

definition decode_int :: "bytes \<Rightarrow> nat \<Rightarrow> (nat \<times> bytes, DecoderError) result" where
  "decode_int buf prefix_size =
     (if prefix_size < 1 \<or> prefix_size > 8 then Err InvalidIntegerPrefix
      else case buf of
        [] \<Rightarrow> Err (NeedMore IntegerUnderflow)
      | b # rest \<Rightarrow>
          let mask = (if prefix_size = 8 then 0xff else push_bit prefix_size 1 - 1) :: u8;
              ret = unat (b AND mask)
          in if ret < unat mask then Ok (ret, rest)
             else decode_int_loop rest 1 ret 0)"

section \<open>Lemmas\<close>

text \<open>The bytes of a value in groups of seven bits, lowest first.\<close>

fun varint :: "nat \<Rightarrow> bytes" where
  "varint v = (if v \<ge> 128 then (0x80 OR of_nat v) # varint (v div 128) else [of_nat v])"

declare varint.simps [simp del]

lemma encode_int_loop_varint:
  "length (varint v) \<le> remaining_mut dst \<Longrightarrow>
   encode_int_loop v dst =
     Some (Ok (), \<lparr>dst_bytes = dst_bytes dst @ varint v, remaining_mut = remaining_mut dst - length (varint v)\<rparr>)"
proof (induction v arbitrary: dst rule: varint.induct)
  case (1 v)
  show ?case
  proof (cases "v \<ge> 128")
    case True
    then show ?thesis
      using 1 by (subst encode_int_loop.simps, subst (1 2) varint.simps)
        (simp add: dst_put_u8_def varint.simps [of v])
  next
    case False
    then show ?thesis
      using 1 by (subst encode_int_loop.simps) (simp add: dst_put_u8_def varint.simps [of v])
  qed
qed

lemma u8_masks: "(0x7f :: u8) = mask 7"
  by (simp add: mask_eq_exp_minus_1)

lemma bit_0x80: "bit (0x80 :: u8) n \<longleftrightarrow> n = 7"
proof -
  have "(0x80 :: u8) = push_bit 7 1" by simp
  then show ?thesis unfolding bit_push_bit_iff by (simp only: bit_push_bit_iff) (auto simp: bit_1_iff)
qed

lemma top_bit:
  assumes "\<And>n. bit h n \<longleftrightarrow> n = 7"
  shows "(h OR w) AND mask 7 = take_bit 7 (w :: u8)" and "w AND h = 0 \<longleftrightarrow> \<not> bit w 7"
proof -
  show "(h OR w) AND mask 7 = take_bit 7 w"
    by (rule bit_word_eqI) (auto simp: bit_simps assms)
  show "w AND h = 0 \<longleftrightarrow> \<not> bit w 7"
  proof
    assume "w AND h = 0"
    then have "\<not> bit (w AND h) 7" by simp
    then show "\<not> bit w 7" by (simp add: bit_simps assms)
  next
    assume "\<not> bit w 7"
    then show "w AND h = 0" by (intro bit_word_eqI) (auto simp: bit_simps assms)
  qed
qed

lemma varint_byte_flag: "((0x80 :: u8) OR b) AND 0x80 = 0x80"
  unfolding u8_masks by (rule bit_word_eqI) (auto simp: bit_simps bit_0x80)

lemma varint_byte_low: "unat (((0x80 :: u8) OR of_nat v) AND 0x7f) = v mod 128"
proof -
  have "((0x80 :: u8) OR of_nat v) AND 0x7f = take_bit 7 (of_nat v)"
    unfolding u8_masks by (rule top_bit(1) [OF bit_0x80])
  then have "unat (((0x80 :: u8) OR of_nat v) AND 0x7f) = take_bit 7 (v mod 2 ^ 8)"
    by (simp only: unsigned_take_bit_eq unat_of_nat) simp
  then show ?thesis
    by (simp add: take_bit_eq_mod mod_mod_cancel)
qed

lemma varint_last_byte:
  assumes "v < 128"
  shows "(of_nat v :: u8) AND 0x80 = 0" and "unat ((of_nat v :: u8) AND 0x7f) = v"
proof -
  have "(of_nat v :: u8) AND mask 7 = of_nat v"
    using assms by (simp add: take_bit_eq_mask [symmetric] take_bit_eq_mod word_unat_eq_iff unat_mod unat_of_nat)
  then show "unat ((of_nat v :: u8) AND 0x7f) = v"
    using assms by (simp only: u8_masks) (simp add: unat_of_nat)
  have "\<not> bit v 7" using assms by (simp add: bit_iff_odd)
  then show "(of_nat v :: u8) AND 0x80 = 0"
    unfolding top_bit(2) [OF bit_0x80] by (simp add: bit_simps)
qed

lemma length_varint: "length (varint v) \<le> k + 1 \<longleftrightarrow> v < 128 ^ (k + 1)"
proof (induction v arbitrary: k rule: varint.induct)
  case (1 v)
  show ?case
  proof (cases "v \<ge> 128")
    case True
    then have "length (varint v) = Suc (length (varint (v div 128)))" by (simp add: varint.simps [of v])
    moreover have "0 < length (varint (v div 128))" by (subst varint.simps) simp
    ultimately show ?thesis
      using 1 [OF True, of "k - 1"] True by (cases k) (auto simp: div_less_iff_less_mult less_mult_imp_div_less mult.commute)
  next
    case False
    then have "v < 128 ^ (k + 1)" by (simp add: less_le_trans [of v 128])
    then show ?thesis using False by (simp add: varint.simps [of v])
  qed
qed

lemma decode_varint:
  assumes "n + length (varint v) \<le> 5"
  shows "decode_int_loop (varint v @ rest) n ret shift = Ok (ret + v * 2 ^ shift, rest)"
  using assms
proof (induction v arbitrary: n ret shift rule: varint.induct)
  case (1 v)
  show ?case
  proof (cases "v \<ge> 128")
    case True
    let ?w = "varint (v div 128)"
    have len: "length (varint v) = Suc (length ?w)" using True by (simp add: varint.simps [of v])
    moreover have "0 < length ?w" by (subst varint.simps) simp
    ultimately have n: "Suc n \<noteq> 5" "Suc n + length ?w \<le> 5" using 1(2) by auto
    have "v mod 128 * 2 ^ shift + v div 128 * 2 ^ (shift + 7) = (v mod 128 + v div 128 * 128) * 2 ^ shift"
      by (simp only: power_add distrib_right mult.assoc mult.commute [of "2 ^ shift"]) simp
    then have "v mod 128 * 2 ^ shift + v div 128 * 2 ^ (shift + 7) = v * 2 ^ shift" by (simp only: mod_div_mult_eq)
    then show ?thesis
      using 1(1) [OF True n(2)] n(1) True varint_byte_flag varint_byte_low [of v]
      by (subst varint.simps) (simp add: Let_def add.assoc)
  next
    case False
    then show ?thesis
      using varint_last_byte [of v] by (subst varint.simps) (simp add: Let_def)
  qed
qed

text \<open>The first byte: the high bits say what follows, the low \<open>n\<close> bits are the prefix.\<close>

lemma prefix_byte:
  assumes "n \<le> 8" and "first AND mask n = 0" and "v < 2 ^ n"
  shows "unat ((first OR of_nat v) AND (mask n :: u8)) = v"
proof -
  have "bit v i \<Longrightarrow> i < n" for i
    using assms(3) by (metis bit_take_bit_iff take_bit_nat_eq_self)
  moreover have "\<not> bit first i" if "i < n" for i
    using arg_cong [OF assms(2), of "\<lambda>w. bit w i"] that assms(1) by (simp add: bit_simps)
  ultimately have "(first OR of_nat v) AND (mask n :: u8) = of_nat v"
    by (intro bit_word_eqI) (auto simp: bit_simps)
  moreover have "v < 256" using assms(1,3) power_increasing [of n 8 "2 :: nat"] by simp
  ultimately show ?thesis by (simp add: unat_of_nat)
qed

lemma mask_prefix:
  assumes "1 \<le> n" and "n \<le> 8"
  shows "(if n = 8 then 0xff else push_bit n 1 - 1 :: u8) = mask n" and "unat (mask n :: u8) = 2 ^ n - 1"
proof -
  have "n = 1 \<or> n = 2 \<or> n = 3 \<or> n = 4 \<or> n = 5 \<or> n = 6 \<or> n = 7 \<or> n = 8" using assms by linarith
  then show "(if n = 8 then 0xff else push_bit n 1 - 1 :: u8) = mask n" "unat (mask n :: u8) = 2 ^ n - 1"
    by (auto simp: mask_eq_exp_minus_1)
qed

text \<open>The bytes of an integer with a prefix of \<open>n\<close> bits, and the integers that can be written.\<close>

definition int_bytes :: "nat \<Rightarrow> nat \<Rightarrow> u8 \<Rightarrow> bytes" where
  "int_bytes v n first =
     (if v < 2 ^ n - 1 then [first OR of_nat v] else (first OR of_nat (2 ^ n - 1)) # varint (v - (2 ^ n - 1)))"

lemma encode_int_bytes:
  assumes "length (int_bytes v n first) \<le> remaining_mut dst" and "v \<le> 2 ^ n - 1 + 0x0fffffff"
  shows "encode_int v n first dst =
    Some (Ok (), \<lparr>dst_bytes = dst_bytes dst @ int_bytes v n first, remaining_mut = remaining_mut dst - length (int_bytes v n first)\<rparr>)"
proof (cases "v < 2 ^ n - 1")
  case True
  then show ?thesis
    using assms(1) by (simp add: encode_int_def encode_int_one_byte_def dst_put_u8_def int_bytes_def)
next
  case False
  then show ?thesis
    using assms encode_int_loop_varint
      [of "v - (2 ^ n - 1)" "\<lparr>dst_bytes = dst_bytes dst @ [first OR of_nat (2 ^ n - 1)], remaining_mut = remaining_mut dst - 1\<rparr>"]
    by (auto simp: encode_int_def encode_int_one_byte_def dst_put_u8_def int_bytes_def Let_def)
qed

lemma decode_int_bytes:
  assumes "1 \<le> n" and "n \<le> 8" and "first AND mask n = 0" and "v \<le> 2 ^ n - 1 + 0x0fffffff"
  shows "decode_int (int_bytes v n first @ rest) n = Ok (v, rest)"
proof (cases "v < 2 ^ n - 1")
  case True
  then show ?thesis
    using prefix_byte [OF assms(2,3), of v] mask_prefix [OF assms(1,2)] assms(1,2)
    by (simp add: int_bytes_def decode_int_def Let_def)
next
  case False
  have "(2 :: nat) ^ n - 1 < 2 ^ n" by simp
  moreover have "length (varint (v - (2 ^ n - 1))) \<le> 4"
    using length_varint [of "v - (2 ^ n - 1)" 3] assms(4) by simp
  ultimately show ?thesis
    using prefix_byte [OF assms(2,3), of "2 ^ n - 1"] mask_prefix [OF assms(1,2)] assms(1,2) False
      decode_varint [of 1 "v - (2 ^ n - 1)" rest "2 ^ n - 1" 0]
    by (simp add: int_bytes_def decode_int_def Let_def)
qed

lemma length_int_bytes:
  assumes "v \<le> 2 ^ n - 1 + 0x0fffffff"
  shows "length (int_bytes v n first) \<le> 5"
proof -
  have "length (varint (v - (2 ^ n - 1))) \<le> 4"
    using length_varint [of "v - (2 ^ n - 1)" 3] assms by simp
  then show ?thesis by (simp add: int_bytes_def)
qed

lemma encode_int_loop_total: "encode_int_loop v dst \<noteq> None"
proof (induction v arbitrary: dst rule: varint.induct)
  case (1 v)
  then show ?case by (subst encode_int_loop.simps) (simp add: dst_put_u8_def)
qed

lemma encode_int_total: "v \<le> 2 ^ n - 1 + 0x0fffffff \<Longrightarrow> encode_int v n first dst \<noteq> None"
  using encode_int_loop_total by (auto simp: encode_int_def dst_put_u8_def Let_def)

text \<open>What decoding consumes and how large its result is.\<close>

lemma decode_int_loop_Ok:
  assumes "decode_int_loop buf n ret shift = Ok (v, rest)" and "n \<le> 4" and "shift + 7 = 7 * n"
  shows "\<exists>used. buf = used @ rest \<and> used \<noteq> [] \<and> length used \<le> 5 - n" and "v + 2 ^ shift \<le> ret + 2 ^ 28"
proof -
  have "(\<exists>used. buf = used @ rest \<and> used \<noteq> [] \<and> length used \<le> 5 - n) \<and> v + 2 ^ shift \<le> ret + 2 ^ 28"
    using assms
  proof (induction buf arbitrary: n ret shift)
    case (Cons b buf)
    have b: "unat (b AND 0x7f) * 2 ^ shift + 2 ^ shift \<le> 2 ^ (shift + 7)"
    proof -
      have "b AND 0x7f \<le> 0x7f" by (rule word_and_le1)
      then have "unat (b AND 0x7f) \<le> 127" by (simp add: word_le_nat_alt)
      then have "(unat (b AND 0x7f) + 1) * 2 ^ shift \<le> 128 * 2 ^ shift" by (intro mult_le_mono1) simp
      then show ?thesis by (simp add: power_add)
    qed
    have sh: "(2 :: nat) ^ (shift + 7) \<le> 2 ^ 28"
      using Cons.prems(2,3) by (intro power_increasing) auto
    show ?case
    proof (cases "b AND 0x80 = 0")
      case True
      then show ?thesis
        using Cons.prems b sh by (auto simp: Let_def intro!: exI [of _ "[b]"])
    next
      case False
      let ?ret = "ret + unat (b AND 0x7f) * 2 ^ shift"
      have n: "Suc n \<noteq> 5" and rec: "decode_int_loop buf (Suc n) ?ret (shift + 7) = Ok (v, rest)"
        using Cons.prems(1) False by (auto simp: Let_def split: if_splits)
      then have IH: "(\<exists>used. buf = used @ rest \<and> used \<noteq> [] \<and> length used \<le> 5 - Suc n) \<and> v + 2 ^ (shift + 7) \<le> ?ret + 2 ^ 28"
        using Cons.prems(2,3) by (intro Cons.IH) auto
      then obtain used where "buf = used @ rest" "length used \<le> 5 - Suc n" by blast
      then show ?thesis
        using IH b n Cons.prems(2) by (intro conjI exI [of _ "b # used"]) auto
    qed
  qed simp
  then show "\<exists>used. buf = used @ rest \<and> used \<noteq> [] \<and> length used \<le> 5 - n" "v + 2 ^ shift \<le> ret + 2 ^ 28" by auto
qed

lemma decode_int_Ok:
  assumes "decode_int buf n = Ok (v, rest)"
  shows "\<exists>used. buf = used @ rest \<and> used \<noteq> [] \<and> length used \<le> 5" and "v < 2 ^ 28 + 2 ^ 8"
proof -
  obtain b tl where buf: "buf = b # tl" and n: "1 \<le> n" "n \<le> 8"
    using assms by (auto simp: decode_int_def split: if_splits list.splits)
  let ?m = "mask n :: u8"
  note m = mask_prefix [OF n]
  have le: "unat (b AND ?m) \<le> unat ?m" using word_and_le1 [of b ?m] by (simp add: word_le_nat_alt)
  have "unat ?m < 256" by (rule u8_bound)
  then show "\<exists>used. buf = used @ rest \<and> used \<noteq> [] \<and> length used \<le> 5" "v < 2 ^ 28 + 2 ^ 8"
    using assms n m(1) le decode_int_loop_Ok [of tl 1 "unat (b AND ?m)" 0 v rest]
    by (auto simp: decode_int_def buf Let_def split: if_splits intro: exI [of _ "[b]"])
qed

section \<open>Properties\<close>

text \<open>
  C26: an HPACK integer that is at most \<open>2^28 - 1\<close> above the prefix is written in at most five bytes, and
  decodes to itself with the bytes that follow left over; with any room in the destination it is written without a
  panic.
\<close>

theorem hpack_int_roundtrip:
  assumes "1 \<le> n" and "n \<le> 8" and "first AND mask n = 0" and "v \<le> 2 ^ n - 1 + 0x0fffffff"
    and "5 \<le> remaining_mut dst"
  shows "\<exists>bs. encode_int v n first dst =
      Some (Ok (), \<lparr>dst_bytes = dst_bytes dst @ bs, remaining_mut = remaining_mut dst - length bs\<rparr>) \<and>
    length bs \<le> 5 \<and> decode_int (bs @ rest) n = Ok (v, rest) \<and> (\<forall>d. encode_int v n first d \<noteq> None)"
  using encode_int_total [OF assms(4)] length_int_bytes [OF assms(4), of first] encode_int_bytes [of v n first dst] decode_int_bytes [OF assms(1-4)] assms(4,5)
  by (intro exI [of _ "int_bytes v n first"]) simp

text \<open>The example of RFC 7541, C.1.2: 1337 with a prefix of five bits.\<close>

theorem hpack_int_roundtrip_witness:
  "encode_int 1337 5 0 \<lparr>dst_bytes = [], remaining_mut = 8\<rparr> =
     Some (Ok (), \<lparr>dst_bytes = [31, 154, 10], remaining_mut = 5\<rparr>) \<and> decode_int [31, 154, 10] 5 = Ok (1337, [])"
proof -
  have e: "encode_int 1337 5 0 \<lparr>dst_bytes = [], remaining_mut = 8\<rparr> = Some (Ok (), \<lparr>dst_bytes = [31, 154, 10], remaining_mut = 5\<rparr>)"
    by (simp add: encode_int_def encode_int_one_byte_def dst_put_u8_def encode_int_loop.simps)
  then show ?thesis
    using hpack_int_roundtrip [of 5 0 1337 "\<lparr>dst_bytes = [], remaining_mut = 8\<rparr>" "[]"] by auto
qed

text \<open>
  C27: a decoded HPACK integer fits 32 bits, whatever the bytes: it is below \<open>2^28 + 2^8\<close>, and decoding
  consumed between one and five bytes.
\<close>

theorem decode_int_bounded:
  assumes "decode_int buf n = Ok (v, rest)"
  shows "v < 2 ^ 28 + 2 ^ 8 \<and> (\<exists>used. buf = used @ rest \<and> 1 \<le> length used \<and> length used \<le> 5)"
  using decode_int_Ok [OF assms] by (metis One_nat_def Suc_le_eq length_greater_0_conv)

theorem decode_int_bounded_witness:
  "decode_int [0xff, 0xff, 0xff, 0xff, 0x7f, 9] 8 = Ok (268435710, [9]) \<and> 268435710 < (2 :: nat) ^ 28 + 2 ^ 8"
proof -
  have "decode_int [0xff, 0xff, 0xff, 0xff, 0x7f, 9] 8 = Ok (268435710, [9])" by (simp add: decode_int_def Let_def)
  then show ?thesis using decode_int_bounded [of "[0xff, 0xff, 0xff, 0xff, 0x7f, 9]" 8 268435710 "[9]"] by simp
qed

end
