(* ===== verification/Hpack_Huffman_Code.thy ===== *)
theory Hpack_Huffman_Code
  imports Hpack_Huffman
begin

unbundle bit_operations_syntax

text \<open>
  The lemmas on the Huffman coder of src/http/h2/hpack/huffman/mod.rs: the automaton computes the walk
  through the code tree, the encoder writes the codes and pads with ones, and decoding inverts
  encoding.
\<close>

section \<open>Rows of the table and walks in the tree\<close>

fun bits_val :: "bool list \<Rightarrow> nat" where
  "bits_val [] = 0"
| "bits_val (b # bs) = (if b then 2 ^ length bs else 0) + bits_val bs"

fun inner :: "htree \<Rightarrow> bool" where
  "inner (Node n e l r) = True"
| "inner t = False"

lemma bits_val_less: "bits_val bs < 2 ^ length bs"
  by (induction bs) auto

lemma length_err_entries: "length (err_entries ks f) = 2 ^ length ks"
  by (induction ks arbitrary: f) auto

lemma err_entries_flags: "x \<in> set (err_entries ks f) \<Longrightarrow> snd (snd x) \<in> {4, f}"
  by (induction ks arbitrary: f) fastforce+

lemma length_eos_entries: "length (eos_entries ks) = 2 ^ length ks"
  by (simp add: eos_entries_def length_err_entries split: list.split)

lemma eos_entries_flags: "x \<in> set (eos_entries ks) \<Longrightarrow> snd (snd x) \<in> {4, 5}"
  using err_entries_flags [of x ks 5] err_entries_flags [of x ks 4] by (auto simp: eos_entries_def split: list.splits)

lemma length_huff_row:
  "inner root \<Longrightarrow> inner t \<Longrightarrow> length (huff_row root ks sy d t) = 2 ^ length ks"
  by (induction root ks sy d t rule: huff_row.induct)
    (auto simp: length_eos_entries split: htree.split)

text \<open>An entry of a row, for the walk from the row's node.\<close>

definition entry_for :: "nat \<Rightarrow> bool \<Rightarrow> (htree \<times> nat list) option \<Rightarrow> nat \<times> nat \<times> nat \<Rightarrow> bool" where
  "entry_for sy d w x \<longleftrightarrow>
     (case w of
        None \<Rightarrow> snd (snd x) \<in> {4, 5}
      | Some (u, ss) \<Rightarrow> x = (huff_no u, last (sy # ss), huff_flags (d \<or> ss \<noteq> []) (huff_end u)))"

lemma entry_for_cons: "entry_for s True (huff_walk root t bs) x \<Longrightarrow>
  entry_for sy d (huff_walk root t bs \<bind> (\<lambda>(t2, s2). Some (t2, s # s2))) x"
  by (auto simp: entry_for_def split: option.splits)

lemma entry_for_nil: "entry_for sy d (huff_walk root t bs) x \<Longrightarrow>
  entry_for sy d (huff_walk root t bs \<bind> (\<lambda>(t2, s2). Some (t2, s2))) x"
  by (auto simp: entry_for_def split: option.splits)

lemma huff_row_nth:
  "inner root \<Longrightarrow> inner t \<Longrightarrow> length bs = length ks \<Longrightarrow>
   entry_for sy d (huff_walk root t bs) (huff_row root ks sy d t ! bits_val bs)"
proof (induction root ks sy d t arbitrary: bs rule: huff_row.induct)
  case (2 root sy d n e l r)
  then show ?case by (simp add: entry_for_def)
next
  case (3 root k ks sy d n e l r)
  obtain b cs where bs: "bs = b # cs" "length cs = length ks" using 3(7) by (cases bs) auto
  let ?row = "\<lambda>c. case c of Leaf s \<Rightarrow> if s = 256 then eos_entries ks else huff_row root ks s True root
      | Node m e' l' r' \<Rightarrow> huff_row root ks sy d (Node m e' l' r')"
  have len: "length (?row c) = 2 ^ length ks" for c
    using 3(5) by (cases c) (simp_all add: length_eos_entries length_huff_row)
  have split: "huff_row root (k # ks) sy d (Node n e l r) ! bits_val bs = ?row (if b then r else l) ! bits_val cs"
    using bits_val_less [of cs] bs len [of l] by (simp add: nth_append)
  have "entry_for sy d (huff_child root c \<bind> (\<lambda>(t1, s1). huff_walk root t1 cs \<bind> (\<lambda>(t2, s2). Some (t2, s1 @ s2))))
      (?row c ! bits_val cs)" if c: "c = (if b then r else l)" for c
  proof (cases c)
    case (Leaf s)
    show ?thesis
    proof (cases "s = 256")
      case True
      have "?row c ! bits_val cs \<in> set (eos_entries ks)"
        using Leaf True bits_val_less [of cs] bs(2) by (simp add: length_eos_entries)
      then show ?thesis
        using eos_entries_flags Leaf True by (simp add: entry_for_def)
    next
      case False
      have "entry_for s True (huff_walk root root cs) (huff_row root ks s True root ! bits_val cs)"
        using 3(1) [of s cs] 3(3) [of s cs] 3(5) bs(2) False c Leaf by (cases b) auto
      then show ?thesis
        using entry_for_cons Leaf False by simp
    qed
  next
    case (Node m e' l' r')
    have "entry_for sy d (huff_walk root c cs) (huff_row root ks sy d c ! bits_val cs)"
      using 3(2) [of m e' l' r' cs] 3(4) [of m e' l' r' cs] 3(5) bs(2) c Node by (cases b) auto
    then show ?thesis
      using entry_for_nil Node by simp
  qed
  then show ?case
    unfolding split by (simp add: bs(1))
qed simp

section \<open>The automaton walks the tree\<close>

lemma inner_nodes: "u \<in> set (huff_nodes t) \<Longrightarrow> inner u"
  by (induction t) auto

lemma children_nodes:
  "Node n e l r \<in> set (huff_nodes t) \<Longrightarrow> c \<in> {l, r} \<Longrightarrow> inner c \<Longrightarrow> c \<in> set (huff_nodes t)"
proof (induction t)
  case (Node m e' l' r')
  have root: "x \<in> set (huff_nodes x)" if "inner x" for x
    using that by (cases x) auto
  show ?case using Node root [of c] by auto
qed simp

lemma walk_nodes:
  assumes "huff_walk root u bs = Some (v, ss)" and "u \<in> set (huff_nodes root)"
  shows "v \<in> set (huff_nodes root)"
  using assms
proof (induction root u bs arbitrary: ss rule: huff_walk.induct)
  case (3 root n e l r b bs)
  let ?c = "if b then r else l"
  obtain t1 s1 s2 where c: "huff_child root ?c = Some (t1, s1)" and w: "huff_walk root t1 bs = Some (v, s2)"
    using 3(2) by (auto split: Option.bind_splits)
  have root: "root \<in> set (huff_nodes root)" using 3(3) by (cases root) auto
  have "t1 \<in> set (huff_nodes root)"
  proof (cases ?c)
    case (Leaf s)
    then show ?thesis using c root by (auto split: if_splits)
  next
    case (Node m e' l' r')
    then show ?thesis using c children_nodes [OF 3(3), of ?c] by (auto split: if_splits)
  qed
  then show ?case using 3(1) [OF c refl w] by simp
qed auto

text \<open>The node of a state.\<close>

definition node_of :: "nat \<Rightarrow> htree" where
  "node_of s = huff_nodes huff_tree ! s"

lemma node_of_mem: "s < 256 \<Longrightarrow> node_of s \<in> set (huff_nodes huff_tree)"
  by (simp add: node_of_def length_nodes)

lemma huff_no_node_of: "s < 256 \<Longrightarrow> huff_no (node_of s) = s"
  using arg_cong [OF nodes_numbered, of "\<lambda>xs. xs ! s"] by (simp add: node_of_def length_nodes)

lemma node_of_huff_no:
  assumes "u \<in> set (huff_nodes huff_tree)"
  shows "huff_no u < 256" and "node_of (huff_no u) = u"
proof -
  obtain s where "s < 256" "u = node_of s"
    using assms by (auto simp: in_set_conv_nth node_of_def length_nodes)
  then show "huff_no u < 256" "node_of (huff_no u) = u" using huff_no_node_of by auto
qed

lemma huff_tree_inner: "inner huff_tree"
  by (simp add: huff_tree_def)

lemma huff_nodes_0: "inner t \<Longrightarrow> huff_nodes t ! 0 = t"
  by (cases t) auto

lemma node_of_0: "node_of 0 = huff_tree"
  by (simp add: node_of_def huff_nodes_0 [OF huff_tree_inner])

text \<open>No code is shorter than five bits, so four bits complete at most one symbol.\<close>

fun huff_depth :: "htree \<Rightarrow> bool list \<Rightarrow> bool" where
  "huff_depth t [] = inner t"
| "huff_depth (Leaf s) (k # ks) = False"
| "huff_depth (Node n e l r) (k # ks) = (huff_depth l ks \<and> huff_depth r ks)"

lemma huff_depth_4: "huff_depth huff_tree [True, True, True, True]"
  by code_simp

lemma huff_depth_walk:
  "huff_depth t ks \<Longrightarrow> length bs \<le> length ks \<Longrightarrow> \<exists>u. huff_walk root t bs = Some (u, [])"
proof (induction t ks arbitrary: bs rule: huff_depth.induct)
  case (1 t)
  then show ?case by (cases t) auto
next
  case (3 n e l r k ks)
  show ?case
  proof (cases bs)
    case (Cons b cs)
    have d: "huff_depth (if b then r else l) ks" using 3(3) by simp
    then have "inner (if b then r else l)"
      by (cases "if b then r else l"; cases ks) auto
    then have "huff_child root (if b then r else l) = Some (if b then r else l, [])"
      by (cases "if b then r else l") auto
    moreover obtain u where "huff_walk root (if b then r else l) cs = Some (u, [])"
      using 3(1) [of cs] 3(2) [of cs] 3(3,4) Cons by (cases b) auto
    ultimately show ?thesis using Cons by simp
  qed simp
qed simp

lemma short_walk: "length bs \<le> 4 \<Longrightarrow> \<exists>u. huff_walk huff_tree huff_tree bs = Some (u, [])"
  using huff_depth_walk [OF huff_depth_4] by simp

lemma walk_four:
  assumes "huff_walk huff_tree t bs = Some (u, ss)" and "length bs \<le> 4"
  shows "length ss \<le> 1"
  using assms
proof (induction bs arbitrary: t u ss)
  case Nil
  then show ?case by (cases t) auto
next
  case (Cons b bs)
  obtain n e l r where t: "t = Node n e l r" using Cons.prems(1) by (cases t) auto
  obtain t1 s1 s2 where c: "huff_child huff_tree (if b then r else l) = Some (t1, s1)"
    and w: "huff_walk huff_tree t1 bs = Some (u, s2)" and ss: "ss = s1 @ s2"
    using Cons.prems(1) t by (auto split: Option.bind_splits)
  show ?case
  proof (cases "if b then r else l")
    case (Leaf s)
    then have "t1 = huff_tree" "length s1 = 1" using c by (auto split: if_splits)
    then show ?thesis using short_walk [of bs] w ss Cons.prems(2) by auto
  next
    case (Node n' e' l' r')
    then have "s1 = []" using c by auto
    then show ?thesis using Cons.IH [OF w] ss Cons.prems(2) by simp
  qed
qed

lemma walk_append:
  "huff_walk root t (bs @ cs) = huff_walk root t bs \<bind> (\<lambda>(u, s). huff_walk root u cs \<bind> (\<lambda>(v, s'). Some (v, s @ s')))"
proof (induction root t bs rule: huff_walk.induct)
  case (2 root n e l r)
  then show ?case by (cases cs) (auto split: Option.bind_splits)
next
  case (3 root n e l r b bs)
  show ?case
  proof (cases "huff_child root (if b then r else l)")
    case (Some x)
    then show ?thesis using 3 [OF Some] by (cases x) (auto split: Option.bind_splits)
  qed auto
qed auto

lemmas flag_defs = MAYBE_EOS_def DECODED_def ERROR_FLAG_def

lemma huff_flags_bits:
  "(of_nat (huff_flags d e) :: u8) AND ERROR_FLAG \<noteq> ERROR_FLAG"
  "(of_nat (huff_flags d e) :: u8) AND DECODED = DECODED \<longleftrightarrow> d"
  "(of_nat (huff_flags d e) :: u8) AND MAYBE_EOS = MAYBE_EOS \<longleftrightarrow> e"
  by (cases d; cases e; simp add: huff_flags_def flag_defs)+

definition nibble_bits :: "u8 \<Rightarrow> bool list" where
  "nibble_bits w = [bit w 3, bit w 2, bit w 1, bit w 0]"

lemma bits_val_nibble:
  assumes "unat w < 16"
  shows "bits_val (nibble_bits w) = unat w"
proof -
  have "unat w \<in> {0, 1, 2, 3, 4, 5, 6, 7, 8, 9, 10, 11, 12, 13, 14, 15}"
    using assms unfolding insert_iff empty_iff by presburger
  moreover have "w = of_nat (unat w)" by simp
  ultimately show ?thesis
    by (elim insertE) (auto simp: nibble_bits_def simp del: of_nat_unat)
qed

lemma table_entry:
  assumes "s < 256" and "n < 16"
  shows "DECODE_TABLE ! s ! n =
    (case huff_row huff_tree nibble 0 False (node_of s) ! n of (k, b, f) \<Rightarrow> (k, of_nat b, of_nat f))"
proof -
  have "inner (node_of s)" using assms(1) node_of_mem inner_nodes by blast
  then have "n < length (huff_row huff_tree nibble 0 False (node_of s))"
    using assms(2) length_huff_row [OF huff_tree_inner] by (simp add: nibble_def)
  then show ?thesis
    using assms(1) by (simp add: DECODE_TABLE_raw table_rows length_nodes node_of_def)
qed

definition sym_byte :: "nat list \<Rightarrow> u8 option" where
  "sym_byte ss = (case ss of [] \<Rightarrow> None | s # _ \<Rightarrow> Some (of_nat s))"

lemma decode4_walk:
  assumes "hd_state d < 256" and "unat w < 16"
  shows "decode4 d w =
    (case huff_walk huff_tree (node_of (hd_state d)) (nibble_bits w) of
       None \<Rightarrow> Err InvalidHuffmanCode
     | Some (u, ss) \<Rightarrow> Ok (sym_byte ss, \<lparr>hd_state = huff_no u, hd_maybe_eos = huff_end u\<rparr>))"
proof -
  let ?t = "node_of (hd_state d)" and ?bs = "nibble_bits w"
  let ?x = "huff_row huff_tree nibble 0 False ?t ! unat w"
  have "inner ?t" using assms(1) node_of_mem inner_nodes by blast
  then have e: "entry_for 0 False (huff_walk huff_tree ?t ?bs) ?x"
    using huff_row_nth [OF huff_tree_inner, of ?t ?bs nibble 0 False] bits_val_nibble [OF assms(2)]
    by (simp add: nibble_def nibble_bits_def)
  show ?thesis
  proof (cases "huff_walk huff_tree ?t ?bs")
    case None
    then have "snd (snd ?x) \<in> {4, 5}" using e by (simp add: entry_for_def)
    then show ?thesis
      using None table_entry [OF assms] by (cases ?x) (auto simp: decode4_def flag_defs)
  next
    case (Some us)
    obtain u ss where us: "us = (u, ss)" by (cases us)
    have "length ss \<le> 1"
      using walk_four [of ?t ?bs u ss] Some us by (simp add: nibble_bits_def)
    then have ss: "ss = [] \<or> (\<exists>s. ss = [s])" by (cases ss) auto
    have "?x = (huff_no u, last (0 # ss), huff_flags (ss \<noteq> []) (huff_end u))"
      using e Some us by (simp add: entry_for_def)
    then show ?thesis
      using Some us ss table_entry [OF assms] huff_flags_bits by (auto simp: decode4_def sym_byte_def)
  qed
qed

text \<open>The bits of a byte string, and its nibbles.\<close>

definition byte_bits :: "u8 \<Rightarrow> bool list" where
  "byte_bits b = [bit b 7, bit b 6, bit b 5, bit b 4, bit b 3, bit b 2, bit b 1, bit b 0]"

definition bytes_bits :: "bytes \<Rightarrow> bool list" where
  "bytes_bits bs = concat (map byte_bits bs)"

lemma bytes_bits_simps [simp]: "bytes_bits [] = []" "bytes_bits (bs @ cs) = bytes_bits bs @ bytes_bits cs"
  by (simp_all add: bytes_bits_def)

lemma nibbles:
  "nibble_bits (drop_bit 4 b) @ nibble_bits (b AND 0xf) = byte_bits b"
  "unat (drop_bit 4 b) < 16" "unat (b AND 0xf) < 16"
proof -
  have m: "(0xf :: u8) = mask 4" by (simp add: mask_eq_exp_minus_1)
  show "nibble_bits (drop_bit 4 b) @ nibble_bits (b AND 0xf) = byte_bits b"
    unfolding m by (simp add: nibble_bits_def byte_bits_def bit_simps)
  show "unat (drop_bit 4 b) < 16"
    using u8_bound [of b] by (simp add: drop_bit_eq_div unat_div less_mult_imp_div_less)
  have "b AND 0xf \<le> 0xf" by (rule word_and_le1)
  then show "unat (b AND 0xf) < 16" by (simp add: word_le_nat_alt)
qed

text \<open>The state reached and the bytes appended to the buffer, for the walk over all bits of the input.\<close>

definition state_at :: "htree \<Rightarrow> HuffDecoder" where
  "state_at u = \<lparr>hd_state = huff_no u, hd_maybe_eos = huff_end u\<rparr>"

lemma put_opt_sym: "length ss \<le> 1 \<Longrightarrow> put_opt buf (sym_byte ss) = buf @ map of_nat ss"
  by (cases ss) (auto simp: put_opt_def sym_byte_def)

lemma decode_loop_walk:
  assumes "hd_state d < 256"
  shows "case huff_walk huff_tree (node_of (hd_state d)) (bytes_bits src) of
      None \<Rightarrow> fst (huff_decode_loop d src buf) = Err InvalidHuffmanCode
    | Some (u, ss) \<Rightarrow> huff_decode_loop d src buf = (Ok (if src = [] then d else state_at u), buf @ map of_nat ss)"
  using assms
proof (induction src arbitrary: d buf)
  case Nil
  have "inner (node_of (hd_state d))" using Nil node_of_mem inner_nodes by blast
  then show ?case by (cases "node_of (hd_state d)") auto
next
  case (Cons b src)
  let ?t = "node_of (hd_state d)" and ?hi = "drop_bit 4 b" and ?lo = "b AND 0xf"
  let ?w = "\<lambda>t bs. huff_walk huff_tree t bs"
  have bits: "bytes_bits (b # src) = nibble_bits ?hi @ nibble_bits ?lo @ bytes_bits src"
    by (simp add: bytes_bits_def nibbles(1) [symmetric])
  have t: "?t \<in> set (huff_nodes huff_tree)" using Cons.prems node_of_mem by blast
  show ?case
  proof (cases "?w ?t (nibble_bits ?hi)")
    case None
    then show ?thesis
      using decode4_walk [OF Cons.prems nibbles(2) [of b]] by (simp add: bits walk_append)
  next
    case (Some x)
    then obtain u ss where w1: "?w ?t (nibble_bits ?hi) = Some (u, ss)" by (cases x) auto
    have u: "u \<in> set (huff_nodes huff_tree)" using walk_nodes [OF w1 t] .
    have l1: "length ss \<le> 1" using walk_four [OF w1] by (simp add: nibble_bits_def)
    have d1: "decode4 d ?hi = Ok (sym_byte ss, state_at u)"
      using decode4_walk [OF Cons.prems nibbles(2) [of b]] w1 by (simp add: state_at_def)
    have su: "hd_state (state_at u) < 256" "node_of (hd_state (state_at u)) = u"
      using node_of_huff_no [OF u] by (simp_all add: state_at_def)
    show ?thesis
    proof (cases "?w u (nibble_bits ?lo)")
      case None
      then show ?thesis
        using decode4_walk [OF su(1) nibbles(3) [of b]] w1 d1 su(2) by (simp add: bits walk_append)
    next
      case (Some y)
      then obtain v rs where w2: "?w u (nibble_bits ?lo) = Some (v, rs)" by (cases y) auto
      have v: "v \<in> set (huff_nodes huff_tree)" using walk_nodes [OF w2 u] .
      have l2: "length rs \<le> 1" using walk_four [OF w2] by (simp add: nibble_bits_def)
      have d2: "decode4 (state_at u) ?lo = Ok (sym_byte rs, state_at v)"
        using decode4_walk [OF su(1) nibbles(3) [of b]] w2 su(2) by (simp add: state_at_def)
      have sv: "hd_state (state_at v) < 256" "node_of (hd_state (state_at v)) = v"
        using node_of_huff_no [OF v] by (simp_all add: state_at_def)
      have "inner v" using v inner_nodes by blast
      then have nil: "?w v [] = Some (v, [])" by (cases v) auto
      from Cons.IH [OF sv(1), of "buf @ map of_nat ss @ map of_nat rs"] show ?thesis
        using w1 w2 d1 d2 sv(2) put_opt_sym [OF l1] put_opt_sym [OF l2] nil
        by (cases "?w v (bytes_bits src)") (auto simp: bits walk_append Let_def)
    qed
  qed
qed

lemma tree_walk_Nil: "huff_walk huff_tree huff_tree [] = Some (huff_tree, [])"
proof -
  have "inner t \<Longrightarrow> huff_walk r t [] = Some (t, [])" for r t by (cases t) auto
  then show ?thesis using huff_tree_inner by blast
qed

lemma huff_decode_walk:
  "fst (huff_decode src buf) =
     (case huff_walk huff_tree huff_tree (bytes_bits src) of
        None \<Rightarrow> Err InvalidHuffmanCode
      | Some (u, ss) \<Rightarrow> if u = huff_tree \<or> huff_end u then Ok (buf @ map of_nat ss) else Err InvalidHuffmanCode)"
proof (cases "src = []")
  case True
  then show ?thesis by (simp add: huff_decode_def HuffDecoder_new_def is_final_def tree_walk_Nil)
next
  case False
  have d: "hd_state HuffDecoder_new < 256" "node_of (hd_state HuffDecoder_new) = huff_tree"
    by (simp_all add: HuffDecoder_new_def node_of_0)
  have fin: "is_final (state_at u) \<longleftrightarrow> u = huff_tree \<or> huff_end u" if "u \<in> set (huff_nodes huff_tree)" for u
    using node_of_huff_no(2) [OF that] huff_no_node_of [of 0] node_of_0 by (auto simp: is_final_def state_at_def)
  have root: "huff_tree \<in> set (huff_nodes huff_tree)" using node_of_mem [of 0] node_of_0 by simp
  show ?thesis
  proof (cases "huff_walk huff_tree huff_tree (bytes_bits src)")
    case None
    then show ?thesis
      using decode_loop_walk [OF d(1), of src buf] d(2)
      by (cases "huff_decode_loop HuffDecoder_new src buf") (auto simp: huff_decode_def)
  next
    case (Some x)
    then obtain u ss where w: "huff_walk huff_tree huff_tree (bytes_bits src) = Some (u, ss)" by (cases x) auto
    then show ?thesis
      using decode_loop_walk [OF d(1), of src buf] d(2) False fin [OF walk_nodes [OF w root]]
      by (auto simp: huff_decode_def)
  qed
qed

lemma huff_decode_buf: "fst (huff_decode src buf) = Ok out \<Longrightarrow> snd (huff_decode src buf) = []"
  by (auto simp: huff_decode_def split: prod.splits result.splits if_splits)

section \<open>The codes\<close>

text \<open>The symbol a code stands for.\<close>

fun huff_sym :: "htree \<Rightarrow> bool list \<Rightarrow> nat option" where
  "huff_sym (Leaf s) [] = Some s"
| "huff_sym (Node n e l r) (b # bs) = huff_sym (if b then r else l) bs"
| "huff_sym t bs = None"

lemma huff_sym_walk:
  assumes "huff_sym t bs = Some s" and "s \<noteq> 256" and "inner t"
  shows "huff_walk root t (bs @ cs) = huff_walk root root cs \<bind> (\<lambda>(u, ss). Some (u, s # ss))"
  using assms
proof (induction t bs rule: huff_sym.induct)
  case (2 n e l r b bs)
  show ?case
  proof (cases "if b then r else l")
    case (Leaf s')
    then have "bs = []" "s' = s" using 2(2) by (cases bs; auto split: if_splits)+
    then show ?thesis using Leaf 2(3) by (auto split: if_splits)
  next
    case (Node n' e' l' r')
    then show ?thesis using 2 by (auto split: if_splits)
  qed
qed auto

text \<open>The bits of a number, as recursion for evaluation.\<close>

fun num_bits :: "nat \<Rightarrow> nat \<Rightarrow> bool list \<Rightarrow> bool list" where
  "num_bits n c acc = (if n = 0 then acc else num_bits (n - 1) (c div 2) (odd c # acc))"

declare num_bits.simps [simp del]

lemma num_bits_bit: "num_bits n c acc = map (\<lambda>k. bit c (n - 1 - k)) [0..<n] @ acc"
proof (induction n arbitrary: c acc)
  case 0
  then show ?case by (simp add: num_bits.simps)
next
  case (Suc n)
  have "map (\<lambda>k. bit (c div 2) (n - 1 - k)) [0..<n] = map (\<lambda>k. bit c (n - k)) [0..<n]"
  proof (rule map_cong [OF refl])
    fix k assume "k \<in> set [0..<n]"
    then have "n - k = Suc (n - 1 - k)" by auto
    then show "bit (c div 2) (n - 1 - k) = bit c (n - k)" by (simp add: bit_Suc)
  qed
  then show ?case by (subst num_bits.simps) (simp add: Suc bit_0)
qed

text \<open>Every code of the encoding table leads to the leaf of its symbol.\<close>

fun codes_ok :: "nat \<Rightarrow> (nat \<times> nat) list \<Rightarrow> bool" where
  "codes_ok k [] = True"
| "codes_ok k ((n, c) # es) = ((n \<le> 30 \<and> c < 2 ^ n) \<and> huff_sym huff_tree (num_bits n c []) = Some k \<and> codes_ok (Suc k) es)"

lemma codes_ok_0: "codes_ok 0 ENCODE_TABLE_0"
  unfolding ENCODE_TABLE_0_def by (simp add: num_bits.simps, code_simp)

lemma codes_ok_1: "codes_ok 129 ENCODE_TABLE_1"
  unfolding ENCODE_TABLE_1_def by (simp add: num_bits.simps, code_simp)

lemma length_ENCODE_TABLE: "length ENCODE_TABLE_0 = 129" "length ENCODE_TABLE_1 = 128"
  by (simp_all add: ENCODE_TABLE_0_def ENCODE_TABLE_1_def)

lemma codes_ok_append: "codes_ok k es \<Longrightarrow> codes_ok (k + length es) fs \<Longrightarrow> codes_ok k (es @ fs)"
  by (induction k es rule: codes_ok.induct) auto

lemma codes_ok_nth:
  "codes_ok k es \<Longrightarrow> i < length es \<Longrightarrow> es ! i = (n, c) \<Longrightarrow>
   n \<le> 30 \<and> c < 2 ^ n \<and> huff_sym huff_tree (num_bits n c []) = Some (k + i)"
proof (induction k es arbitrary: i rule: codes_ok.induct)
  case (2 k n' c' es)
  then show ?case by (cases i) auto
qed simp

text \<open>The code of a symbol: at most 30 bits, none of them beyond, and its path in the tree.\<close>

lemma table_code:
  assumes "s < 257" and "ENCODE_TABLE ! s = (n, c)"
  shows "n \<le> 30" and "\<And>k. bit c k \<Longrightarrow> k < n" and "huff_sym huff_tree (code_bits (n, c)) = Some s"
proof -
  have ok: "codes_ok 0 (ENCODE_TABLE_0 @ ENCODE_TABLE_1)"
    by (rule codes_ok_append [OF codes_ok_0]) (simp add: length_ENCODE_TABLE codes_ok_1)
  have len: "s < length (ENCODE_TABLE_0 @ ENCODE_TABLE_1)"
    using assms(1) by (simp add: length_ENCODE_TABLE)
  obtain m where m: "(ENCODE_TABLE_0 @ ENCODE_TABLE_1) ! s = (n, m)" "c = of_nat m"
    using assms(2) nth_map [OF len, of "\<lambda>(n, c). (n, of_nat c :: u64)"]
    by (cases "(ENCODE_TABLE_0 @ ENCODE_TABLE_1) ! s") (auto simp: ENCODE_TABLE_def simp del: map_append)
  have *: "n \<le> 30" "m < 2 ^ n" "huff_sym huff_tree (num_bits n m []) = Some s"
    using codes_ok_nth [OF ok len m(1)] by auto
  show "n \<le> 30" by (rule *(1))
  show "k < n" if "bit c k" for k
  proof -
    have "bit m k" using that m(2) by (simp add: bit_simps)
    then show ?thesis using *(2) by (metis bit_take_bit_iff take_bit_nat_eq_self)
  qed
  have "code_bits (n, c) = num_bits n m []"
    using *(1) m(2) by (auto simp: code_bits_def num_bits_bit bit_simps)
  then show "huff_sym huff_tree (code_bits (n, c)) = Some s" using *(3) by simp
qed

lemma length_code_bits [simp]: "length (code_bits e) = fst e"
  by (simp add: code_bits_def)

definition enc_bits :: "bytes \<Rightarrow> bool list" where
  "enc_bits src = concat (map (\<lambda>b. code_bits (ENCODE_TABLE ! unat b)) src)"

lemma walk_enc_bits:
  "huff_walk huff_tree huff_tree (enc_bits src @ cs) =
     huff_walk huff_tree huff_tree cs \<bind> (\<lambda>(u, ss). Some (u, map unat src @ ss))"
proof (induction src)
  case Nil
  then show ?case by (cases "huff_walk huff_tree huff_tree cs") (auto simp: enc_bits_def)
next
  case (Cons b src)
  obtain n c where e: "ENCODE_TABLE ! unat b = (n, c)" by (cases "ENCODE_TABLE ! unat b")
  have "huff_sym huff_tree (code_bits (n, c)) = Some (unat b)" "unat b \<noteq> 256"
    using table_code(3) [OF _ e] u8_bound [of b] by simp_all
  from huff_sym_walk [OF this huff_tree_inner, of huff_tree "enc_bits src @ cs"] show ?case
    using Cons e by (cases "huff_walk huff_tree huff_tree cs") (auto simp: enc_bits_def)
qed

text \<open>Up to seven ones after a string: the padding.\<close>

lemma walk_ones:
  assumes "k < 8"
  shows "\<exists>u. huff_walk huff_tree huff_tree (replicate k True) = Some (u, []) \<and> (u = huff_tree \<or> huff_end u)"
proof -
  let ?P = "\<lambda>k. case huff_walk huff_tree huff_tree (replicate k True) of
      Some (u, []) \<Rightarrow> huff_end u | _ \<Rightarrow> False"
  have "?P 1 \<and> ?P 2 \<and> ?P 3 \<and> ?P 4 \<and> ?P 5 \<and> ?P 6 \<and> ?P 7" by code_simp
  moreover have "k = 0 \<or> k = 1 \<or> k = 2 \<or> k = 3 \<or> k = 4 \<or> k = 5 \<or> k = 6 \<or> k = 7" using assms by linarith
  ultimately have "k = 0 \<or> ?P k" by blast
  then show ?thesis using tree_walk_Nil by (auto split: option.splits prod.splits list.splits)
qed

section \<open>The encoder writes the codes\<close>

text \<open>The pending bits \<open>p\<close>, at the top of the low 40 bits of the accumulator.\<close>

definition holds :: "u64 \<Rightarrow> bool list \<Rightarrow> bool" where
  "holds bits p \<longleftrightarrow> (\<forall>j<40. bit bits (39 - j) \<longleftrightarrow> j < length p \<and> p ! j)"

lemma holds_code:
  assumes "holds bits p" and "length p < 8" and "n \<le> 30" and "\<And>k. bit c k \<Longrightarrow> k < n"
  shows "holds (bits OR push_bit (40 - length p - n) c) (p @ code_bits (n, c))"
  unfolding holds_def
proof (intro allI impI)
  fix j :: nat
  assume j: "j < 40"
  let ?m = "40 - length p - n"
  have b: "bit bits (39 - j) \<longleftrightarrow> j < length p \<and> p ! j" using assms(1) j by (simp add: holds_def)
  have c: "bit (push_bit ?m c) (39 - j) \<longleftrightarrow> ?m \<le> 39 - j \<and> bit c (39 - j - ?m)"
    using j by (auto simp: bit_push_bit_iff)
  consider "j < length p" | "length p \<le> j" "j < length p + n" | "length p + n \<le> j" by linarith
  then show "bit (bits OR push_bit ?m c) (39 - j) \<longleftrightarrow> j < length (p @ code_bits (n, c)) \<and> (p @ code_bits (n, c)) ! j"
  proof cases
    case 1
    then have "n \<le> 39 - j - ?m" using assms(2,3) by linarith
    then have "\<not> bit c (39 - j - ?m)" using assms(4) by (meson not_less)
    then show ?thesis using 1 b c by (simp add: bit_or_iff nth_append)
  next
    case 2
    then have "39 - j - ?m = n - 1 - (j - length p)" "?m \<le> 39 - j" using assms(2,3) by linarith+
    moreover have "code_bits (n, c) ! (j - length p) = bit c (n - 1 - (j - length p))"
    proof -
      have "j - length p < n" using 2 by linarith
      then show ?thesis by (simp add: code_bits_def)
    qed
    ultimately show ?thesis using 2 b c by (simp add: bit_or_iff nth_append)
  next
    case 3
    then have "\<not> ?m \<le> 39 - j" using assms(2,3) j by linarith
    then show ?thesis using 3 b c by (simp add: bit_or_iff)
  qed
qed

lemma holds_byte:
  assumes "holds bits p" and "8 \<le> length p"
  shows "byte_bits (ucast (drop_bit 32 bits)) = take 8 p"
proof -
  have "bit bits (39 - j) = p ! j" if "j < 8" for j
    using assms that by (simp add: holds_def)
  from this [of 0] this [of 1] this [of 2] this [of 3] this [of 4] this [of 5] this [of 6] this [of 7]
  have "byte_bits (ucast (drop_bit 32 bits)) = [p ! 0, p ! 1, p ! 2, p ! 3, p ! 4, p ! 5, p ! 6, p ! 7]"
    by (simp add: byte_bits_def bit_simps)
  also have "\<dots> = take 8 p"
    using assms(2) by (intro nth_equalityI) (auto simp: less_Suc_eq numeral_eq_Suc)
  finally show ?thesis .
qed

lemma holds_shift:
  assumes "holds bits p" and "8 \<le> length p" and "length p \<le> 40"
  shows "holds (push_bit 8 bits) (drop 8 p)"
  unfolding holds_def
proof (intro allI impI)
  fix j :: nat
  assume j: "j < 40"
  show "bit (push_bit 8 bits) (39 - j) \<longleftrightarrow> j < length (drop 8 p) \<and> drop 8 p ! j"
  proof (cases "j < 32")
    case True
    then have "39 - j - 8 = 39 - (j + 8)" "8 \<le> 39 - j" by linarith+
    moreover have "bit bits (39 - (j + 8)) \<longleftrightarrow> j + 8 < length p \<and> p ! (j + 8)"
      using assms(1) [unfolded holds_def, rule_format, of "j + 8"] True by simp
    moreover have "drop 8 p ! j = p ! (j + 8)" using assms(2) by (simp add: add.commute)
    moreover have "39 - j < 64" by simp
    ultimately show ?thesis using True by (auto simp: bit_push_bit_iff less_diff_conv)
  next
    case False
    then have "\<not> 8 \<le> 39 - j" "\<not> j < length p - 8" using assms(3) by linarith+
    then show ?thesis by (simp add: bit_push_bit_iff)
  qed
qed

text \<open>What the loops add to the destination, given room for it.\<close>

definition dst_add :: "DstBuf \<Rightarrow> bytes \<Rightarrow> DstBuf" where
  "dst_add dst bs = \<lparr>dst_bytes = dst_bytes dst @ bs, remaining_mut = remaining_mut dst - length bs\<rparr>"

lemma dst_add_simps [simp]:
  "dst_add dst [] = dst" "dst_add (dst_add dst bs) cs = dst_add dst (bs @ cs)"
  "remaining_mut (dst_add dst bs) = remaining_mut dst - length bs" "dst_bytes (dst_add dst bs) = dst_bytes dst @ bs"
  by (simp_all add: dst_add_def)

lemma dst_put_u8_add: "0 < remaining_mut dst \<Longrightarrow> dst_put_u8 b dst = Some (dst_add dst [b])"
  by (simp add: dst_put_u8_def dst_add_def)

lemma length_bytes_bits [simp]: "length (bytes_bits bs) = 8 * length bs"
  by (induction bs) (simp_all add: bytes_bits_def byte_bits_def)

lemma flush_writes:
  assumes "holds bits p" and "length p \<le> 40" and "length p div 8 \<le> remaining_mut dst"
  shows "\<exists>bits' bs p'. huff_flush bits (40 - length p) dst = Some (Ok (bits', 40 - length p'), dst_add dst bs) \<and>
    holds bits' p' \<and> length p' < 8 \<and> bytes_bits bs @ p' = p"
  using assms
proof (induction "length p" arbitrary: bits p dst rule: less_induct)
  case less
  show ?case
  proof (cases "8 \<le> length p")
    case True
    let ?b = "ucast (drop_bit 32 bits) :: u8" and ?q = "drop 8 p"
    have le: "40 - length p \<le> 32" using True by linarith
    have len: "40 - length p + 8 = 40 - length ?q" "length ?q < length p" "length ?q \<le> 40" using True less.prems(2) by auto
    have "length p div 8 = Suc (length ?q div 8)" using True by (simp add: le_div_geq)
    then have room: "0 < remaining_mut dst" "length ?q div 8 \<le> remaining_mut (dst_add dst [?b])" using less.prems(3) by auto
    obtain bits' bs p' where IH: "huff_flush (push_bit 8 bits) (40 - length ?q) (dst_add dst [?b]) =
        Some (Ok (bits', 40 - length p'), dst_add (dst_add dst [?b]) bs)"
      "holds bits' p'" "length p' < 8" "bytes_bits bs @ p' = ?q"
      using less.hyps [OF len(2) holds_shift [OF less.prems(1) True less.prems(2)] len(3) room(2)] by auto
    have "huff_flush bits (40 - length p) dst = Some (Ok (bits', 40 - length p'), dst_add dst (?b # bs))"
      using room(1) len(1) IH(1) le by (subst huff_flush.simps) (simp add: dst_put_u8_add)
    moreover have "bytes_bits (?b # bs) @ p' = p"
      using holds_byte [OF less.prems(1) True] IH(4) by (simp add: bytes_bits_def)
    ultimately show ?thesis using IH(2,3) by blast
  next
    case False
    then have "\<not> 40 - length p \<le> 32" by linarith
    then have "huff_flush bits (40 - length p) dst = Some (Ok (bits, 40 - length p), dst_add dst [])"
      by (subst huff_flush.simps) simp
    then show ?thesis using False less.prems(1) by (intro exI conjI) (assumption | simp)+
  qed
qed

lemma encode_loop_writes:
  assumes "holds bits p" and "length p < 8" and "(length p + length (enc_bits src)) div 8 \<le> remaining_mut dst"
  shows "\<exists>bits' bs p'. huff_encode_loop bits (40 - length p) src dst = Some (Ok (bits', 40 - length p'), dst_add dst bs) \<and>
    holds bits' p' \<and> length p' < 8 \<and> bytes_bits bs @ p' = p @ enc_bits src"
  using assms
proof (induction src arbitrary: bits p dst)
  case Nil
  then show ?case by (intro exI [of _ bits] exI [of _ "[]"] exI [of _ p]) (simp add: enc_bits_def)
next
  case (Cons b src)
  obtain n c where e: "ENCODE_TABLE ! unat b = (n, c)" by (cases "ENCODE_TABLE ! unat b")
  have s: "unat b < 257" using u8_bound [of b] by simp
  note code = table_code [OF s e]
  let ?q = "p @ code_bits (n, c)"
  have h: "holds (bits OR push_bit (40 - length p - n) c) ?q"
    using holds_code [OF Cons.prems(1,2) code(1)] code(2) by blast
  have enc: "p @ enc_bits (b # src) = ?q @ enc_bits src" using e by (simp add: enc_bits_def)
  have total: "length p + length (enc_bits (b # src)) = length ?q + length (enc_bits src)"
    using arg_cong [OF enc, of length] by simp
  have q40: "length ?q \<le> 40" and left: "40 - length p - n = 40 - length ?q" using Cons.prems(2) code(1) by simp_all
  have room: "length ?q div 8 \<le> remaining_mut dst"
    using Cons.prems(3) div_le_mono [of "length ?q" "length ?q + length (enc_bits src)" 8] unfolding total by linarith
  obtain bits1 bs1 p1 where 1: "huff_flush (bits OR push_bit (40 - length p - n) c) (40 - length ?q) dst =
      Some (Ok (bits1, 40 - length p1), dst_add dst bs1)" "holds bits1 p1" "length p1 < 8" "bytes_bits bs1 @ p1 = ?q"
    using flush_writes [OF h q40 room] by auto
  have "length ?q = 8 * length bs1 + length p1" using arg_cong [OF 1(4), of length] by simp
  then have "(length p1 + length (enc_bits src)) div 8 \<le> remaining_mut (dst_add dst bs1)"
    using Cons.prems(3) unfolding total by simp
  from Cons.IH [OF 1(2,3) this] obtain bits2 bs2 p2 where
    2: "huff_encode_loop bits1 (40 - length p1) src (dst_add dst bs1) = Some (Ok (bits2, 40 - length p2), dst_add dst (bs1 @ bs2))"
      "holds bits2 p2" "length p2 < 8" "bytes_bits bs2 @ p2 = p1 @ enc_bits src"
    by auto
  have "huff_encode_loop bits (40 - length p) (b # src) dst = Some (Ok (bits2, 40 - length p2), dst_add dst (bs1 @ bs2))"
    using e 1(1) 2(1) left by (simp add: Let_def)
  moreover have "bytes_bits (bs1 @ bs2) @ p2 = p @ enc_bits (b # src)"
    unfolding enc using 1(4) 2(4) by (metis append_assoc bytes_bits_simps(2))
  ultimately show ?case using 2(2,3) by blast
qed

lemma holds_pad:
  assumes "holds bits p" and "length p < 8"
  shows "byte_bits (ucast (drop_bit 32 (bits OR (push_bit (40 - length p) 1 - 1)))) = p @ replicate (8 - length p) True"
proof -
  let ?bits = "bits OR (push_bit (40 - length p) 1 - 1)" and ?q = "p @ replicate (8 - length p) True"
  have m: "push_bit (40 - length p) 1 - 1 = (mask (40 - length p) :: u64)"
    by (simp add: mask_eq_exp_minus_1 push_bit_eq_mult)
  have "bit ?bits (39 - j) = ?q ! j" if "j < 8" for j
    using assms that unfolding m by (auto simp: holds_def bit_or_iff bit_mask_iff nth_append)
  from this [of 0] this [of 1] this [of 2] this [of 3] this [of 4] this [of 5] this [of 6] this [of 7]
  have "byte_bits (ucast (drop_bit 32 ?bits)) = [?q ! 0, ?q ! 1, ?q ! 2, ?q ! 3, ?q ! 4, ?q ! 5, ?q ! 6, ?q ! 7]"
    by (simp only: byte_bits_def) (simp add: bit_simps)
  also have "\<dots> = ?q"
    using assms(2) by (intro nth_equalityI) (auto simp: less_Suc_eq numeral_eq_Suc)
  finally show ?thesis .
qed

lemma huff_encode_writes:
  assumes "(length (enc_bits src) + 7) div 8 \<le> remaining_mut dst"
  shows "\<exists>bs k. huff_encode src dst = Some (Ok (), dst_add dst bs) \<and> k < 8 \<and>
    bytes_bits bs = enc_bits src @ replicate k True"
proof -
  have h0: "holds 0 []" by (simp add: holds_def)
  have "length (enc_bits src) div 8 \<le> (length (enc_bits src) + 7) div 8" by (rule div_le_mono) simp
  then have room: "(length ([] :: bool list) + length (enc_bits src)) div 8 \<le> remaining_mut dst" using assms by simp
  obtain bits bs p where 1: "huff_encode_loop 0 40 src dst = Some (Ok (bits, 40 - length p), dst_add dst bs)"
    "holds bits p" "length p < 8" "bytes_bits bs @ p = enc_bits src"
    using encode_loop_writes [OF h0 _ room] by auto
  have len: "length (enc_bits src) = 8 * length bs + length p" using arg_cong [OF 1(4), of length] by simp
  show ?thesis
  proof (cases "p = []")
    case True
    then show ?thesis using 1 by (intro exI [of _ bs] exI [of _ 0]) (simp add: huff_encode_def)
  next
    case False
    let ?b = "ucast (drop_bit 32 (bits OR (push_bit (40 - length p) 1 - 1))) :: u8"
    have "0 < remaining_mut (dst_add dst bs)"
      using assms False len by (cases p) auto
    moreover have "40 - length p \<noteq> 40" using False by (cases p) auto
    ultimately have "huff_encode src dst = Some (Ok (), dst_add dst (bs @ [?b]))"
      using 1(1,3) by (simp add: huff_encode_def dst_put_u8_add Let_def)
    moreover have "bytes_bits (bs @ [?b]) = enc_bits src @ replicate (8 - length p) True"
      using holds_pad [OF 1(2,3)] 1(4) by (simp add: bytes_bits_def)
    moreover have "8 - length p < 8" using False by (cases p) auto
    ultimately show ?thesis by blast
  qed
qed

section \<open>Properties of the Huffman coder\<close>

text \<open>The room a string needs: its code bits, rounded up to whole bytes.\<close>

definition huff_size :: "bytes \<Rightarrow> nat" where
  "huff_size src = (sum_list (map (\<lambda>b. fst (ENCODE_TABLE ! unat b)) src) + 7) div 8"

lemma huff_size_bits: "huff_size src = (length (enc_bits src) + 7) div 8"
  by (simp add: huff_size_def enc_bits_def length_concat comp_def)

lemma huff_encode_decodes:
  assumes "huff_size src \<le> remaining_mut dst"
  shows "\<exists>bs. huff_encode src dst = Some (Ok (), dst_add dst bs) \<and> length bs = huff_size src \<and> huff_decode bs [] = (Ok src, [])"
proof -
  obtain bs k where e: "huff_encode src dst = Some (Ok (), dst_add dst bs)" and k: "k < 8"
    and b: "bytes_bits bs = enc_bits src @ replicate k True"
    using huff_encode_writes assms unfolding huff_size_bits by blast
  obtain u where u: "huff_walk huff_tree huff_tree (replicate k True) = Some (u, [])" "u = huff_tree \<or> huff_end u"
    using walk_ones [OF k] by blast
  have d: "fst (huff_decode bs []) = Ok src"
    using u unfolding huff_decode_walk b walk_enc_bits by (simp add: comp_def)
  have "8 * length bs = length (enc_bits src) + k" using arg_cong [OF b, of length] by simp
  then have "length bs = huff_size src" using k unfolding huff_size_bits by linarith
  then show ?thesis using e d huff_decode_buf [OF d] by (intro exI [of _ bs]) (simp add: prod_eq_iff)
qed

text \<open>C28: The table-driven decoder is the bit-by-bit walk of the code tree of RFC 7541, Appendix B.
  It accepts exactly the inputs whose bits the tree can read and that stop at a symbol
  boundary or inside a run of at most seven padding ones, and gives the symbols read.\<close>

theorem huff_decode_walks_tree:
  "fst (huff_decode src buf) =
     (case huff_walk huff_tree huff_tree (bytes_bits src) of
        None \<Rightarrow> Err InvalidHuffmanCode
      | Some (u, ss) \<Rightarrow> if u = huff_tree \<or> huff_end u then Ok (buf @ map of_nat ss) else Err InvalidHuffmanCode)"
  by (rule huff_decode_walk)

text \<open>C10: Huffman round trip. Whenever the destination has room for the code bits of a string,
  encoding it succeeds, appends exactly \<open>huff_size\<close> bytes, and decoding those bytes gives the string
  back.\<close>

theorem huffman_roundtrip:
  assumes "huff_size src \<le> remaining_mut dst"
  shows "\<exists>bs. huff_encode src dst =
      Some (Ok (), dst\<lparr>dst_bytes := dst_bytes dst @ bs, remaining_mut := remaining_mut dst - length bs\<rparr>) \<and>
    length bs = huff_size src \<and> huff_decode bs [] = (Ok src, [])"
  using huff_encode_decodes [OF assms] by (cases dst) (simp add: dst_add_def)

theorem huffman_roundtrip_witness:
  "\<exists>bs. huff_encode [0x30] \<lparr>dst_bytes = [7], remaining_mut = 4\<rparr> =
      Some (Ok (), \<lparr>dst_bytes = 7 # bs, remaining_mut = 4 - length bs\<rparr>) \<and> length bs = 1 \<and> huff_decode bs [] = (Ok [0x30], [])"
proof -
  have "huff_size [0x30] = 1"
    by (simp add: huff_size_def ENCODE_TABLE_def nth_append length_ENCODE_TABLE ENCODE_TABLE_0_def split: prod.splits)
  then show ?thesis
    using huffman_roundtrip [of "[0x30]" "\<lparr>dst_bytes = [7], remaining_mut = 4\<rparr>"] by simp
qed

end
