(* ===== verification/Hpack_Decoder.thy ===== *)
theory Hpack_Decoder
  imports Hpack_Static Hpack_Int Hpack_Huffman_Code "HOL-Library.Sublist"
begin

unbundle bit_operations_syntax

text \<open>
  The HPACK decoder of src/http/h2/hpack/decoder.rs: the dynamic table, the representations and the
  decoding loop over a cursor.  A block that is complete is cut off the buffer under the cursor, so a
  call that runs out of input leaves the incomplete block there.  The cursor is local to the only caller,
  which drops it when decoding fails: its position after an error is not observable and is not kept.
  A panic is \<open>None\<close>.
\<close>

section \<open>The dynamic table\<close>

record DTable =
  dt_entries :: "Header list"
  dt_size :: nat
  dt_max_size :: nat

definition DTable_new :: "nat \<Rightarrow> DTable" where
  "DTable_new max_size = \<lparr>dt_entries = [], dt_size = 0, dt_max_size = max_size\<rparr>"

definition dtable_get :: "http_ops \<Rightarrow> DTable \<Rightarrow> nat \<Rightarrow> (Header, DecoderError) result option" where
  "dtable_get H t idx =
     (if idx = 0 then Some (Err InvalidTableIndex)
      else if idx \<le> 61 then map_option Ok (get_static H idx)
      else Some (case index (dt_entries t) (idx - 62) of Some e \<Rightarrow> Ok e | None \<Rightarrow> Err InvalidTableIndex))"

text \<open>The last entry leaves the table.\<close>

definition pop_back :: "DTable \<Rightarrow> DTable" where
  "pop_back t = t\<lparr>dt_entries := butlast (dt_entries t), dt_size := dt_size t - header_len (last (dt_entries t))\<rparr>"

lemma pop_back_simps [simp]:
  "dt_entries (pop_back t) = butlast (dt_entries t)" "dt_max_size (pop_back t) = dt_max_size t"
  by (simp_all add: pop_back_def)

function dtable_reserve :: "DTable \<Rightarrow> nat \<Rightarrow> DTable" where
  "dtable_reserve t len =
     (if dt_size t + len > dt_max_size t \<and> dt_entries t \<noteq> [] then dtable_reserve (pop_back t) len else t)"
  by auto
termination by (relation "measure (\<lambda>(t, len). length (dt_entries t))") auto

declare dtable_reserve.simps [simp del]

definition dtable_insert :: "DTable \<Rightarrow> Header \<Rightarrow> DTable" where
  "dtable_insert t entry =
     (let len = header_len entry;
          t = dtable_reserve t len
      in if dt_size t + len \<le> dt_max_size t
         then t\<lparr>dt_size := dt_size t + len, dt_entries := entry # dt_entries t\<rparr>
         else t)"

function consolidate :: "DTable \<Rightarrow> DTable option" where
  "consolidate t =
     (if dt_size t > dt_max_size t then
        if dt_entries t = [] then None else consolidate (pop_back t)
      else Some t)"
  by auto
termination by (relation "measure (\<lambda>t. length (dt_entries t))") auto

declare consolidate.simps [simp del]

definition set_max_size :: "DTable \<Rightarrow> nat \<Rightarrow> DTable option" where
  "set_max_size t sz = consolidate (t\<lparr>dt_max_size := sz\<rparr>)"

section \<open>The cursor\<close>

record Cursor =
  cur_inner :: bytes
  cur_pos :: nat

definition cur_bytes :: "Cursor \<Rightarrow> bytes" where
  "cur_bytes c = drop (cur_pos c) (cur_inner c)"

definition peek_u8 :: "Cursor \<Rightarrow> u8 option" where
  "peek_u8 c = (case cur_bytes c of [] \<Rightarrow> None | b # _ \<Rightarrow> Some b)"

definition cur_take :: "Cursor \<Rightarrow> nat \<Rightarrow> (bytes \<times> Cursor) option" where
  "cur_take c n = do {
     (hd, tl) \<leftarrow> split_to (cur_pos c + n) (cur_inner c);
     (_, hd) \<leftarrow> split_to (cur_pos c) hd;
     Some (hd, \<lparr>cur_inner = tl, cur_pos = 0\<rparr>)
   }"

definition consume :: "Cursor \<Rightarrow> Cursor option" where
  "consume c = map_option snd (cur_take c 0)"

text \<open>Reading an integer through the cursor.\<close>

definition cur_decode_int :: "Cursor \<Rightarrow> nat \<Rightarrow> (nat \<times> Cursor, DecoderError) result" where
  "cur_decode_int c prefix_size =
     bind_ok (decode_int (cur_bytes c) prefix_size)
       (\<lambda>(n, rest). Ok (n, c\<lparr>cur_pos := length (cur_inner c) - length rest\<rparr>))"

section \<open>The decoder\<close>

record Decoder =
  max_size_update :: "nat option"
  last_max_update :: nat
  table :: DTable
  dec_buffer :: bytes

definition Decoder_new :: "nat \<Rightarrow> Decoder" where
  "Decoder_new sz = \<lparr>max_size_update = None, last_max_update = sz, table = DTable_new sz, dec_buffer = []\<rparr>"

definition queue_size_update :: "Decoder \<Rightarrow> nat \<Rightarrow> Decoder" where
  "queue_size_update d sz =
     d\<lparr>max_size_update := Some (case max_size_update d of Some v \<Rightarrow> max v sz | None \<Rightarrow> sz)\<rparr>"

datatype Representation = Indexed | LiteralWithIndexing | LiteralWithoutIndexing | LiteralNeverIndexed | SizeUpdate

definition Representation_load :: "u8 \<Rightarrow> (Representation, DecoderError) result" where
  "Representation_load byte =
     (if byte AND 0x80 = 0x80 then Ok Indexed
      else if byte AND 0x40 = 0x40 then Ok LiteralWithIndexing
      else if byte AND 0xf0 = 0 then Ok LiteralWithoutIndexing
      else if byte AND 0xf0 = 0x10 then Ok LiteralNeverIndexed
      else if byte AND 0xe0 = 0x20 then Ok SizeUpdate
      else Err InvalidRepresentation)"

text \<open>A step of the decoder: its outcome, the decoder and the cursor; sequencing stops at an error.\<close>

type_synonym 'a decoding = "(('a, DecoderError) result \<times> Decoder \<times> Cursor) option"

definition try_then :: "'a decoding \<Rightarrow> ('a \<Rightarrow> Decoder \<Rightarrow> Cursor \<Rightarrow> 'b decoding) \<Rightarrow> 'b decoding" where
  "try_then m f = m \<bind> (\<lambda>(r, d, c). case r of Ok x \<Rightarrow> f x d c | Err e \<Rightarrow> Some (Err e, d, c))"

definition try_int :: "Decoder \<Rightarrow> Cursor \<Rightarrow> nat \<Rightarrow> nat decoding" where
  "try_int d c prefix_size =
     (case cur_decode_int c prefix_size of Ok (n, c) \<Rightarrow> Some (Ok n, d, c) | Err e \<Rightarrow> Some (Err e, d, c))"

definition process_size_update :: "Decoder \<Rightarrow> Cursor \<Rightarrow> unit decoding" where
  "process_size_update d c =
     try_then (try_int d c 5) (\<lambda>new_size d c.
       if new_size > last_max_update d then Some (Err InvalidMaxDynamicSize, d, c)
       else do {
         t \<leftarrow> set_max_size (table d) new_size;
         Some (Ok (), d\<lparr>table := t\<rparr>, c)
       })"

definition decode_indexed :: "http_ops \<Rightarrow> Decoder \<Rightarrow> Cursor \<Rightarrow> Header decoding" where
  "decode_indexed H d c =
     try_then (try_int d c 7) (\<lambda>idx d c. map_option (\<lambda>r. (r, d, c)) (dtable_get H (table d) idx))"

definition decode_string :: "Decoder \<Rightarrow> Cursor \<Rightarrow> bytes decoding" where
  "decode_string d c =
     (case peek_u8 c of
        None \<Rightarrow> Some (Err (NeedMore UnexpectedEndOfStream), d, c)
      | Some h \<Rightarrow>
          let huff = (h AND 0x80 = 0x80) in
          try_then (try_int d c 7) (\<lambda>len d c.
            if len > length (cur_bytes c) then Some (Err (NeedMore StringUnderflow), d, c)
            else if huff then
              let (ret, buf) = huff_decode (take len (cur_bytes c)) (dec_buffer d)
              in Some (ret, d\<lparr>dec_buffer := buf\<rparr>, c\<lparr>cur_pos := cur_pos c + len\<rparr>)
            else do {
              (s, c) \<leftarrow> cur_take c len;
              Some (Ok s, d, c)
            }))"

definition decode_literal :: "http_ops \<Rightarrow> Decoder \<Rightarrow> Cursor \<Rightarrow> bool \<Rightarrow> Header decoding" where
  "decode_literal H d c idx =
     try_then (try_int d c (if idx then 6 else 4)) (\<lambda>table_idx d c.
       if table_idx = 0 then
         try_then (decode_string d c) (\<lambda>name d c.
         try_then (decode_string d c) (\<lambda>val d c.
         Some (Header_new H name val, d, c)))
       else
         try_then (map_option (\<lambda>r. (r, d, c)) (dtable_get H (table d) table_idx)) (\<lambda>e d c.
         try_then (decode_string d c) (\<lambda>val d c.
         Some (into_entry H (header_name e) val, d, c))))"

text \<open>One round of the loop: the header it yields, if any, and whether a size update may still follow.\<close>

definition decode_block :: "http_ops \<Rightarrow> bool \<Rightarrow> u8 \<Rightarrow> Decoder \<Rightarrow> Cursor \<Rightarrow> (Header option \<times> bool) decoding" where
  "decode_block H can_resize ty d c =
     (case Representation_load ty of
        Err e \<Rightarrow> Some (Err e, d, c)
      | Ok Indexed \<Rightarrow>
          try_then (decode_indexed H d c) (\<lambda>entry d c. do {
            c \<leftarrow> consume c;
            Some (Ok (Some entry, False), d, c)
          })
      | Ok LiteralWithIndexing \<Rightarrow>
          try_then (decode_literal H d c True) (\<lambda>entry d c. do {
            c \<leftarrow> consume c;
            Some (Ok (Some entry, False), d\<lparr>table := dtable_insert (table d) entry\<rparr>, c)
          })
      | Ok LiteralWithoutIndexing \<Rightarrow>
          try_then (decode_literal H d c False) (\<lambda>entry d c. do {
            c \<leftarrow> consume c;
            Some (Ok (Some entry, False), d, c)
          })
      | Ok LiteralNeverIndexed \<Rightarrow>
          try_then (decode_literal H d c False) (\<lambda>entry d c. do {
            c \<leftarrow> consume c;
            Some (Ok (Some entry, False), d, c)
          })
      | Ok SizeUpdate \<Rightarrow>
          if \<not> can_resize then Some (Err InvalidMaxDynamicSize, d, c)
          else try_then (process_size_update d c) (\<lambda>_ d c. do {
            c \<leftarrow> consume c;
            Some (Ok (None, can_resize), d, c)
          }))"

section \<open>Every round consumes input\<close>

definition cur_ok :: "Cursor \<Rightarrow> bool" where
  "cur_ok c \<longleftrightarrow> cur_pos c \<le> length (cur_inner c)"

text \<open>
  Reading cuts only bytes off the front of the buffer and, when it succeeds, moves past at least \<open>k\<close>
  bytes.
\<close>

definition reads :: "nat \<Rightarrow> Cursor \<Rightarrow> 'a decoding \<Rightarrow> bool" where
  "reads k c m \<longleftrightarrow> (\<forall>r d c'. m = Some (r, d, c') \<longrightarrow> suffix (cur_inner c') (cur_inner c) \<and>
     (\<forall>x. r = Ok x \<longrightarrow> (\<exists>us. cur_bytes c = us @ cur_bytes c' \<and> k \<le> length us)))"

lemma reads_try:
  assumes "reads k c m" and "\<And>x d' c'. m = Some (Ok x, d', c') \<Longrightarrow> reads l c' (f x d' c')"
  shows "reads (k + l) c (try_then m f)"
  unfolding reads_def
proof (intro allI impI)
  fix r d' c' assume "try_then m f = Some (r, d', c')"
  then obtain r1 d1 c1 where m: "m = Some (r1, d1, c1)"
    and f: "(case r1 of Ok x \<Rightarrow> f x d1 c1 | Err e \<Rightarrow> Some (Err e, d1, c1)) = Some (r, d', c')"
    by (auto simp: try_then_def bind_eq_Some_conv)
  show "suffix (cur_inner c') (cur_inner c) \<and> (\<forall>x. r = Ok x \<longrightarrow> (\<exists>us. cur_bytes c = us @ cur_bytes c' \<and> k + l \<le> length us))"
  proof (cases r1)
    case (Ok x)
    then obtain us where us: "cur_bytes c = us @ cur_bytes c1" "k \<le> length us" "suffix (cur_inner c1) (cur_inner c)"
      using assms(1) m unfolding reads_def by blast
    have 2: "suffix (cur_inner c') (cur_inner c1)"
      "r = Ok y \<Longrightarrow> \<exists>vs. cur_bytes c1 = vs @ cur_bytes c' \<and> l \<le> length vs" for y
      using assms(2) [of x d1 c1] m f Ok unfolding reads_def by auto
    have "\<exists>ws. cur_bytes c = ws @ cur_bytes c' \<and> k + l \<le> length ws" if r: "r = Ok y" for y
    proof -
      obtain vs where "cur_bytes c1 = vs @ cur_bytes c'" "l \<le> length vs" using 2(2) [OF r] by blast
      then show ?thesis using us by (intro exI [of _ "us @ vs"]) simp
    qed
    then show ?thesis using us(3) 2(1) suffix_order.trans by blast
  next
    case (Err e)
    then show ?thesis using assms(1) m f unfolding reads_def by auto
  qed
qed

lemma cur_decode_int_Ok:
  assumes "cur_decode_int c n = Ok (v, c')"
  shows "cur_inner c' = cur_inner c" and "cur_ok c'" and "\<exists>us. cur_bytes c = us @ cur_bytes c' \<and> us \<noteq> []"
proof -
  obtain rest where d: "decode_int (cur_bytes c) n = Ok (v, rest)"
    and c': "c' = c\<lparr>cur_pos := length (cur_inner c) - length rest\<rparr>"
    using assms by (auto simp: cur_decode_int_def bind_ok_eq_Ok)
  obtain us where us: "cur_bytes c = us @ rest" "us \<noteq> []" using decode_int_Ok(1) [OF d] by blast
  have "cur_inner c = take (cur_pos c) (cur_inner c) @ us @ rest"
    using us(1) by (metis append_take_drop_id cur_bytes_def)
  then have "drop (length (cur_inner c) - length rest) (cur_inner c) = rest"
    by (metis append_assoc append_eq_conv_conj length_append add_diff_cancel_right')
  then show "\<exists>us. cur_bytes c = us @ cur_bytes c' \<and> us \<noteq> []" using us c' by (auto simp: cur_bytes_def)
  show "cur_inner c' = cur_inner c" "cur_ok c'" by (simp_all add: c' cur_ok_def)
qed

lemma reads_int: "reads 1 c (try_int d c n)"
  using cur_decode_int_Ok [of c n] unfolding reads_def try_int_def
  by (fastforce simp: Suc_le_eq split: result.splits)

lemma cur_take_Some:
  "cur_take c n = Some (bs, c') \<longleftrightarrow> cur_ok c \<and> n \<le> length (cur_bytes c) \<and>
     bs = take n (cur_bytes c) \<and> c' = \<lparr>cur_inner = drop n (cur_bytes c), cur_pos = 0\<rparr>"
  by (auto simp: cur_take_def split_to_def bind_eq_Some_conv cur_bytes_def cur_ok_def drop_take add.commute
      split: if_splits)

lemma consume_Some:
  "consume c = Some c' \<longleftrightarrow> cur_ok c \<and> c' = \<lparr>cur_inner = cur_bytes c, cur_pos = 0\<rparr>"
  by (auto simp: consume_def cur_take_Some)

lemma suffix_cur_bytes: "suffix (drop n (cur_bytes c)) (cur_inner c)"
  unfolding cur_bytes_def by (metis suffix_drop suffix_order.trans)

lemma reads_string: "reads 1 c (decode_string d c)"
proof (cases "peek_u8 c")
  case (Some h)
  let ?huff = "h AND 0x80 = 0x80"
  have "reads 0 c' (if len > length (cur_bytes c') then Some (Err (NeedMore StringUnderflow), d', c')
      else if ?huff then
        let (ret, buf) = huff_decode (take len (cur_bytes c')) (dec_buffer d')
        in Some (ret, d'\<lparr>dec_buffer := buf\<rparr>, c'\<lparr>cur_pos := cur_pos c' + len\<rparr>)
      else do { (s, c') \<leftarrow> cur_take c' len; Some (Ok s, d', c') })" for len d' c'
    using suffix_cur_bytes [of len c']
    by (auto simp: reads_def Let_def bind_eq_Some_conv cur_take_Some cur_bytes_def [of "_\<lparr>cur_pos := _\<rparr>"]
        cur_bytes_def [of "\<lparr>cur_inner = _, cur_pos = _\<rparr>"] split: prod.splits intro: append_take_drop_id [symmetric])
      (simp add: cur_bytes_def add.commute drop_drop [symmetric] del: drop_drop, metis append_take_drop_id)
  then have "reads (1 + 0) c (decode_string d c)"
    unfolding decode_string_def Some option.case Let_def by (intro reads_try reads_int)
  then show ?thesis by simp
qed (simp add: decode_string_def reads_def)

lemma reads_pure [simp]: "reads 0 c (Some (r, d, c))" "reads 0 c (map_option (\<lambda>r. (r, d, c)) x)"
  by (auto simp: reads_def)

lemma reads_mono: "reads k c m \<Longrightarrow> l \<le> k \<Longrightarrow> reads l c m"
  unfolding reads_def by (metis (no_types, lifting) order.trans)

lemma reads_indexed: "reads 1 c (decode_indexed H d c)"
proof -
  have "reads (1 + 0) c (decode_indexed H d c)"
    unfolding decode_indexed_def by (intro reads_try reads_int) simp
  then show ?thesis by simp
qed

lemma reads_size_update: "reads 1 c (process_size_update d c)"
proof -
  have "reads (1 + 0) c (process_size_update d c)"
    unfolding process_size_update_def
    by (intro reads_try reads_int) (auto simp: reads_def bind_eq_Some_conv)
  then show ?thesis by simp
qed

lemma reads_literal: "reads 1 c (decode_literal H d c idx)"
proof -
  have 1: "reads 0 c' (try_then (decode_string d' c') (\<lambda>val d c. Some (f val, d, c)))" for f :: "bytes \<Rightarrow> ('x, DecoderError) result" and d' c'
    by (rule reads_mono [OF reads_try [OF reads_string, where l = 0]]) simp_all
  have 2: "reads 0 c' (try_then (decode_string d' c') (\<lambda>name d c. try_then (decode_string d c) (\<lambda>val d c. Some (f name val, d, c))))"
    for f :: "bytes \<Rightarrow> bytes \<Rightarrow> ('x, DecoderError) result" and d' c'
    by (rule reads_mono [OF reads_try [OF reads_string, where l = 0]]) (simp_all add: 1)
  have "reads (1 + 0) c (decode_literal H d c idx)"
    unfolding decode_literal_def
  proof (intro reads_try reads_int)
    fix n d' c'
    have "reads (0 + 0) c' (try_then (map_option (\<lambda>r. (r, d', c')) (dtable_get H (table d') n))
        (\<lambda>e d c. try_then (decode_string d c) (\<lambda>val d c. Some (into_entry H (header_name e) val, d, c))))"
      by (intro reads_try) (simp_all add: 1)
    then show "reads 0 c' (if n = 0 then try_then (decode_string d' c')
           (\<lambda>name d c. try_then (decode_string d c) (\<lambda>val d c. Some (Header_new H name val, d, c)))
        else try_then (map_option (\<lambda>r. (r, d', c')) (dtable_get H (table d') n))
        (\<lambda>e d c. try_then (decode_string d c) (\<lambda>val d c. Some (into_entry H (header_name e) val, d, c))))"
      by (simp add: 2)
  qed
  then show ?thesis by simp
qed

lemma reads_consume: "reads 0 c (consume c \<bind> (\<lambda>c. Some (r, d, c)))"
  using suffix_cur_bytes [of 0 c] by (auto simp: reads_def bind_eq_Some_conv consume_Some cur_bytes_def)

lemma reads_then_consume:
  "reads 1 c m \<Longrightarrow> reads 1 c (try_then m (\<lambda>x d c. consume c \<bind> (\<lambda>c. Some (r x, g x d, c))))"
  using reads_try [where k = 1 and l = 0 and f = "\<lambda>x d c. consume c \<bind> (\<lambda>c. Some (r x, g x d, c))"]
  by (simp add: reads_consume)

lemma reads_Err [simp]: "reads k c (Some (Err e, d, c))"
  by (simp add: reads_def)

lemma reads_block: "reads 1 c (decode_block H can_resize ty d c)"
  by (simp add: decode_block_def reads_then_consume [where g = "\<lambda>_ d. d"]
      reads_then_consume [where g = "\<lambda>x d. d\<lparr>table := dtable_insert (table d) x\<rparr>"]
      reads_indexed reads_literal reads_size_update del: One_nat_def split: result.split Representation.split)

section \<open>The decoding loop\<close>

text \<open>The headers are those handed to the callback, in order.\<close>

function decode_loop :: "http_ops \<Rightarrow> bool \<Rightarrow> Decoder \<Rightarrow> Cursor \<Rightarrow> ((unit, DecoderError) result \<times> Decoder \<times> Cursor \<times> Header list) option" where
  "decode_loop H can_resize d c =
     (case peek_u8 c of
        None \<Rightarrow> Some (Ok (), d, c, [])
      | Some ty \<Rightarrow>
          (case decode_block H can_resize ty d c of
             None \<Rightarrow> None
           | Some (Err e, d, c) \<Rightarrow> Some (Err e, d, c, [])
           | Some (Ok (entry, can_resize), d, c) \<Rightarrow>
               map_option (\<lambda>(r, d, c, hs). (r, d, c, (case entry of Some h \<Rightarrow> [h] | None \<Rightarrow> []) @ hs))
                 (decode_loop H can_resize d c)))"
  by auto
termination
proof (relation "measure (\<lambda>(H, can_resize, d, c). length (cur_bytes c))", simp)
  fix H can_resize d c ty x r y p entry can_resize' d' c'
  assume "decode_block H can_resize ty d c = Some x" "(r, y) = x" "(d', c') = y" "r = Ok p" "(entry, can_resize') = p"
  then have "\<exists>us. cur_bytes c = us @ cur_bytes c' \<and> 1 \<le> length us"
    using reads_block [of c H can_resize ty d] unfolding reads_def by blast
  then show "((H, can_resize', d', c'), (H, can_resize, d, c)) \<in> measure (\<lambda>(H, can_resize, d, c). length (cur_bytes c))"
    by auto
qed

declare decode_loop.simps [simp del]

definition Decoder_decode :: "http_ops \<Rightarrow> Decoder \<Rightarrow> Cursor \<Rightarrow> ((unit, DecoderError) result \<times> Decoder \<times> Cursor \<times> Header list) option" where
  "Decoder_decode H d c =
     (let d = (case max_size_update d of
                 Some sz \<Rightarrow> d\<lparr>max_size_update := None, last_max_update := sz\<rparr>
               | None \<Rightarrow> d)
      in decode_loop H True d c)"

section \<open>The dynamic table evicts exactly what does not fit\<close>

definition total_len :: "Header list \<Rightarrow> nat" where
  "total_len hs = sum_list (map header_len hs)"

definition dtable_inv :: "DTable \<Rightarrow> bool" where
  "dtable_inv t \<longleftrightarrow> dt_size t = total_len (dt_entries t) \<and> dt_size t \<le> dt_max_size t"

text \<open>The specification: of the entries, newest first, those that fit into the size.\<close>

fun fit :: "nat \<Rightarrow> Header list \<Rightarrow> Header list" where
  "fit m [] = []"
| "fit m (h # hs) = (if header_len h \<le> m then h # fit (m - header_len h) hs else [])"

lemma total_len_simps [simp]: "total_len [] = 0" "total_len (h # hs) = header_len h + total_len hs"
  by (simp_all add: total_len_def)

lemma total_len_butlast: "hs \<noteq> [] \<Longrightarrow> total_len hs - header_len (last hs) = total_len (butlast hs)"
  by (induction hs rule: rev_induct) (simp_all add: total_len_def)

lemma header_len_pos: "0 < header_len h"
  by (cases h) (simp_all add: header_field_len_def)

lemma fit_le: "total_len (fit m hs) \<le> m"
  by (induction m hs rule: fit.induct) auto

lemma fit_all: "total_len hs \<le> m \<Longrightarrow> fit m hs = hs"
  by (induction m hs rule: fit.induct) auto

lemma fit_set: "set (fit m hs) \<subseteq> set hs"
  by (induction m hs rule: fit.induct) auto

lemma fit_butlast: "m < total_len hs \<Longrightarrow> fit m (butlast hs) = fit m hs"
  by (induction m hs rule: fit.induct) auto

lemma consolidate_fit:
  assumes "dt_size t = total_len (dt_entries t)"
  shows "consolidate t = Some (t\<lparr>dt_entries := fit (dt_max_size t) (dt_entries t),
    dt_size := total_len (fit (dt_max_size t) (dt_entries t))\<rparr>)"
  using assms
proof (induction t rule: consolidate.induct)
  case (1 t)
  show ?case
  proof (cases "dt_size t > dt_max_size t")
    case True
    then have ne: "dt_entries t \<noteq> []" using 1(2) by auto
    then have "dt_size (pop_back t) = total_len (dt_entries (pop_back t))"
      using 1(2) by (simp add: pop_back_def total_len_butlast)
    with 1(1) [OF True ne] show ?thesis
      using True ne 1(2) by (subst consolidate.simps) (simp add: pop_back_def fit_butlast)
  next
    case False
    then show ?thesis using 1(2) by (subst consolidate.simps) (simp add: fit_all)
  qed
qed

lemma reserve_fit:
  assumes "dt_size t = total_len (dt_entries t)"
  shows "dtable_reserve t len =
    (let es = if len \<le> dt_max_size t then fit (dt_max_size t - len) (dt_entries t) else []
     in t\<lparr>dt_entries := es, dt_size := total_len es\<rparr>)"
  using assms
proof (induction t len rule: dtable_reserve.induct)
  case (1 t len)
  show ?case
  proof (cases "dt_size t + len > dt_max_size t \<and> dt_entries t \<noteq> []")
    case True
    then have "dt_size (pop_back t) = total_len (dt_entries (pop_back t))"
      using 1(2) by (simp add: pop_back_def total_len_butlast)
    with 1(1) [OF True] show ?thesis
      using True 1(2) by (subst dtable_reserve.simps) (auto simp: pop_back_def fit_butlast)
  next
    case False
    then show ?thesis using 1(2) by (subst dtable_reserve.simps) (auto simp: fit_all)
  qed
qed

lemma insert_fit:
  assumes "dtable_inv t"
  shows "dtable_insert t e = t\<lparr>dt_entries := fit (dt_max_size t) (e # dt_entries t),
      dt_size := total_len (fit (dt_max_size t) (e # dt_entries t))\<rparr>"
  using assms fit_le [of "dt_max_size t - header_len e" "dt_entries t"]
  by (auto simp: dtable_inv_def dtable_insert_def reserve_fit Let_def)

lemma set_max_size_fit:
  assumes "dtable_inv t"
  shows "set_max_size t n = Some \<lparr>dt_entries = fit n (dt_entries t), dt_size = total_len (fit n (dt_entries t)), dt_max_size = n\<rparr>"
  using assms by (simp add: set_max_size_def dtable_inv_def consolidate_fit)

section \<open>Decoding never panics\<close>

definition safe :: "(Decoder \<Rightarrow> bool) \<Rightarrow> ('a \<Rightarrow> bool) \<Rightarrow> 'a decoding \<Rightarrow> bool" where
  "safe I Q m \<longleftrightarrow> (\<exists>r d c. m = Some (r, d, c) \<and> I d \<and> cur_ok c \<and> (\<forall>x. r = Ok x \<longrightarrow> Q x))"

lemma safe_try:
  assumes "safe I Q m" and "\<And>x d c. I d \<Longrightarrow> cur_ok c \<Longrightarrow> Q x \<Longrightarrow> safe I R (f x d c)"
  shows "safe I R (try_then m f)"
proof -
  obtain r d c where m: "m = Some (r, d, c)" "I d" "cur_ok c" "\<And>x. r = Ok x \<Longrightarrow> Q x"
    using assms(1) unfolding safe_def by blast
  show ?thesis
  proof (cases r)
    case (Ok x)
    then show ?thesis using assms(2) [OF m(2,3) m(4) [OF Ok]] m(1) by (simp add: try_then_def)
  next
    case (Err e)
    then show ?thesis using m by (simp add: try_then_def safe_def)
  qed
qed

definition dec_inv :: "http_ops \<Rightarrow> Decoder \<Rightarrow> bool" where
  "dec_inv H d \<longleftrightarrow> dtable_inv (table d) \<and> list_all (valid_header H) (dt_entries (table d))"

lemma dec_inv_simps [simp]: "dec_inv H (d\<lparr>dec_buffer := b\<rparr>) = dec_inv H d"
  "dec_inv H (d\<lparr>last_max_update := n\<rparr>) = dec_inv H d" "dec_inv H (d\<lparr>max_size_update := u\<rparr>) = dec_inv H d"
  by (simp_all add: dec_inv_def)

lemma safe_int: "dec_inv H d \<Longrightarrow> cur_ok c \<Longrightarrow> safe (dec_inv H) (\<lambda>_. True) (try_int d c n)"
  by (auto simp: safe_def try_int_def cur_decode_int_Ok(2) split: result.split)

lemma safe_string:
  assumes "dec_inv H d" and "cur_ok c"
  shows "safe (dec_inv H) (\<lambda>_. True) (decode_string d c)"
proof (cases "peek_u8 c")
  case (Some h)
  have take: "cur_take c' len = Some (take len (cur_bytes c'), \<lparr>cur_inner = drop len (cur_bytes c'), cur_pos = 0\<rparr>)"
    if "cur_ok c'" "len \<le> length (cur_bytes c')" for c' len
    using that by (simp add: cur_take_Some)
  show ?thesis
    unfolding decode_string_def Some option.case Let_def
    by (rule safe_try [OF safe_int [OF assms]])
      (auto simp: safe_def take cur_ok_def [of "_\<lparr>cur_pos := _\<rparr>"] cur_ok_def [of "\<lparr>cur_inner = _, cur_pos = _\<rparr>"]
        cur_bytes_def split: prod.split, simp add: cur_ok_def)
qed (simp add: decode_string_def safe_def assms)

lemma safe_consume:
  assumes "I d" and "cur_ok c" and "Q x"
  shows "safe I Q (consume c \<bind> (\<lambda>c. Some (Ok x, d, c)))"
proof -
  have "consume c = Some \<lparr>cur_inner = cur_bytes c, cur_pos = 0\<rparr>" using assms(2) by (simp add: consume_Some)
  then show ?thesis using assms by (simp add: safe_def cur_ok_def)
qed

lemma dec_inv_insert:
  assumes "dec_inv H d" and "valid_header H e"
  shows "dec_inv H (d\<lparr>table := dtable_insert (table d) e\<rparr>)"
  using assms fit_le [of "dt_max_size (table d)" "e # dt_entries (table d)"] fit_set [of "dt_max_size (table d)" "e # dt_entries (table d)"]
  by (auto simp: dec_inv_def insert_fit list_all_iff dtable_inv_def simp del: fit.simps)

lemma safe_size_update:
  assumes "dec_inv H d" and "cur_ok c"
  shows "safe (dec_inv H) (\<lambda>_. True) (process_size_update d c)"
  unfolding process_size_update_def
proof (rule safe_try [OF safe_int [OF assms]])
  fix n d c assume d: "dec_inv H d" "cur_ok c"
  have "set_max_size (table d) n = Some \<lparr>dt_entries = fit n (dt_entries (table d)),
      dt_size = total_len (fit n (dt_entries (table d))), dt_max_size = n\<rparr>"
    using d by (simp add: dec_inv_def set_max_size_fit)
  then show "safe (dec_inv H) (\<lambda>_. True) (if n > last_max_update d then Some (Err InvalidMaxDynamicSize, d, c)
       else set_max_size (table d) n \<bind> (\<lambda>t. Some (Ok (), d\<lparr>table := t\<rparr>, c)))"
    using d fit_le [of n "dt_entries (table d)"] fit_set [of n "dt_entries (table d)"]
    by (auto simp: safe_def dec_inv_def dtable_inv_def list_all_iff)
qed

context http_types
begin

lemma dtable_get_safe:
  assumes "dec_inv H d"
  shows "\<exists>r. dtable_get H (table d) n = Some r \<and> (\<forall>e. r = Ok e \<longrightarrow> valid_header H e)"
proof -
  have "\<exists>e. get_static H n = Some e \<and> valid_header H e" if "n \<noteq> 0" "n \<le> 61"
    using that static_valid by (auto simp: get_static_Some)
  then show ?thesis
    using assms by (auto simp: dtable_get_def dec_inv_def index_def list_all_length)
qed

lemma safe_get:
  assumes "dec_inv H d" and "cur_ok c"
  shows "safe (dec_inv H) (valid_header H) (map_option (\<lambda>r. (r, d, c)) (dtable_get H (table d) n))"
  using dtable_get_safe [OF assms(1), of n] assms by (auto simp: safe_def)

lemma safe_pure:
  "dec_inv H d \<Longrightarrow> cur_ok c \<Longrightarrow> (\<And>x. r = Ok x \<Longrightarrow> Q x) \<Longrightarrow> safe (dec_inv H) Q (Some (r, d, c))"
  by (auto simp: safe_def)

lemma safe_indexed:
  assumes "dec_inv H d" and "cur_ok c"
  shows "safe (dec_inv H) (valid_header H) (decode_indexed H d c)"
  unfolding decode_indexed_def by (rule safe_try [OF safe_int [OF assms]]) (rule safe_get)

lemma safe_literal:
  assumes "dec_inv H d" and "cur_ok c"
  shows "safe (dec_inv H) (valid_header H) (decode_literal H d c b)"
  unfolding decode_literal_def
proof (rule safe_try [OF safe_int [OF assms]])
  fix n d c assume d: "dec_inv H d" "cur_ok c"
  have 1: "safe (dec_inv H) (valid_header H) (try_then (decode_string d c) (\<lambda>name d c.
      try_then (decode_string d c) (\<lambda>val d c. Some (Header_new H name val, d, c))))"
    by (rule safe_try [OF safe_string [OF d]], rule safe_try [OF safe_string], assumption+, rule safe_pure)
      (auto dest: Header_new_valid)
  have 2: "safe (dec_inv H) (valid_header H) (try_then (map_option (\<lambda>r. (r, d, c)) (dtable_get H (table d) n))
      (\<lambda>e d c. try_then (decode_string d c) (\<lambda>val d c. Some (into_entry H (header_name e) val, d, c))))"
    by (rule safe_try [OF safe_get [OF d]], rule safe_try [OF safe_string], assumption+, rule safe_pure)
      (auto dest: into_entry_valid)
  show "safe (dec_inv H) (valid_header H)
     (if n = 0 then try_then (decode_string d c) (\<lambda>name d c. try_then (decode_string d c) (\<lambda>val d c. Some (Header_new H name val, d, c)))
      else try_then (map_option (\<lambda>r. (r, d, c)) (dtable_get H (table d) n))
        (\<lambda>e d c. try_then (decode_string d c) (\<lambda>val d c. Some (into_entry H (header_name e) val, d, c))))"
    using 1 2 by simp
qed

lemma safe_block:
  assumes "dec_inv H d" and "cur_ok c"
  shows "safe (dec_inv H) (\<lambda>(e, _). \<forall>h. e = Some h \<longrightarrow> valid_header H h) (decode_block H can_resize ty d c)"
proof -
  note lit = safe_try [OF safe_literal [OF assms]] and idx = safe_try [OF safe_indexed [OF assms]]
    and upd = safe_try [OF safe_size_update [OF assms]]
  show ?thesis
    unfolding decode_block_def
    by (auto split: result.split Representation.split
        intro!: lit idx upd safe_consume dec_inv_insert safe_pure assms)
qed

lemma decode_loop_safe:
  assumes "dec_inv H d" and "cur_ok c"
  shows "\<exists>r d' c' hs. decode_loop H can_resize d c = Some (r, d', c', hs) \<and> dec_inv H d' \<and> cur_ok c' \<and>
    list_all (valid_header H) hs \<and> suffix (cur_inner c') (cur_inner c) \<and> (r = Ok () \<longrightarrow> cur_bytes c' = [])"
  using assms
proof (induction "length (cur_bytes c)" arbitrary: can_resize d c rule: less_induct)
  case less
  show ?case
  proof (cases "peek_u8 c")
    case None
    then show ?thesis
      using less.prems by (subst decode_loop.simps) (auto simp: peek_u8_def split: list.splits)
  next
    case (Some ty)
    obtain r1 d1 c1 where b: "decode_block H can_resize ty d c = Some (r1, d1, c1)" "dec_inv H d1" "cur_ok c1"
      and h: "\<And>e b. r1 = Ok (Some e, b) \<Longrightarrow> valid_header H e"
      using safe_block [OF less.prems, of can_resize ty] unfolding safe_def by auto
    have suf: "suffix (cur_inner c1) (cur_inner c)"
      using reads_block [of c H can_resize ty d] b(1) unfolding reads_def by blast
    show ?thesis
    proof (cases r1)
      case (Ok x)
      then obtain e cr where x: "r1 = Ok (e, cr)" by (cases x) auto
      have "\<exists>us. cur_bytes c = us @ cur_bytes c1 \<and> 1 \<le> length us"
        using reads_block [of c H can_resize ty d] b(1) x unfolding reads_def by blast
      then have "length (cur_bytes c1) < length (cur_bytes c)" by auto
      from less.hyps [OF this b(2,3), of cr] obtain r' d' c' hs where IH: "decode_loop H cr d1 c1 = Some (r', d', c', hs)"
        "dec_inv H d'" "cur_ok c'" "list_all (valid_header H) hs" "suffix (cur_inner c') (cur_inner c1)" "r' = Ok () \<longrightarrow> cur_bytes c' = []"
        by blast
      have "decode_loop H can_resize d c = Some (r', d', c', (case e of Some h \<Rightarrow> [h] | None \<Rightarrow> []) @ hs)"
        using Some b(1) x IH(1) by (subst decode_loop.simps) simp
      moreover have "list_all (valid_header H) ((case e of Some h \<Rightarrow> [h] | None \<Rightarrow> []) @ hs)"
        using IH(4) h x by (auto split: option.splits)
      ultimately show ?thesis using IH suf suffix_order.trans by blast
    next
      case (Err e)
      then show ?thesis using Some b suf by (subst decode_loop.simps) simp
    qed
  qed
qed

end

lemma Decoder_decode_loop:
  "dec_inv H d \<Longrightarrow> \<exists>d0. dec_inv H d0 \<and> Decoder_decode H d c = decode_loop H True d0 c"
  by (rule exI [of _ "case max_size_update d of
        Some sz \<Rightarrow> d\<lparr>max_size_update := None, last_max_update := sz\<rparr> | None \<Rightarrow> d"])
    (simp add: Decoder_decode_def split: option.split)

section \<open>Properties of the decoder\<close>

text \<open>C12: The dynamic table is the one of RFC 7541, section 4: inserting an entry keeps of the new entry and the
  old ones, newest first, exactly those that fit into the maximum size (none if the entry alone is larger),
  and changing the maximum size keeps exactly those that fit; the size stays the sum of the entries' sizes
  within the maximum, and the panic of consolidate is never reached.\<close>

theorem hpack_table_evicts_exactly:
  assumes "dtable_inv t"
  shows "dt_entries (dtable_insert t e) = fit (dt_max_size t) (e # dt_entries t) \<and> dtable_inv (dtable_insert t e) \<and>
    (\<exists>t'. set_max_size t n = Some t' \<and> dt_entries t' = fit n (dt_entries t) \<and> dt_max_size t' = n \<and> dtable_inv t')"
  using assms fit_le [of n "dt_entries t"] fit_le [of "dt_max_size t" "e # dt_entries t"]
  by (simp add: insert_fit set_max_size_fit dtable_inv_def del: fit.simps)

theorem hpack_table_evicts_exactly_witness:
  "dt_entries (dtable_insert \<lparr>dt_entries = [Status 200, Path [47]], dt_size = 80, dt_max_size = 90\<rparr> (Status 404)) = [Status 404, Status 200]"
  using hpack_table_evicts_exactly [of "\<lparr>dt_entries = [Status 200, Path [47]], dt_size = 80, dt_max_size = 90\<rparr>" "Status 404" 0]
  by (simp add: dtable_inv_def)

text \<open>C9: Decoding a header block always returns: on every input the loop ends without a panic, with success
  only when every byte is decoded, and what it leaves in the buffer is a suffix of what was there.\<close>

theorem hpack_decode_returns:
  assumes "http_types H" and "dec_inv H d" and "cur_ok c"
  shows "\<exists>r d' c' hs. Decoder_decode H d c = Some (r, d', c', hs) \<and> suffix (cur_inner c') (cur_inner c) \<and>
    (r = Ok () \<longrightarrow> cur_bytes c' = [])"
  using Decoder_decode_loop [OF assms(2), of c] http_types.decode_loop_safe [OF assms(1) _ assms(3), of _ True] by metis

theorem hpack_decode_returns_witness:
  "\<exists>d'. Decoder_decode std_http (Decoder_new 4096) \<lparr>cur_inner = [0x82], cur_pos = 0\<rparr> =
     Some (Ok (), d', \<lparr>cur_inner = [], cur_pos = 0\<rparr>, [Method (ascii ''GET'')])"
proof -
  have "dec_inv std_http (Decoder_new 4096)" "cur_ok \<lparr>cur_inner = [0x82], cur_pos = 0\<rparr>"
    by (simp_all add: dec_inv_def Decoder_new_def DTable_new_def dtable_inv_def cur_ok_def)
  note r = hpack_decode_returns [OF std_http.http_types_axioms this]
  have "map_option (\<lambda>(r, d, c, hs). (r, c, hs)) (Decoder_decode std_http (Decoder_new 4096) \<lparr>cur_inner = [0x82], cur_pos = 0\<rparr>) =
     Some (Ok (), \<lparr>cur_inner = [], cur_pos = 0\<rparr>, [Method (ascii ''GET'')])"
    by code_simp
  then show ?thesis using r by auto
qed

text \<open>C29: What the decoder hands out is well typed: every header of a block, and every entry the dynamic
  table holds afterwards, has a name and a value that the constructors of its type accept, and the size of
  the table is the sum of its entries' within the maximum.\<close>

theorem hpack_decode_typed:
  assumes "http_types H" and "dec_inv H d" and "cur_ok c" and "Decoder_decode H d c = Some (r, d', c', hs)"
  shows "list_all (valid_header H) hs \<and> list_all (valid_header H) (dt_entries (table d')) \<and> dtable_inv (table d')"
proof -
  obtain d0 where d0: "dec_inv H d0" "Decoder_decode H d c = decode_loop H True d0 c"
    using Decoder_decode_loop [OF assms(2), of c] by blast
  from http_types.decode_loop_safe [OF assms(1) d0(1) assms(3), of True] show ?thesis
    using assms(4) d0(2) by (auto simp: dec_inv_def)
qed

theorem hpack_decode_typed_witness:
  "list_all (valid_header std_http) [Method (ascii ''GET'')]"
proof -
  have i: "dec_inv std_http (Decoder_new 4096)" "cur_ok \<lparr>cur_inner = [0x82], cur_pos = 0\<rparr>"
    by (simp_all add: dec_inv_def Decoder_new_def DTable_new_def dtable_inv_def cur_ok_def)
  have "map_option (\<lambda>(r, d, c, hs). hs) (Decoder_decode std_http (Decoder_new 4096) \<lparr>cur_inner = [0x82], cur_pos = 0\<rparr>) =
     Some [Method (ascii ''GET'')]"
    by code_simp
  then obtain r d' c' where "Decoder_decode std_http (Decoder_new 4096) \<lparr>cur_inner = [0x82], cur_pos = 0\<rparr> =
      Some (r, d', c', [Method (ascii ''GET'')])" by auto
  from hpack_decode_typed [OF std_http.http_types_axioms i this] show ?thesis by simp
qed

end
