(* ===== verification/Hpack_Encode.thy ===== *)
theory Hpack_Encode
  imports Hpack_Decoder
begin

unbundle bit_operations_syntax

text \<open>
  The free functions of src/http/h2/hpack/encoder.rs that write strings and literal fields into the
  destination, and the round trip of strings with \<^verbatim>\<open>decode_string\<close>.
\<close>

section \<open>Writing strings\<close>

text \<open>\<^verbatim>\<open>put_slice\<close>, and an assignment \<^verbatim>\<open>written[i] = b\<close> in what is written: both panic out of bounds.\<close>

definition dst_put_slice :: "bytes \<Rightarrow> DstBuf \<Rightarrow> DstBuf option" where
  "dst_put_slice bs dst =
     (if length bs \<le> remaining_mut dst
      then Some \<lparr>dst_bytes = dst_bytes dst @ bs, remaining_mut = remaining_mut dst - length bs\<rparr>
      else None)"

definition index_set :: "'a list \<Rightarrow> nat \<Rightarrow> 'a \<Rightarrow> 'a list option" where
  "index_set xs i x = (if i < length xs then Some (xs[i := x]) else None)"

definition position :: "DstBuf \<Rightarrow> nat" where
  "position dst = length (dst_bytes dst)"

definition rewind :: "DstBuf \<Rightarrow> nat \<Rightarrow> DstBuf" where
  "rewind dst pos = dst\<lparr>dst_bytes := take pos (dst_bytes dst)\<rparr>"

text \<open>The two loops of \<^verbatim>\<open>encode_str\<close> that make room for a long length and copy it in.\<close>

primrec shift_loop :: "nat list \<Rightarrow> nat \<Rightarrow> nat \<Rightarrow> nat \<Rightarrow> bytes \<Rightarrow> bytes option" where
  "shift_loop [] idx head_len huff_len written = Some written"
| "shift_loop (i # is) idx head_len huff_len written = do {
     b \<leftarrow> index written (idx + 1 + (huff_len - (i + 1)));
     written \<leftarrow> index_set written (idx + head_len + (huff_len - (i + 1))) b;
     shift_loop is idx head_len huff_len written
   }"

primrec copy_loop :: "nat list \<Rightarrow> nat \<Rightarrow> bytes \<Rightarrow> bytes \<Rightarrow> bytes option" where
  "copy_loop [] idx buf written = Some written"
| "copy_loop (i # is) idx buf written = do {
     b \<leftarrow> index buf i;
     written \<leftarrow> index_set written (idx + i) b;
     copy_loop is idx buf written
   }"

type_synonym encoding = "((unit, EncoderError) result \<times> DstBuf) option"

definition enc_then :: "encoding \<Rightarrow> (DstBuf \<Rightarrow> encoding) \<Rightarrow> encoding" where
  "enc_then m f = m \<bind> (\<lambda>(r, dst). case r of Ok _ \<Rightarrow> f dst | Err e \<Rightarrow> Some (Err e, dst))"

definition encode_str :: "bytes \<Rightarrow> DstBuf \<Rightarrow> encoding" where
  "encode_str val dst =
     (if remaining_mut dst = 0 then Some (Err BufferOverflow, dst)
      else if val \<noteq> [] then
        let idx = position dst in do {
          dst \<leftarrow> dst_put_u8 0 dst;
          enc_then (huff_encode val dst) (\<lambda>dst.
            let huff_len = position dst - (idx + 1) in
            if encode_int_one_byte huff_len 7 then do {
              written \<leftarrow> index_set (dst_bytes dst) idx (0x80 OR of_nat huff_len);
              Some (Ok (), dst\<lparr>dst_bytes := written\<rparr>)
            } else do {
              (r, head_dst) \<leftarrow> encode_int huff_len 7 0x80 \<lparr>dst_bytes = [], remaining_mut = 8\<rparr>;
              (case r of
                 Err e \<Rightarrow> Some (Err e, dst)
               | Ok _ \<Rightarrow>
                   let buf = dst_bytes head_dst; head_len = 8 - remaining_mut head_dst in
                   if remaining_mut dst < head_len then Some (Err BufferOverflow, dst)
                   else do {
                     dst \<leftarrow> dst_put_slice (drop 1 buf) dst;
                     written \<leftarrow> shift_loop [0..<huff_len] idx head_len huff_len (dst_bytes dst);
                     written \<leftarrow> copy_loop [0..<head_len] idx buf written;
                     Some (Ok (), dst\<lparr>dst_bytes := written\<rparr>)
                   })
            })
        }
      else map_option (\<lambda>dst. (Ok (), dst)) (dst_put_u8 0 dst))"

definition encode_not_indexed :: "nat \<Rightarrow> bytes \<Rightarrow> bool \<Rightarrow> DstBuf \<Rightarrow> encoding" where
  "encode_not_indexed name val sensitive dst =
     enc_then (if sensitive then encode_int name 4 0x10 dst else encode_int name 4 0 dst) (encode_str val)"

definition encode_not_indexed2 :: "bytes \<Rightarrow> bytes \<Rightarrow> bool \<Rightarrow> DstBuf \<Rightarrow> encoding" where
  "encode_not_indexed2 name val sensitive dst =
     (if remaining_mut dst = 0 then Some (Err BufferOverflow, dst)
      else do {
        dst \<leftarrow> dst_put_u8 (if sensitive then 0x10 else 0) dst;
        enc_then (encode_str name dst) (encode_str val)
      })"

definition encode_size_update :: "nat \<Rightarrow> DstBuf \<Rightarrow> encoding" where
  "encode_size_update val dst = encode_int val 5 0x20 dst"

section \<open>The loops of encode_str\<close>

lemma shift_loop_append:
  "shift_loop (xs @ ys) idx h n w = shift_loop xs idx h n w \<bind> shift_loop ys idx h n"
  by (induction xs arbitrary: w) simp_all

lemma shift_loop_writes:
  assumes "length w = idx + h + n" and "take n (drop (idx + 1) w) = hs" and "1 \<le> h" and "k \<le> n"
  shows "shift_loop [0..<k] idx h n w = Some (take (idx + h + n - k) w @ drop (n - k) hs)"
  using assms(4)
proof (induction k)
  case 0
  have "length hs = n" using assms by auto
  then show ?case using assms(1) by simp
next
  case (Suc k)
  let ?p = "idx + h + (n - Suc k)" and ?j = "n - Suc k"
  have len: "length hs = n" using assms(1,2,3) by auto
  have p: "idx + h + n - k = Suc ?p" "n - k = Suc ?j" "?j < length hs" using Suc.prems len by auto
  have src: "idx + 1 + ?j < Suc ?p" using assms(3) by simp
  have "hs ! ?j = w ! (idx + 1 + ?j)" using p(3) assms(1,2) len by (auto simp: add.assoc)
  moreover have "Suc ?p \<le> length w" using assms(1) Suc.prems by simp
  ultimately have "index (take (Suc ?p) w @ drop (Suc ?j) hs) (idx + 1 + ?j) = Some (hs ! ?j)"
    using src by (simp add: index_def nth_append)
  moreover have "index_set (take (Suc ?p) w @ drop (Suc ?j) hs) ?p (hs ! ?j) = Some (take ?p w @ drop ?j hs)"
    using \<open>Suc ?p \<le> length w\<close> Cons_nth_drop_Suc [OF p(3)]
    by (simp add: index_set_def list_update_append take_Suc_conv_app_nth)
  ultimately show ?case
    using Suc p by (simp add: shift_loop_append)
qed

lemma copy_loop_append:
  "copy_loop (xs @ ys) idx buf w = copy_loop xs idx buf w \<bind> copy_loop ys idx buf"
  by (induction xs arbitrary: w) simp_all

lemma copy_loop_writes:
  assumes "length g = length buf" and "k \<le> length buf"
  shows "copy_loop [0..<k] (length pre) buf (pre @ g @ post) = Some (pre @ take k buf @ drop k g @ post)"
  using assms(2)
proof (induction k)
  case (Suc k)
  then have k: "k < length buf" "k < length g" using assms(1) by auto
  have "index_set (pre @ take k buf @ drop k g @ post) (length pre + k) (buf ! k) =
      Some (pre @ take (Suc k) buf @ drop (Suc k) g @ post)"
    using k Cons_nth_drop_Suc [OF k(2), symmetric]
    by (simp add: index_set_def list_update_append take_Suc_conv_app_nth)
  then show ?case using Suc k by (simp add: copy_loop_append index_def)
qed simp

section \<open>What is written\<close>

definition MAX_STR :: nat where
  "MAX_STR = 127 + 0x0fffffff"

text \<open>The room \<^verbatim>\<open>encode_str\<close> asks for: it wants the whole head beside the placeholder when the length needs
  more than one byte.\<close>

definition str_room :: "bytes \<Rightarrow> nat" where
  "str_room val =
     (if val = [] then 1
      else 1 + huff_size val + (if huff_size val < 127 then 0 else length (int_bytes (huff_size val) 7 0x80)))"

definition str_bytes :: "bytes \<Rightarrow> bytes \<Rightarrow> bool" where
  "str_bytes val bs \<longleftrightarrow>
     (if val = [] then bs = [0]
      else \<exists>hs. bs = int_bytes (length hs) 7 0x80 @ hs \<and> length hs = huff_size val \<and> huff_decode hs [] = (Ok val, []))"

lemma index_set_at: "index_set (xs @ y # ys) (length xs) z = Some (xs @ z # ys)"
  by (simp add: index_set_def list_update_append)

lemma encode_str_long:
  assumes "dst_bytes dst = pre @ y # hs" and "length hs \<le> MAX_STR" and "127 \<le> length hs"
    and "length (int_bytes (length hs) 7 0x80) \<le> remaining_mut dst"
  shows "\<exists>buf. encode_int (length hs) 7 0x80 \<lparr>dst_bytes = [], remaining_mut = 8\<rparr> = Some (Ok (), \<lparr>dst_bytes = buf, remaining_mut = 8 - length buf\<rparr>) \<and>
    buf = int_bytes (length hs) 7 0x80 \<and> 1 \<le> length buf \<and> length buf \<le> 8 \<and>
    shift_loop [0..<length hs] (length pre) (length buf) (length hs) (dst_bytes dst @ drop 1 buf) = Some (take (length pre + length buf) (dst_bytes dst @ drop 1 buf) @ hs) \<and>
    copy_loop [0..<length buf] (length pre) buf (take (length pre + length buf) (dst_bytes dst @ drop 1 buf) @ hs) = Some (pre @ buf @ hs)"
proof -
  let ?buf = "int_bytes (length hs) 7 0x80" and ?w = "dst_bytes dst @ drop 1 (int_bytes (length hs) 7 0x80)"
  have v: "length hs \<le> 2 ^ 7 - 1 + 0x0fffffff" using assms(2) by (simp add: MAX_STR_def)
  have l5: "length ?buf \<le> 5" by (rule length_int_bytes [OF v])
  have l1: "1 \<le> length ?buf" by (simp add: int_bytes_def)
  have "length ?w = length pre + length ?buf + length hs" "take (length hs) (drop (length pre + 1) ?w) = hs"
    using assms(1) l1 by auto
  from shift_loop_writes [OF this l1, of "length hs"]
  have sh: "shift_loop [0..<length hs] (length pre) (length ?buf) (length hs) ?w = Some (take (length pre + length ?buf) ?w @ hs)"
    by simp
  let ?g = "take (length ?buf) (y # hs @ drop 1 ?buf)"
  have g: "take (length pre + length ?buf) ?w = pre @ ?g" "length ?g = length ?buf"
    using assms(1) l1 by auto
  have "copy_loop [0..<length ?buf] (length pre) ?buf (take (length pre + length ?buf) ?w @ hs) = Some (pre @ ?buf @ hs)"
    using copy_loop_writes [OF g(2), of "length ?buf" pre hs] g by simp
  moreover have "encode_int (length hs) 7 0x80 \<lparr>dst_bytes = [], remaining_mut = 8\<rparr> =
      Some (Ok (), \<lparr>dst_bytes = ?buf, remaining_mut = 8 - length ?buf\<rparr>)"
    using encode_int_bytes [OF _ v, of "0x80" "\<lparr>dst_bytes = [], remaining_mut = 8\<rparr>"] l5 by simp
  ultimately show ?thesis using sh l5 l1 by (intro exI [of _ ?buf]) simp
qed

lemma encode_str_writes:
  assumes "str_room val \<le> remaining_mut dst" and "huff_size val \<le> MAX_STR"
  shows "\<exists>bs. encode_str val dst = Some (Ok (), dst_add dst bs) \<and> str_bytes val bs"
proof (cases "val = []")
  case True
  then show ?thesis
    using assms(1) by (intro exI [of _ "[0]"]) (simp add: encode_str_def dst_put_u8_add str_room_def str_bytes_def)
next
  case False
  let ?n = "huff_size val" and ?idx = "length (dst_bytes dst)"
  have room: "0 < remaining_mut dst" "?n \<le> remaining_mut (dst_add dst [0])" using assms(1) False by (auto simp: str_room_def)
  obtain hs where hs: "huff_encode val (dst_add dst [0]) = Some (Ok (), dst_add (dst_add dst [0]) hs)" "length hs = ?n"
    "huff_decode hs [] = (Ok val, [])"
    using huff_encode_decodes [OF room(2)] by blast
  have sb: "str_bytes val (int_bytes (length hs) 7 0x80 @ hs)" using False hs(2,3) unfolding str_bytes_def by metis
  show ?thesis
  proof (cases "?n < 127")
    case True
    then have "int_bytes (length hs) 7 0x80 = [0x80 OR of_nat (length hs)]" using hs(2) by (simp add: int_bytes_def)
    moreover have "encode_str val dst = Some (Ok (), dst_add dst ((0x80 OR of_nat (length hs)) # hs))"
      using False True room hs index_set_at [of "dst_bytes dst" 0 hs]
      by (simp add: encode_str_def enc_then_def dst_put_u8_add position_def encode_int_one_byte_def Let_def dst_add_def)
    ultimately show ?thesis using sb by (intro exI [of _ "int_bytes (length hs) 7 0x80 @ hs"]) simp
  next
    case long: False
    let ?dst = "dst_add dst (0 # hs)"
    have "dst_bytes ?dst = dst_bytes dst @ 0 # hs" "length (int_bytes (length hs) 7 0x80) \<le> remaining_mut ?dst"
      using assms(1) False long hs(2) by (simp_all add: dst_add_def str_room_def)
    from encode_str_long [OF this(1) _ _ this(2)] obtain buf w where
      b: "encode_int (length hs) 7 0x80 \<lparr>dst_bytes = [], remaining_mut = 8\<rparr> = Some (Ok (), \<lparr>dst_bytes = buf, remaining_mut = 8 - length buf\<rparr>)"
        "buf = int_bytes (length hs) 7 0x80" "1 \<le> length buf" "length buf \<le> 8"
        "shift_loop [0..<length hs] ?idx (length buf) (length hs) (dst_bytes ?dst @ drop 1 buf) = Some w"
        "copy_loop [0..<length buf] ?idx buf w = Some (dst_bytes dst @ buf @ hs)"
      using assms(2) hs(2) long by auto
    have fits: "\<not> remaining_mut dst - Suc ?n < length buf" "length buf - 1 \<le> remaining_mut dst - Suc ?n"
      using assms(1) False long hs(2) b(2) by (simp_all add: str_room_def)
    have "encode_str val dst = Some (Ok (), dst_add dst (buf @ hs))"
      using False long room hs b(1,3-6) fits
      by (simp add: encode_str_def enc_then_def dst_put_u8_add position_def encode_int_one_byte_def Let_def dst_add_def
          dst_put_slice_def add.commute)
    then show ?thesis using sb b(2) by blast
  qed
qed

section \<open>Strings round trip\<close>

lemma cur_decode_int_bytes:
  assumes "cur_bytes c = int_bytes v n first @ rest" and "1 \<le> n" and "n \<le> 8" and "first AND mask n = 0" and "v \<le> 2 ^ n - 1 + 0x0fffffff"
  shows "\<exists>c'. cur_decode_int c n = Ok (v, c') \<and> cur_bytes c' = rest \<and> cur_ok c' \<and> cur_inner c' = cur_inner c"
proof -
  have "cur_decode_int c n = Ok (v, c\<lparr>cur_pos := length (cur_inner c) - length rest\<rparr>)"
    using decode_int_bytes [OF assms(2-5), of rest] assms(1) by (simp add: cur_decode_int_def)
  moreover have "cur_inner c = take (cur_pos c) (cur_inner c) @ int_bytes v n first @ rest"
    using assms(1) by (metis append_take_drop_id cur_bytes_def)
  then have "drop (length (cur_inner c) - length rest) (cur_inner c) = rest"
    by (metis append_assoc append_eq_conv_conj length_append add_diff_cancel_right')
  ultimately show ?thesis by (auto simp: cur_bytes_def cur_ok_def)
qed

lemma cur_bytes_advance: "cur_bytes (c\<lparr>cur_pos := cur_pos c + n\<rparr>) = drop n (cur_bytes c)"
  by (simp add: cur_bytes_def add.commute)

lemma decode_string_bytes:
  assumes "cur_bytes c = bs @ rest" and "str_bytes val bs" and "huff_size val \<le> MAX_STR" and "dec_buffer d = []"
  shows "\<exists>c'. decode_string d c = Some (Ok val, d, c') \<and> cur_bytes c' = rest \<and> cur_ok c'"
proof (cases "val = []")
  case True
  then have b: "cur_bytes c = int_bytes 0 7 0 @ rest" using assms(1,2) by (simp add: str_bytes_def int_bytes_def)
  obtain c1 where c1: "cur_decode_int c 7 = Ok (0, c1)" "cur_bytes c1 = rest" "cur_ok c1"
    using cur_decode_int_bytes [OF b] by auto
  have "peek_u8 c = Some 0" using b by (simp add: peek_u8_def int_bytes_def)
  moreover have "cur_take c1 0 = Some ([], \<lparr>cur_inner = rest, cur_pos = 0\<rparr>)"
    using c1 by (simp add: cur_take_Some)
  ultimately have "decode_string d c = Some (Ok val, d, \<lparr>cur_inner = rest, cur_pos = 0\<rparr>)"
    using True c1 by (simp add: decode_string_def try_then_def try_int_def)
  then show ?thesis by (simp add: cur_bytes_def cur_ok_def)
next
  case False
  then obtain hs where hs: "bs = int_bytes (length hs) 7 0x80 @ hs" "length hs = huff_size val" "huff_decode hs [] = (Ok val, [])"
    using assms(2) by (auto simp: str_bytes_def)
  have b: "cur_bytes c = int_bytes (length hs) 7 0x80 @ (hs @ rest)" using assms(1) hs(1) by simp
  have m: "(0x80 :: u8) AND mask 7 = 0" by (simp add: mask_eq_exp_minus_1)
  obtain c1 where c1: "cur_decode_int c 7 = Ok (length hs, c1)" "cur_bytes c1 = hs @ rest" "cur_ok c1"
    using cur_decode_int_bytes [OF b _ _ m] assms(3) hs(2) by (auto simp: MAX_STR_def)
  obtain h where "peek_u8 c = Some h" "h AND 0x80 = 0x80"
    using b varint_byte_flag by (auto simp: peek_u8_def int_bytes_def split: if_splits)
  then have "decode_string d c = Some (Ok val, d, c1\<lparr>cur_pos := cur_pos c1 + length hs\<rparr>)"
    using c1 hs(3) assms(4) by (simp add: decode_string_def try_then_def try_int_def)
  moreover have "cur_bytes (c1\<lparr>cur_pos := cur_pos c1 + length hs\<rparr>) = rest"
    using c1(2) by (simp add: cur_bytes_advance)
  moreover have "length (cur_inner c1) - cur_pos c1 = length hs + length rest"
    using arg_cong [OF c1(2), of length] by (simp add: cur_bytes_def)
  then have "cur_ok (c1\<lparr>cur_pos := cur_pos c1 + length hs\<rparr>)" using c1(3) by (simp add: cur_ok_def)
  ultimately show ?thesis by blast
qed

text \<open>C31: String round trip. Given room, \<^verbatim>\<open>encode_str\<close> writes a header string (length prefix shifted into place
  when it takes several bytes, Huffman code behind it) and \<^verbatim>\<open>decode_string\<close> reads exactly that string back,
  leaving the cursor at the bytes that follow.\<close>

theorem hpack_string_roundtrip:
  assumes "str_room val \<le> remaining_mut dst" and "huff_size val \<le> MAX_STR" and "dec_buffer d = []"
  shows "\<exists>bs. encode_str val dst =
      Some (Ok (), \<lparr>dst_bytes = dst_bytes dst @ bs, remaining_mut = remaining_mut dst - length bs\<rparr>) \<and>
    (\<forall>rest. \<exists>c'. decode_string d \<lparr>cur_inner = bs @ rest, cur_pos = 0\<rparr> = Some (Ok val, d, c') \<and> cur_bytes c' = rest)"
proof -
  obtain bs where bs: "encode_str val dst = Some (Ok (), dst_add dst bs)" "str_bytes val bs"
    using encode_str_writes [OF assms(1,2)] by blast
  have "\<exists>c'. decode_string d \<lparr>cur_inner = bs @ rest, cur_pos = 0\<rparr> = Some (Ok val, d, c') \<and> cur_bytes c' = rest" for rest
    using decode_string_bytes [OF _ bs(2) assms(2,3), of "\<lparr>cur_inner = bs @ rest, cur_pos = 0\<rparr>" rest] by (auto simp: cur_bytes_def)
  then show ?thesis using bs(1) by (auto simp: dst_add_def)
qed

theorem hpack_string_roundtrip_witness:
  "\<exists>bs c'. encode_str [0x30] \<lparr>dst_bytes = [7], remaining_mut = 4\<rparr> =
      Some (Ok (), \<lparr>dst_bytes = 7 # bs, remaining_mut = 4 - length bs\<rparr>) \<and>
    decode_string (Decoder_new 4096) \<lparr>cur_inner = bs @ [1, 2], cur_pos = 0\<rparr> = Some (Ok [0x30], Decoder_new 4096, c') \<and> cur_bytes c' = [1, 2]"
proof -
  have "huff_size [0x30] = 1"
    by (simp add: huff_size_def ENCODE_TABLE_def nth_append length_ENCODE_TABLE ENCODE_TABLE_0_def split: prod.splits)
  then show ?thesis
    using hpack_string_roundtrip [of "[0x30]" "\<lparr>dst_bytes = [7], remaining_mut = 4\<rparr>" "Decoder_new 4096"]
    by (auto simp: str_room_def MAX_STR_def Decoder_new_def)
qed

end
