(* ===== verification/Hpack_Table.thy ===== *)
theory Hpack_Table
  imports Hpack_Static
begin

unbundle bit_operations_syntax

text \<open>
  The encoder's dynamic table of src/http/h2/hpack/table.rs: the entries, newest first, and a Robin Hood hash
  table of positions over them, in which the entries of one name form a list from the oldest to the newest.  A
  position is stored relative to the number of insertions, with wrap-around.  The hash of a name is that of
  the fnv crate, an argument.  A panic is \<open>None\<close>; so is a probe that never ends.
\<close>

section \<open>Data\<close>

record Pos =
  pos_index :: usize
  pos_hash :: nat

record Slot =
  slot_hash :: nat
  slot_header :: Header
  slot_next :: "usize option"

record ETable =
  et_mask :: nat
  et_indices :: "Pos option list"
  et_slots :: "Slot list"
  et_inserted :: usize
  et_size :: nat
  et_max_size :: nat

datatype Index =
    Index_Indexed nat Header
  | Index_Name nat Header
  | Index_Inserted nat
  | Index_InsertedValue nat nat
  | Index_NotIndexed Header

definition MAX_SIZE :: nat where
  "MAX_SIZE = 2 ^ 16"

definition DYN_OFFSET :: nat where
  "DYN_OFFSET = 62"

definition Index_new :: "(nat \<times> bool) option \<Rightarrow> Header \<Rightarrow> Index" where
  "Index_new v e = (case v of
     None \<Rightarrow> Index_NotIndexed e
   | Some (n, True) \<Rightarrow> Index_Indexed n e
   | Some (n, False) \<Rightarrow> Index_Name n e)"

definition usable_capacity :: "nat \<Rightarrow> nat" where
  "usable_capacity cap = cap - cap div 4"

definition to_raw_capacity :: "nat \<Rightarrow> nat" where
  "to_raw_capacity n = n + n div 3"

definition desired_pos :: "nat \<Rightarrow> nat \<Rightarrow> nat" where
  "desired_pos msk hash = hash AND msk"

definition probe_distance :: "nat \<Rightarrow> nat \<Rightarrow> nat \<Rightarrow> nat" where
  "probe_distance msk hash current = ((current + 2 ^ 64 - desired_pos msk hash) mod 2 ^ 64) AND msk"

definition hash_header :: "(Name \<Rightarrow> u64) \<Rightarrow> Header \<Rightarrow> nat" where
  "hash_header fnv header = unat (fnv (header_name header) AND of_nat (MAX_SIZE - 1))"

section \<open>Construction and access\<close>

function next_power_of_two :: "nat \<Rightarrow> nat \<Rightarrow> nat" where
  "next_power_of_two p n = (if n \<le> p \<or> p = 0 then p else next_power_of_two (2 * p) n)"
  by auto
termination by (relation "measure (\<lambda>(p, n). n - p)") auto

declare next_power_of_two.simps [simp del]

definition ETable_new :: "nat \<Rightarrow> nat \<Rightarrow> ETable" where
  "ETable_new max_size capacity =
     (if capacity = 0 then
        \<lparr>et_mask = 0, et_indices = [], et_slots = [], et_inserted = 0, et_size = 0, et_max_size = max_size\<rparr>
      else
        let capacity = max (next_power_of_two 1 (to_raw_capacity capacity)) 8
        in \<lparr>et_mask = capacity - 1, et_indices = replicate capacity None, et_slots = [], et_inserted = 0,
            et_size = 0, et_max_size = max_size\<rparr>)"

definition et_capacity :: "ETable \<Rightarrow> nat" where
  "et_capacity t = usable_capacity (length (et_indices t))"

text \<open>The place of a stored position in the slots.\<close>

definition real_idx :: "ETable \<Rightarrow> usize \<Rightarrow> nat" where
  "real_idx t idx = unat (idx + et_inserted t)"

primrec resolve :: "ETable \<Rightarrow> Index \<Rightarrow> Header option" where
  "resolve t (Index_Indexed n h) = Some h"
| "resolve t (Index_Name n h) = Some h"
| "resolve t (Index_Inserted idx) = map_option slot_header (index (et_slots t) idx)"
| "resolve t (Index_InsertedValue n idx) = map_option slot_header (index (et_slots t) idx)"
| "resolve t (Index_NotIndexed h) = Some h"

primrec resolve_idx :: "Index \<Rightarrow> nat option" where
  "resolve_idx (Index_Indexed idx h) = Some idx"
| "resolve_idx (Index_Name idx h) = Some idx"
| "resolve_idx (Index_Inserted idx) = Some (idx + DYN_OFFSET)"
| "resolve_idx (Index_InsertedValue name_idx slot_idx) = Some (slot_idx + DYN_OFFSET)"
| "resolve_idx (Index_NotIndexed h) = None"

section \<open>Eviction\<close>

partial_function (option) remove_loop :: "nat \<Rightarrow> Pos option list \<Rightarrow> nat \<Rightarrow> nat \<Rightarrow> Pos option list option" where
  "remove_loop msk indices last_probe probe =
     (if probe < length indices then
        (case indices ! probe of
           Some pos \<Rightarrow>
             if probe_distance msk (pos_hash pos) probe > 0
             then remove_loop msk (indices[probe := None, last_probe := Some pos]) probe (probe + 1)
             else Some indices
         | None \<Rightarrow> Some indices)
      else remove_loop msk indices last_probe 0)"

definition remove_phase_two :: "nat \<Rightarrow> Pos option list \<Rightarrow> nat \<Rightarrow> Pos option list option" where
  "remove_phase_two msk indices probe = remove_loop msk indices probe (probe + 1)"

partial_function (option) evict_find :: "Pos option list \<Rightarrow> usize \<Rightarrow> nat \<Rightarrow> nat option" where
  "evict_find indices pos_idx probe =
     (if probe < length indices then
        (case indices ! probe of
           None \<Rightarrow> None
         | Some pos \<Rightarrow> if pos_index pos = pos_idx then Some probe else evict_find indices pos_idx (probe + 1))
      else evict_find indices pos_idx 0)"

definition evict :: "ETable \<Rightarrow> usize option \<Rightarrow> ETable option" where
  "evict t prev_idx =
     (if et_slots t = [] then None
      else
        let pos_idx = of_nat (length (et_slots t) - 1) - et_inserted t;
            slot = last (et_slots t);
            t = t\<lparr>et_slots := butlast (et_slots t), et_size := et_size t - header_len (slot_header slot)\<rparr>
        in do {
          probe \<leftarrow> evict_find (et_indices t) pos_idx (desired_pos (et_mask t) (slot_hash slot));
          pos \<leftarrow> et_indices t ! probe;
          (case slot_next slot of
             Some idx \<Rightarrow> Some (t\<lparr>et_indices := (et_indices t)[probe := Some (pos\<lparr>pos_index := idx\<rparr>)]\<rparr>)
           | None \<Rightarrow>
               if Some (pos_index pos) = prev_idx
               then Some (t\<lparr>et_indices := (et_indices t)[probe := Some (pos\<lparr>pos_index := 0 - (et_inserted t + 1)\<rparr>)]\<rparr>)
               else map_option (\<lambda>indices. t\<lparr>et_indices := indices\<rparr>)
                 (remove_phase_two (et_mask t) ((et_indices t)[probe := None]) probe))
        })"

partial_function (option) converge_loop :: "ETable \<Rightarrow> usize option \<Rightarrow> bool \<Rightarrow> (bool \<times> ETable) option" where
  "converge_loop t prev_idx ret =
     (if et_size t > et_max_size t then evict t prev_idx \<bind> (\<lambda>t. converge_loop t prev_idx True)
      else Some (ret, t))"

definition converge :: "ETable \<Rightarrow> usize option \<Rightarrow> (bool \<times> ETable) option" where
  "converge t prev_idx = converge_loop t prev_idx False"

definition update_size :: "ETable \<Rightarrow> nat \<Rightarrow> usize option \<Rightarrow> (bool \<times> ETable) option" where
  "update_size t len prev_idx = converge (t\<lparr>et_size := et_size t + len\<rparr>) prev_idx"

definition resize :: "ETable \<Rightarrow> nat \<Rightarrow> ETable option" where
  "resize t sz =
     (let t = t\<lparr>et_max_size := sz\<rparr> in
      if sz = 0
      then Some (t\<lparr>et_size := 0, et_indices := map (\<lambda>_. None) (et_indices t), et_slots := [], et_inserted := 0\<rparr>)
      else map_option snd (converge t None))"

section \<open>Growth\<close>

partial_function (option) reinsert_loop :: "Pos option list \<Rightarrow> Pos \<Rightarrow> nat \<Rightarrow> Pos option list option" where
  "reinsert_loop indices pos probe =
     (if probe < length indices then
        if indices ! probe = None then Some (indices[probe := Some pos])
        else reinsert_loop indices pos (probe + 1)
      else reinsert_loop indices pos 0)"

definition reinsert_entry_in_order :: "nat \<Rightarrow> Pos option list \<Rightarrow> Pos option \<Rightarrow> Pos option list option" where
  "reinsert_entry_in_order msk indices pos = (case pos of
     Some pos \<Rightarrow> reinsert_loop indices pos (desired_pos msk (pos_hash pos))
   | None \<Rightarrow> Some indices)"

primrec reinsert_all :: "nat \<Rightarrow> Pos option list \<Rightarrow> Pos option list \<Rightarrow> Pos option list option" where
  "reinsert_all msk indices [] = Some indices"
| "reinsert_all msk indices (pos # ps) = reinsert_entry_in_order msk indices pos \<bind> (\<lambda>indices. reinsert_all msk indices ps)"

text \<open>The first entry at its desired position, or 0.\<close>

fun first_ideal :: "nat \<Rightarrow> nat \<Rightarrow> Pos option list \<Rightarrow> nat" where
  "first_ideal msk i [] = 0"
| "first_ideal msk i (None # ps) = first_ideal msk (i + 1) ps"
| "first_ideal msk i (Some pos # ps) =
     (if probe_distance msk (pos_hash pos) i = 0 then i else first_ideal msk (i + 1) ps)"

definition grow :: "ETable \<Rightarrow> nat \<Rightarrow> ETable option" where
  "grow t new_raw_cap =
     (let first = first_ideal (et_mask t) 0 (et_indices t);
          old_indices = et_indices t;
          msk = new_raw_cap - 1
      in do {
        indices \<leftarrow> reinsert_all msk (replicate new_raw_cap None) (drop first old_indices);
        indices \<leftarrow> reinsert_all msk indices (take first old_indices);
        Some (t\<lparr>et_mask := msk, et_indices := indices\<rparr>)
      })"

definition reserve_one :: "ETable \<Rightarrow> ETable option" where
  "reserve_one t =
     (let len = length (et_slots t) in
      if len = et_capacity t then
        if len = 0 then Some (t\<lparr>et_mask := 8 - 1, et_indices := replicate 8 None\<rparr>)
        else grow t (length (et_indices t) * 2)
      else Some t)"

section \<open>Indexing a header\<close>

definition et_insert :: "ETable \<Rightarrow> Header \<Rightarrow> nat \<Rightarrow> ETable" where
  "et_insert t header hash =
     t\<lparr>et_inserted := et_inserted t + 1, et_slots := \<lparr>slot_hash = hash, slot_header = header, slot_next = None\<rparr> # et_slots t\<rparr>"

text \<open>The walk through the entries of one name: a full match, or the last of them.\<close>

partial_function (option) occupied_loop :: "ETable \<Rightarrow> Header \<Rightarrow> usize \<Rightarrow> (nat + usize) option" where
  "occupied_loop t header idx = do {
     slot \<leftarrow> index (et_slots t) (real_idx t idx);
     if value_eq (slot_header slot) header then Some (Inl (real_idx t idx))
     else (case slot_next slot of
             Some nxt \<Rightarrow> occupied_loop t header nxt
           | None \<Rightarrow> Some (Inr idx))
   }"

definition index_occupied :: "ETable \<Rightarrow> Header \<Rightarrow> nat \<Rightarrow> usize \<Rightarrow> nat option \<Rightarrow> (Index \<times> ETable) option" where
  "index_occupied t header hash idx statik = do {
     r \<leftarrow> occupied_loop t header idx;
     (case r of
        Inl real \<Rightarrow> Some (Index_Indexed (real + DYN_OFFSET) header, t)
      | Inr idx \<Rightarrow>
          let real = real_idx t idx in
          if is_sensitive header then Some (Index_Name (real + DYN_OFFSET) header, t)
          else do {
            (_, t) \<leftarrow> update_size t (header_len header) (Some idx);
            let t = et_insert t header hash;
                new_real = real_idx t idx;
                t = (if new_real < length (et_slots t)
                     then t\<lparr>et_slots := (et_slots t)[new_real := (et_slots t ! new_real)\<lparr>slot_next := Some (0 - et_inserted t)\<rparr>]\<rparr>
                     else t)
            in Some (case statik of
                 Some n \<Rightarrow> Index_InsertedValue n 0
               | None \<Rightarrow> Index_InsertedValue (real + DYN_OFFSET) 0, t)
          })
   }"

fun back_loop :: "nat \<Rightarrow> Pos option list \<Rightarrow> nat \<Rightarrow> nat \<Rightarrow> nat option" where
  "back_loop msk indices probe dist =
     (if dist = 0 then Some probe
      else
        let back = ((probe + 2 ^ 64 - 1) mod 2 ^ 64) AND msk in
        (case index indices back of
           None \<Rightarrow> None
         | Some (Some pos) \<Rightarrow>
             if probe_distance msk (pos_hash pos) back < dist - 1 then back_loop msk indices back (dist - 1)
             else Some probe
         | Some None \<Rightarrow> back_loop msk indices back (dist - 1)))"

declare back_loop.simps [simp del]

partial_function (option) shift_forward :: "Pos option list \<Rightarrow> Pos \<Rightarrow> nat \<Rightarrow> Pos option list option" where
  "shift_forward indices prev probe =
     (if probe < length indices then
        (case indices ! probe of
           Some p \<Rightarrow> shift_forward (indices[probe := Some prev]) p (probe + 1)
         | None \<Rightarrow> Some (indices[probe := Some prev]))
      else shift_forward indices prev 0)"

definition index_vacant :: "ETable \<Rightarrow> Header \<Rightarrow> nat \<Rightarrow> nat \<Rightarrow> nat \<Rightarrow> (nat \<times> bool) option \<Rightarrow> (Index \<times> ETable) option" where
  "index_vacant t header hash dist probe statik =
     (if is_sensitive header then Some (Index_new statik header, t)
      else do {
        (evicted, t) \<leftarrow> update_size t (header_len header) None;
        probe \<leftarrow> (if evicted then back_loop (et_mask t) (et_indices t) probe dist else Some probe);
        let t = et_insert t header hash;
            pos = \<lparr>pos_index = 0 - et_inserted t, pos_hash = hash\<rparr>
        in do {
          prev \<leftarrow> index (et_indices t) probe;
          indices \<leftarrow> (case prev of
             Some prev \<Rightarrow> shift_forward ((et_indices t)[probe := Some pos]) prev (probe + 1)
           | None \<Rightarrow> Some ((et_indices t)[probe := Some pos]));
          Some (case statik of
              Some (n, _) \<Rightarrow> Index_InsertedValue n 0
            | None \<Rightarrow> Index_Inserted 0, t\<lparr>et_indices := indices\<rparr>)
        }
      })"

datatype Probed = Vacant nat nat | Occupied usize

partial_function (option) index_probe :: "ETable \<Rightarrow> Header \<Rightarrow> nat \<Rightarrow> nat \<Rightarrow> nat \<Rightarrow> Probed option" where
  "index_probe t header hash dist probe =
     (if probe < length (et_indices t) then
        (case et_indices t ! probe of
           None \<Rightarrow> Some (Vacant dist probe)
         | Some pos \<Rightarrow>
             if probe_distance (et_mask t) (pos_hash pos) probe < dist then Some (Vacant dist probe)
             else if pos_hash pos = hash then do {
               slot \<leftarrow> index (et_slots t) (real_idx t (pos_index pos));
               if header_name (slot_header slot) = header_name header then Some (Occupied (pos_index pos))
               else index_probe t header hash (dist + 1) (probe + 1)
             }
             else index_probe t header hash (dist + 1) (probe + 1))
      else index_probe t header hash dist 0)"

definition index_dynamic :: "(Name \<Rightarrow> u64) \<Rightarrow> ETable \<Rightarrow> Header \<Rightarrow> (nat \<times> bool) option \<Rightarrow> (Index \<times> ETable) option" where
  "index_dynamic fnv t header statik = do {
     t \<leftarrow> (if header_len header + et_size t < et_max_size t \<or> \<not> is_sensitive header then reserve_one t else Some t);
     if et_indices t = [] then Some (Index_new statik header, t)
     else
       let hash = hash_header fnv header in do {
         r \<leftarrow> index_probe t header hash 0 (desired_pos (et_mask t) hash);
         (case r of
            Vacant dist probe \<Rightarrow> index_vacant t header hash dist probe statik
          | Occupied idx \<Rightarrow> index_occupied t header hash idx (map_option fst statik))
       }
   }"

definition table_index :: "http_ops \<Rightarrow> (Name \<Rightarrow> u64) \<Rightarrow> ETable \<Rightarrow> Header \<Rightarrow> (Index \<times> ETable) option" where
  "table_index H fnv t header =
     (let statik = index_static H header in
      if skip_value_index H header then Some (Index_new statik header, t)
      else case statik of
        Some (n, True) \<Rightarrow> Some (Index_Indexed n header, t)
      | _ \<Rightarrow>
        if header_len header * 4 > et_max_size t * 3 then Some (Index_new statik header, t)
        else index_dynamic fnv t header statik)"

declare remove_loop.simps [code] evict_find.simps [code] converge_loop.simps [code] reinsert_loop.simps [code]
  occupied_loop.simps [code] shift_forward.simps [code] index_probe.simps [code]

end
