(* ===== verification/Robin_Hood.thy ===== *)
theory Robin_Hood
  imports Hpack_Table "HOL-Library.Multiset"
begin

unbundle bit_operations_syntax

text \<open>
  The position table of src/http/h2/hpack/table.rs by itself.  Read around the cycle, an entry that is not at
  its desired position has a predecessor that is displaced at least as far, up to one.  This local condition
  gives that probing for an entry meets no hole, and inserting, removing and growing keep it.
\<close>

section \<open>Around the cycle\<close>

definition cyc :: "'a list \<Rightarrow> nat \<Rightarrow> 'a" where
  "cyc xs u = xs ! (u mod length xs)"

definition displ :: "nat \<Rightarrow> Pos \<Rightarrow> nat \<Rightarrow> nat" where
  "displ n p u = (u + (n - pos_hash p mod n)) mod n"

definition table_shape :: "nat \<Rightarrow> nat \<Rightarrow> bool" where
  "table_shape n msk \<longleftrightarrow> (\<exists>k. 3 \<le> k \<and> k \<le> 62 \<and> n = 2 ^ k) \<and> msk = n - 1"

lemma shape_pos: "table_shape n msk \<Longrightarrow> 8 \<le> n" "table_shape n msk \<Longrightarrow> n \<le> 2 ^ 62" "table_shape n msk \<Longrightarrow> 0 < n"
  unfolding table_shape_def using power_increasing [of 3 _ "2 :: nat"] power_increasing [of _ 62 "2 :: nat"] by fastforce+

lemma desired_pos_mod: "table_shape n msk \<Longrightarrow> desired_pos msk h = h mod n"
  by (auto simp: table_shape_def desired_pos_def take_bit_eq_mod [symmetric] take_bit_eq_mask mask_eq_exp_minus_1)

lemma probe_distance_displ:
  assumes "table_shape n msk" and "u \<le> 2 ^ 62"
  shows "probe_distance msk (pos_hash p) u = displ n p u"
proof -
  obtain k where k: "k \<le> 62" "n = 2 ^ k" "msk = 2 ^ k - 1" using assms(1) by (auto simp: table_shape_def)
  let ?d = "pos_hash p mod n"
  have d: "?d < n" "?d \<le> n" using shape_pos [OF assms(1)] by auto
  have m: "x AND msk = x mod n" for x :: nat
    using k by (simp add: take_bit_eq_mod [symmetric] take_bit_eq_mask mask_eq_exp_minus_1)
  have n64: "n dvd 2 ^ 64" using k le_imp_power_dvd [of k 64 "2 :: nat"] by simp
  obtain c where c: "(2 :: nat) ^ 64 = n * c" using n64 unfolding dvd_def by blast
  have "0 < c" using c by (cases c) auto
  then have "n * c = n + n * (c - 1)" by (cases c) auto
  then have "u + 2 ^ 64 - ?d = u + (n - ?d) + n * (c - 1)" using c d by simp
  then have "((u + 2 ^ 64 - ?d) mod 2 ^ 64) mod n = (u + (n - ?d)) mod n"
    using n64 by (simp add: mod_mod_cancel)
  then show ?thesis
    unfolding probe_distance_def desired_pos_mod [OF assms(1)] m displ_def .
qed

lemma displ_less: "0 < n \<Longrightarrow> displ n p u < n"
  by (simp add: displ_def)

lemma displ_Suc: "0 < n \<Longrightarrow> displ n p (Suc u) = (if Suc (displ n p u) = n then 0 else Suc (displ n p u))"
  by (simp add: displ_def mod_Suc)

lemma displ_mod: "displ n p (u mod n) = displ n p u"
  by (simp add: displ_def mod_add_left_eq)

lemma displ_cong: "u mod n = v mod n \<Longrightarrow> displ n p u = displ n p v"
  by (metis displ_mod)

lemma displ_desired: "0 < n \<Longrightarrow> displ n p (pos_hash p mod n + j) = j mod n"
proof -
  assume "0 < n"
  then have "pos_hash p mod n + j + (n - pos_hash p mod n) = j + n" using mod_less_divisor [of n "pos_hash p"] by linarith
  then show ?thesis by (simp add: displ_def)
qed

lemma displ_at: "0 < n \<Longrightarrow> (pos_hash p mod n + displ n p u) mod n = u mod n"
proof -
  assume n: "0 < n"
  have "(pos_hash p mod n + (u + (n - pos_hash p mod n))) mod n = u mod n"
    using mod_less_divisor [OF n, of "pos_hash p"] by (simp add: add.left_commute)
  then show ?thesis by (simp add: displ_def mod_add_right_eq)
qed

lemma cyc_mod: "cyc xs (u mod length xs) = cyc xs u"
  by (simp add: cyc_def)

lemma cyc_cong: "u mod length xs = v mod length xs \<Longrightarrow> cyc xs u = cyc xs v"
  by (simp add: cyc_def)

lemma cyc_nth: "i < length xs \<Longrightarrow> cyc xs i = xs ! i"
  by (simp add: cyc_def)

text \<open>Every place is a number of steps ahead of every other.\<close>

lemma steps_ahead:
  assumes "0 < (n :: nat)"
  shows "\<exists>j < n. (v + j) mod n = u mod n"
proof (intro exI conjI)
  let ?j = "(u + (n - v mod n)) mod n"
  show "?j < n" using assms by simp
  have "(v mod n + (u + (n - v mod n))) mod n = u mod n"
    using mod_less_divisor [OF assms, of v] by (simp add: add.left_commute)
  then show "(v + ?j) mod n = u mod n" by (metis mod_add_left_eq mod_add_right_eq)
qed

section \<open>The Robin Hood condition\<close>

definition robin_hood :: "Pos option list \<Rightarrow> bool" where
  "robin_hood xs \<longleftrightarrow> (\<forall>u q. cyc xs (Suc u) = Some q \<longrightarrow> 0 < displ (length xs) q (Suc u) \<longrightarrow>
     (\<exists>p. cyc xs u = Some p \<and> displ (length xs) q (Suc u) \<le> Suc (displ (length xs) p u)))"

lemma robin_hoodD:
  "robin_hood xs \<Longrightarrow> cyc xs (Suc u) = Some q \<Longrightarrow> 0 < displ (length xs) q (Suc u) \<Longrightarrow>
   \<exists>p. cyc xs u = Some p \<and> displ (length xs) q (Suc u) \<le> Suc (displ (length xs) p u)"
  unfolding robin_hood_def by blast

lemma no_gap:
  assumes "robin_hood xs"
  shows "cyc xs (u + j) = Some q \<Longrightarrow> j \<le> displ (length xs) q (u + j) \<Longrightarrow>
    \<exists>p. cyc xs u = Some p \<and> displ (length xs) q (u + j) \<le> displ (length xs) p u + j"
proof (induction j arbitrary: q)
  case (Suc j)
  then obtain p where p: "cyc xs (u + j) = Some p" "displ (length xs) q (u + Suc j) \<le> Suc (displ (length xs) p (u + j))"
    using robin_hoodD [OF assms, of "u + j" q] by auto
  with Suc.IH [OF p(1)] Suc.prems(2) show ?case by fastforce
qed auto

lemma displ_room:
  assumes "robin_hood xs" and "cyc xs v = None" and "cyc xs u = Some q" and "xs \<noteq> []"
  shows "Suc (displ (length xs) q u) < length xs"
proof -
  have n: "0 < length xs" using assms(4) by simp
  obtain j where j: "j < length xs" "(v + j) mod length xs = u mod length xs" using steps_ahead [OF n] by blast
  have "cyc xs (v + j) = Some q" "displ (length xs) q (v + j) = displ (length xs) q u"
    using assms(3) cyc_cong [OF j(2)] displ_cong [OF j(2)] by simp_all
  with no_gap [OF assms(1), of v j q] assms(2) j(1) show ?thesis by fastforce
qed

text \<open>Probing for an entry from its desired position meets entries until it is there.\<close>

lemma desired_path:
  assumes "robin_hood xs" and "cyc xs u = Some q" and "j \<le> displ (length xs) q u" and "xs \<noteq> []"
  shows "\<exists>p. cyc xs (pos_hash q mod length xs + j) = Some p \<and> displ (length xs) q u \<le> displ (length xs) p (pos_hash q mod length xs + j) + (displ (length xs) q u - j)"
proof -
  let ?n = "length xs" and ?b = "pos_hash q mod length xs" and ?d = "displ (length xs) q u"
  have n: "0 < ?n" using assms(4) by simp
  have e: "(?b + j + (?d - j)) mod ?n = u mod ?n" using displ_at [OF n, of q u] assms(3) by simp
  then have "cyc xs (?b + j + (?d - j)) = Some q" "displ ?n q (?b + j + (?d - j)) = ?d"
    using assms(2) cyc_cong displ_cong by metis+
  with no_gap [OF assms(1) this(1)] show ?thesis by simp
qed

lemma evict_find_wrap:
  assumes "xs \<noteq> []"
  shows "evict_find xs idx (Suc (u mod length xs)) = evict_find xs idx (Suc u mod length xs)"
proof (cases "Suc (u mod length xs) = length xs")
  case True
  then show ?thesis by (subst evict_find.simps) (simp add: mod_Suc)
next
  case False
  then show ?thesis by (simp add: mod_Suc)
qed

lemma evict_find_finds:
  assumes "robin_hood xs" and "xs \<noteq> []" and "i < length xs" and "xs ! i = Some q" and "pos_index q = idx"
    and "\<And>j p. j < length xs \<Longrightarrow> xs ! j = Some p \<Longrightarrow> pos_index p = idx \<Longrightarrow> j = i"
  shows "evict_find xs idx (pos_hash q mod length xs) = Some i"
proof -
  let ?n = "length xs" and ?b = "pos_hash q mod length xs" and ?d = "displ (length xs) q i"
  have n: "0 < ?n" using assms(2) by simp
  have q: "cyc xs i = Some q" using assms(3,4) by (simp add: cyc_nth)
  have "evict_find xs idx ((?b + (?d - m)) mod ?n) = Some i" if "m \<le> ?d" for m
    using that
  proof (induction m)
    case 0
    have "(?b + ?d) mod ?n = i" using displ_at [OF n, of q i] assms(3) by simp
    then show ?case using assms(3-5) by (subst evict_find.simps) simp
  next
    case (Suc m)
    let ?u = "?b + (?d - Suc m)"
    obtain p where p: "cyc xs ?u = Some p" using desired_path [OF assms(1) q _ assms(2), of "?d - Suc m"] by auto
    show ?case
    proof (cases "pos_index p = idx")
      case True
      then have "?u mod ?n = i" using assms(6) [of "?u mod ?n" p] p n by (simp add: cyc_def)
      then show ?thesis using assms(3-5) by (subst evict_find.simps) simp
    next
      case False
      have "Suc ?u = ?b + (?d - m)" using Suc.prems by simp
      then have "evict_find xs idx (Suc (?u mod ?n)) = Some i"
        using Suc evict_find_wrap [OF assms(2), of idx ?u] by simp
      then show ?thesis using False p n by (subst evict_find.simps) (simp add: cyc_def)
    qed
  qed
  from this [of ?d] show ?thesis using n by simp
qed

section \<open>Insertion\<close>

lemma robin_hoodI:
  assumes "xs \<noteq> []" and "\<And>j q. j < length xs \<Longrightarrow> cyc xs (Suc (b + j)) = Some q \<Longrightarrow> 0 < displ (length xs) q (Suc (b + j)) \<Longrightarrow>
    \<exists>p. cyc xs (b + j) = Some p \<and> displ (length xs) q (Suc (b + j)) \<le> Suc (displ (length xs) p (b + j))"
  shows "robin_hood xs"
  unfolding robin_hood_def
proof (intro allI impI)
  fix u q assume q: "cyc xs (Suc u) = Some q" "0 < displ (length xs) q (Suc u)"
  have n: "0 < length xs" using assms(1) by simp
  obtain j where j: "j < length xs" "(b + j) mod length xs = u mod length xs" using steps_ahead [OF n] by blast
  then have "Suc (b + j) mod length xs = Suc u mod length xs" by (metis mod_Suc)
  then have "cyc xs (Suc (b + j)) = Some q" "displ (length xs) q (Suc (b + j)) = displ (length xs) q (Suc u)"
    using q cyc_cong displ_cong by metis+
  with assms(2) [OF j(1)] q(2) show "\<exists>p. cyc xs u = Some p \<and> displ (length xs) q (Suc u) \<le> Suc (displ (length xs) p u)"
    using cyc_cong [OF j(2)] displ_cong [OF j(2)] by metis
qed

lemma mod_other: "0 < j \<Longrightarrow> j < (n :: nat) \<Longrightarrow> (b + j) mod n \<noteq> b mod n"
  by (metis add_diff_cancel_left' dvd_imp_mod_0 mod_eq_dvd_iff_nat le_add1 mod_less less_not_refl)

lemma cyc_update:
  assumes "xs \<noteq> []"
  shows "cyc (xs[b mod length xs := x]) b = x"
    and "0 < j \<Longrightarrow> j < length xs \<Longrightarrow> cyc (xs[b mod length xs := x]) (b + j) = cyc xs (b + j)"
  using assms mod_other [of j "length xs" b] by (simp_all add: cyc_def)

lemma cyc_around: "cyc xs (b + length xs) = cyc xs b"
  by (rule cyc_cong) simp

lemma shift_forward_wrap:
  assumes "xs \<noteq> []"
  shows "shift_forward xs p (Suc (u mod length xs)) = shift_forward xs p (Suc u mod length xs)"
proof (cases "Suc (u mod length xs) = length xs")
  case True
  then show ?thesis by (subst shift_forward.simps) (simp add: mod_Suc)
next
  case False
  then show ?thesis by (simp add: mod_Suc)
qed

lemma shift_forward_shifts:
  assumes "xs \<noteq> []" and "m < length xs" and "\<And>j. j < m \<Longrightarrow> cyc xs (b + j) \<noteq> None" and "cyc xs (b + m) = None"
  shows "\<exists>ys. shift_forward xs x (b mod length xs) = Some ys \<and> length ys = length xs \<and>
    mset ys + {#None#} = mset xs + {#Some x#} \<and>
    (\<forall>j < length xs. cyc ys (b + j) = (if j = 0 then Some x else if j \<le> m then cyc xs (b + j - 1) else cyc xs (b + j)))"
  using assms
proof (induction m arbitrary: xs x b)
  case 0
  let ?i = "b mod length xs"
  have i: "?i < length xs" "xs ! ?i = None" using 0 by (simp_all add: cyc_def)
  have "shift_forward xs x ?i = Some (xs[?i := Some x])" using i by (subst shift_forward.simps) simp
  moreover have "None \<in># mset xs" using i nth_mem by fastforce
  then have "mset (xs[?i := Some x]) + {#None#} = mset xs + {#Some x#}"
    using i by (simp add: mset_update)
  ultimately show ?case using cyc_update [OF 0(1), where b = b and x = "Some x"] by auto
next
  case (Suc m)
  let ?i = "b mod length xs" and ?xs = "xs[b mod length xs := Some x]"
  have i: "?i < length xs" using Suc.prems(1) by simp
  obtain p where p: "xs ! ?i = Some p" "cyc xs b = Some p" using Suc.prems(3) [of 0] by (auto simp: cyc_def)
  have same: "cyc ?xs (Suc b + j) = cyc xs (Suc b + j)" if "Suc j < length xs" for j
    using cyc_update(2) [OF Suc.prems(1), where j = "Suc j" and b = b and x = "Some x"] that by simp
  have "cyc ?xs (Suc b + j) \<noteq> None" if "j < m" for j
    using same [of j] Suc.prems(2) Suc.prems(3) [of "Suc j"] that by simp
  moreover have "cyc ?xs (Suc b + m) = None" using same [of m] Suc.prems(2,4) by simp
  ultimately obtain ys where ys: "shift_forward ?xs p (Suc b mod length xs) = Some ys" "length ys = length xs"
    "mset ys + {#None#} = mset ?xs + {#Some p#}"
    "\<forall>j < length xs. cyc ys (Suc b + j) = (if j = 0 then Some p else if j \<le> m then cyc ?xs (Suc b + j - 1) else cyc ?xs (Suc b + j))"
    using Suc.IH [of ?xs "Suc b" p] Suc.prems(1,2) by auto
  have "shift_forward xs x ?i = Some ys"
    using p(1) i ys(1) shift_forward_wrap [of ?xs p b] Suc.prems(1) by (subst shift_forward.simps) simp
  moreover have "Some p \<in># mset xs" using p(1) i nth_mem by fastforce
  then have "mset ys + {#None#} = mset xs + {#Some x#}"
    using ys(3) p(1) i by (simp add: mset_update)
  moreover have "cyc ys (b + j) = (if j = 0 then Some x else if j \<le> Suc m then cyc xs (b + j - 1) else cyc xs (b + j))"
    if j: "j < length xs" for j
  proof (cases j)
    case 0
    have "length xs - 1 < length xs" "\<not> length xs - 1 \<le> m" "length xs - 1 \<noteq> 0" using Suc.prems(2) by auto
    moreover have e: "Suc b + (length xs - 1) = b + length xs" using i by simp
    ultimately have "cyc ys (b + length xs) = cyc ?xs (b + length xs)"
      using ys(4) [rule_format, of "length xs - 1"] unfolding e by simp
    then show ?thesis
      using 0 cyc_around [of ys b] cyc_around [of ?xs b] ys(2) cyc_update(1) [OF Suc.prems(1)] by simp
  next
    case (Suc k)
    have "cyc ?xs (Suc b + k - 1) = cyc xs (Suc b + k - 1)" if "0 < k"
      using same [of "k - 1"] that j Suc by simp
    then show ?thesis using ys(4) j Suc p(2) same [of k] by auto
  qed
  ultimately show ?case using ys(2) by blast
qed

text \<open>Where a new entry may go: the one there is not displaced further than it will be, and the one before
  it is displaced far enough.\<close>

definition insertable :: "Pos option list \<Rightarrow> Pos \<Rightarrow> nat \<Rightarrow> bool" where
  "insertable xs x b \<longleftrightarrow>
     (\<forall>q. cyc xs b = Some q \<longrightarrow> displ (length xs) q b \<le> displ (length xs) x b) \<and>
     (0 < displ (length xs) x b \<longrightarrow>
       (\<exists>p. cyc xs (b + (length xs - 1)) = Some p \<and> displ (length xs) x b \<le> Suc (displ (length xs) p (b + (length xs - 1)))))"

lemma robin_hood_insert:
  assumes rh: "robin_hood xs" and ne: "xs \<noteq> []" and m: "m < length xs" "cyc xs (b + m) = None"
    and full: "\<And>j. j < m \<Longrightarrow> cyc xs (b + j) \<noteq> None"
    and len: "length ys = length xs"
    and ys: "\<And>j. j < length xs \<Longrightarrow> cyc ys (b + j) = (if j = 0 then Some x else if j \<le> m then cyc xs (b + j - 1) else cyc xs (b + j))"
    and ins: "insertable xs x b"
  shows "robin_hood ys"
proof (rule robin_hoodI [where b = b])
  show "ys \<noteq> []" using ne len by auto
  fix j q assume j: "j < length ys" and q: "cyc ys (Suc (b + j)) = Some q" "0 < displ (length ys) q (Suc (b + j))"
  let ?n = "length xs"
  have n: "0 < ?n" using ne by simp
  have moved: "displ ?n p (Suc u) = Suc (displ ?n p u)" if "cyc xs u = Some p" for p u
    using displ_room [OF rh m(2) that ne] displ_Suc [OF n, of p u] by simp
  show "\<exists>p. cyc ys (b + j) = Some p \<and> displ (length ys) q (Suc (b + j)) \<le> Suc (displ (length ys) p (b + j))"
  proof (cases "j = ?n - 1")
    case True
    then have e: "Suc (b + j) = b + ?n" using n by simp
    have x: "q = x" "0 < displ ?n x b" "displ ?n q (Suc (b + j)) = displ ?n x b"
      using q cyc_around [of ys b] ys [of 0] len n displ_cong [of "b + ?n" ?n b] unfolding e by auto
    then obtain p where p: "cyc xs (b + (?n - 1)) = Some p" "displ ?n x b \<le> Suc (displ ?n p (b + (?n - 1)))"
      using ins unfolding insertable_def by blast
    have "m \<noteq> ?n - 1" using p(1) m(2) by auto
    moreover have "?n - 1 \<noteq> 0"
    proof
      assume "?n - 1 = 0"
      then have "?n = 1" using n by linarith
      then show False using x(2) by (simp add: displ_def)
    qed
    ultimately show ?thesis using ys [of j] p x m(1) len j True by auto
  next
    case False
    then have sj: "Suc j < ?n" using j len by simp
    have new: "cyc ys (Suc (b + j)) = (if Suc j \<le> m then cyc xs (b + j) else cyc xs (Suc (b + j)))"
      using ys [OF sj] by simp
    show ?thesis
    proof (cases "Suc j \<le> m")
      case True
      then have q': "cyc xs (b + j) = Some q" using new q(1) by simp
      have dq: "displ ?n q (Suc (b + j)) = Suc (displ ?n q (b + j))" by (rule moved [OF q'])
      show ?thesis
      proof (cases j)
        case 0
        then show ?thesis using ys [of 0] n q' dq ins len by (auto simp: insertable_def)
      next
        case (Suc i)
        show ?thesis
        proof (cases "displ ?n q (b + j) = 0")
          case False
          then obtain p where p: "cyc xs (b + i) = Some p" "displ ?n q (b + j) \<le> Suc (displ ?n p (b + i))"
            using robin_hoodD [OF rh, of "b + i" q] q' Suc by auto
          then show ?thesis using ys [of j] sj True Suc dq moved [OF p(1)] len by auto
        next
          case zero: True
          obtain p where "cyc ys (b + j) = Some p"
            using ys [of j] sj True Suc full [of i] by auto
          then show ?thesis using zero dq len by simp
        qed
      qed
    next
      case False
      then have "cyc xs (Suc (b + j)) = Some q" using new q(1) by simp
      from robin_hoodD [OF rh this] q(2) len obtain p where
        p: "cyc xs (b + j) = Some p" "displ ?n q (Suc (b + j)) \<le> Suc (displ ?n p (b + j))" by auto
      have "j \<noteq> m" using p(1) m(2) by auto
      then have "m < j" using False by simp
      then show ?thesis using p ys [of j] sj len by auto
    qed
  qed
qed

lemma first_hole:
  assumes "xs \<noteq> []" and "cyc xs v = None"
  shows "\<exists>m < length xs. cyc xs (b + m) = None \<and> (\<forall>j < m. cyc xs (b + j) \<noteq> None)"
proof -
  obtain j where j: "j < length xs" "(b + j) mod length xs = v mod length xs" using steps_ahead [of "length xs" b v] assms(1) by auto
  then have h: "cyc xs (b + j) = None" using assms(2) cyc_cong by metis
  show ?thesis
  proof (intro exI conjI allI impI)
    show "cyc xs (b + (LEAST m. cyc xs (b + m) = None)) = None" using h by (rule LeastI)
    show "(LEAST m. cyc xs (b + m) = None) < length xs" using Least_le [of "\<lambda>m. cyc xs (b + m) = None", OF h] j(1) by simp
    show "cyc xs (b + j) \<noteq> None" if "j < (LEAST m. cyc xs (b + m) = None)" for j
      using not_less_Least [OF that] .
  qed
qed

lemma shift_forward_inserts:
  assumes "robin_hood xs" and "xs \<noteq> []" and "cyc xs v = None" and "insertable xs x b"
  shows "\<exists>ys. shift_forward xs x (b mod length xs) = Some ys \<and> length ys = length xs \<and>
    mset ys + {#None#} = mset xs + {#Some x#} \<and> robin_hood ys"
proof -
  obtain m where m: "m < length xs" "cyc xs (b + m) = None" "\<And>j. j < m \<Longrightarrow> cyc xs (b + j) \<noteq> None"
    using first_hole [OF assms(2,3), of b] by blast
  from shift_forward_shifts [OF assms(2) m(1,3,2), of x] obtain ys where
    ys: "shift_forward xs x (b mod length xs) = Some ys" "length ys = length xs" "mset ys + {#None#} = mset xs + {#Some x#}"
      "\<And>j. j < length xs \<Longrightarrow> cyc ys (b + j) = (if j = 0 then Some x else if j \<le> m then cyc xs (b + j - 1) else cyc xs (b + j))"
    by blast
  then show ?thesis using robin_hood_insert [OF assms(1,2) m(1,2,3) ys(2,4) assms(4)] by blast
qed

section \<open>Removal\<close>

lemma remove_loop_wrap:
  assumes "xs \<noteq> []"
  shows "remove_loop msk xs l (Suc (u mod length xs)) = remove_loop msk xs l (Suc u mod length xs)"
proof (cases "Suc (u mod length xs) = length xs")
  case True
  then show ?thesis by (subst remove_loop.simps) (simp add: mod_Suc)
next
  case False
  then show ?thesis by (simp add: mod_Suc)
qed

text \<open>From a hole at \<open>b\<close>, the displaced entries after it move back by one.\<close>

definition stops :: "Pos option list \<Rightarrow> nat \<Rightarrow> bool" where
  "stops xs u \<longleftrightarrow> (case cyc xs u of None \<Rightarrow> True | Some p \<Rightarrow> displ (length xs) p u = 0)"

lemma remove_loop_shifts:
  assumes "table_shape (length xs) msk" and "Suc m < length xs" and "cyc xs b = None"
    and "\<And>j. j < m \<Longrightarrow> \<not> stops xs (Suc b + j)" and "stops xs (Suc b + m)"
  shows "\<exists>ys. remove_loop msk xs (b mod length xs) (Suc b mod length xs) = Some ys \<and> length ys = length xs \<and>
    mset ys = mset xs \<and>
    (\<forall>j < length xs. cyc ys (b + j) = (if j < m then cyc xs (Suc (b + j)) else if j = m then None else cyc xs (b + j)))"
  using assms
proof (induction m arbitrary: xs b)
  case 0
  let ?n = "length xs" and ?i = "Suc b mod length xs"
  have n: "0 < ?n" "?n \<le> 2 ^ 62" using shape_pos [OF 0(1)] by auto
  have i: "?i < ?n" using n by simp
  have le: "?i \<le> 2 ^ 62" using i n(2) by linarith
  have "stops xs (Suc b)" using 0(5) by simp
  then have "remove_loop msk xs (b mod ?n) ?i = Some xs"
    using i probe_distance_displ [OF 0(1) le] displ_mod [of ?n _ "Suc b"]
    by (subst remove_loop.simps) (auto simp: stops_def cyc_def split: option.splits)
  then show ?case using 0(3) by auto
next
  case (Suc m)
  let ?n = "length xs" and ?i = "Suc b mod length xs" and ?h = "b mod length xs"
  have n: "0 < ?n" "?n \<le> 2 ^ 62" using shape_pos [OF Suc.prems(1)] by auto
  have i: "?i < ?n" "?h < ?n" using n by simp_all
  have le: "?i \<le> 2 ^ 62" using i n(2) by linarith
  have ih: "?i \<noteq> ?h" using mod_other [of 1 ?n b] Suc.prems(2) by simp
  obtain p where p: "cyc xs (Suc b) = Some p" "0 < displ ?n p (Suc b)"
    using Suc.prems(4) [of 0] by (auto simp: stops_def split: option.splits)
  let ?xs = "xs[?i := None, ?h := Some p]"
  have ne: "xs \<noteq> []" using n by auto
  have at: "xs ! ?i = Some p" "xs ! ?h = None" using p Suc.prems(3) by (simp_all add: cyc_def)
  have same: "cyc ?xs (Suc b + j) = cyc xs (Suc b + j)" if "0 < j" "Suc j < ?n" for j
    using cyc_update(2) [of "xs[?i := None]" "Suc j" b "Some p"] cyc_update(2) [of xs j "Suc b" None] that ne by simp
  have stop: "stops ?xs (Suc b + j) \<longleftrightarrow> stops xs (Suc b + j)" if "0 < j" "Suc j < ?n" for j
    using same [OF that] by (simp add: stops_def split: option.split)
  have "cyc ?xs (Suc b) = None" using ih i by (simp add: cyc_def)
  moreover have "\<not> stops ?xs (Suc (Suc b) + j)" if "j < m" for j
    using stop [of "Suc j"] Suc.prems(2) Suc.prems(4) [of "Suc j"] that by simp
  moreover have "stops ?xs (Suc (Suc b) + m)" using stop [of "Suc m"] Suc.prems(2,5) by simp
  ultimately obtain ys where ys: "remove_loop msk ?xs ?i (Suc (Suc b) mod ?n) = Some ys" "length ys = ?n" "mset ys = mset ?xs"
    "\<forall>j < ?n. cyc ys (Suc b + j) = (if j < m then cyc ?xs (Suc (Suc b + j)) else if j = m then None else cyc ?xs (Suc b + j))"
    using Suc.IH [of ?xs "Suc b"] Suc.prems(1,2) by auto
  have "remove_loop msk xs ?h ?i = remove_loop msk ?xs ?i (Suc ?i)"
    using i p at probe_distance_displ [OF Suc.prems(1) le, of p] displ_mod [of ?n p "Suc b"]
    by (subst remove_loop.simps) simp
  also have "\<dots> = Some ys" using remove_loop_wrap [of ?xs msk ?i "Suc b"] ys(1) ne by simp
  finally have r: "remove_loop msk xs ?h ?i = Some ys" .
  have "mset ?xs = mset xs" using mset_swap [of ?h xs ?i] i at by simp
  moreover have "cyc ys (b + j) = (if j < Suc m then cyc xs (Suc (b + j)) else if j = Suc m then None else cyc xs (b + j))"
    if j: "j < ?n" for j
  proof (cases j)
    case 0
    have "?n - 1 < ?n" "\<not> ?n - 1 < m" "?n - 1 \<noteq> m" using Suc.prems(2) by auto
    moreover have e: "Suc b + (?n - 1) = b + ?n" using n by simp
    ultimately have "cyc ys (b + ?n) = cyc ?xs (b + ?n)"
      using ys(4) [rule_format, of "?n - 1"] unfolding e by simp
    then show ?thesis
      using 0 cyc_around [of ys b] cyc_around [of ?xs b] ys(2) p(1) i by (simp add: cyc_def)
  next
    case (Suc k)
    then show ?thesis using ys(4) [rule_format, of k] j same [of k] same [of "Suc k"] Suc.prems(2) by auto
  qed
  ultimately show ?case using r ys(2,3) by auto
qed

text \<open>How far the entry at a place is displaced, with 0 for a hole.\<close>

definition level :: "Pos option list \<Rightarrow> nat \<Rightarrow> nat" where
  "level xs u = (case cyc xs u of None \<Rightarrow> 0 | Some p \<Rightarrow> Suc (displ (length xs) p u))"

lemma level_cong: "u mod length xs = v mod length xs \<Longrightarrow> level xs u = level xs v"
  unfolding level_def using cyc_cong displ_cong by (metis (no_types, lifting) option.case_eq_if)

lemma robin_hood_level: "robin_hood xs \<Longrightarrow> 2 \<le> level xs (Suc u) \<Longrightarrow> level xs (Suc u) \<le> Suc (level xs u)"
  using robin_hoodD [of xs u] by (fastforce simp: level_def split: option.splits)

lemma level_robin_hood:
  assumes "xs \<noteq> []" and "\<And>j. j < length xs \<Longrightarrow> 2 \<le> level xs (Suc (b + j)) \<Longrightarrow> level xs (Suc (b + j)) \<le> Suc (level xs (b + j))"
  shows "robin_hood xs"
proof (rule robin_hoodI [OF assms(1), where b = b])
  fix j q assume "j < length xs" "cyc xs (Suc (b + j)) = Some q" "0 < displ (length xs) q (Suc (b + j))"
  with assms(2) [of j] show "\<exists>p. cyc xs (b + j) = Some p \<and> displ (length xs) q (Suc (b + j)) \<le> Suc (displ (length xs) p (b + j))"
    by (cases "cyc xs (b + j)") (auto simp: level_def)
qed

lemma robin_hood_remove:
  assumes rh: "robin_hood xs" and n: "Suc m < length xs" and len: "length ys = length xs"
    and go: "\<And>j. j < m \<Longrightarrow> \<not> stops xs (Suc b + j)" and stop: "stops xs (Suc b + m)"
    and ys: "\<And>j. j < length xs \<Longrightarrow> cyc ys (b + j) = (if j < m then cyc xs (Suc (b + j)) else if j = m then None else cyc xs (b + j))"
  shows "robin_hood ys" and "\<And>u. level ys u \<le> level xs u"
proof -
  let ?n = "length xs"
  have n0: "0 < ?n" using n by linarith
  have lv: "level ys (b + j) = (if j < m then level xs (Suc (b + j)) - 1 else if j = m then 0 else level xs (b + j))"
    if j: "j < ?n" for j
  proof (cases "j < m")
    case True
    then obtain p where p: "cyc xs (Suc (b + j)) = Some p" "displ ?n p (Suc (b + j)) \<noteq> 0"
      using go [OF True] by (auto simp: stops_def split: option.splits)
    then have "displ ?n p (Suc (b + j)) = Suc (displ ?n p (b + j))"
      using displ_Suc [OF n0, of p "b + j"] by (auto split: if_splits)
    then show ?thesis using True p ys [OF j] len by (simp add: level_def)
  next
    case False
    then show ?thesis using ys [OF j] len by (auto simp: level_def split: option.split)
  qed
  have lgo: "2 \<le> level xs (Suc (b + j))" if "j < m" for j
    using go [OF that] by (auto simp: level_def stops_def split: option.splits)
  have lstop: "level xs (Suc (b + m)) \<le> 1" using stop by (auto simp: level_def stops_def split: option.splits)
  have down: "level ys (b + j) \<le> level xs (b + j)" if j: "j < ?n" for j
    using lv [OF j] robin_hood_level [OF rh, of "b + j"] lgo [of j] by auto
  show "robin_hood ys"
  proof (rule level_robin_hood [where b = b])
    show "ys \<noteq> []" using n0 len by (cases ys) auto
    fix j assume j: "j < length ys" and two: "2 \<le> level ys (Suc (b + j))"
    show "level ys (Suc (b + j)) \<le> Suc (level ys (b + j))"
    proof (cases "Suc j = ?n")
      case True
      then have e: "Suc (b + j) = b + ?n" using j by simp
      have s: "level ys (Suc (b + j)) = level ys b" "level xs (Suc (b + j)) = level xs b"
        unfolding e using level_cong [of "b + ?n" ys b] level_cong [of "b + ?n" xs b] len by simp_all
      have "level ys b \<le> level xs b" using down [of 0] n0 by simp
      moreover have "level xs b \<le> Suc (level xs (b + j))"
        using robin_hood_level [OF rh, of "b + j"] s(2) two s(1) \<open>level ys b \<le> level xs b\<close> by simp
      ultimately show ?thesis using s(1) lv [of j] j True n len by auto
    next
      case False
      then have sj: "Suc j < ?n" using j len by simp
      consider "Suc j < m" | "Suc j = m" | "j = m" | "m < j" by linarith
      then show ?thesis
      proof cases
        case 1
        then show ?thesis
          using lv [of j] lv [OF sj] j len robin_hood_level [OF rh, of "Suc (b + j)"] lgo [of "Suc j"] by simp
      next
        case 2
        then show ?thesis using lv [OF sj, unfolded add_Suc_right] two by simp
      next
        case 3
        then show ?thesis using lv [OF sj] lstop two by simp
      next
        case 4
        then show ?thesis using lv [OF sj] lv [of j] j len two robin_hood_level [OF rh, of "b + j"] by simp
      qed
    qed
  qed
  fix u
  obtain j where j: "j < ?n" "(b + j) mod ?n = u mod ?n" using steps_ahead [OF n0] by blast
  then show "level ys u \<le> level xs u"
    using down [OF j(1)] level_cong [of "b + j" ys u] level_cong [of "b + j" xs u] len by simp
qed

lemma remove_phase_two_removes:
  assumes "table_shape (length xs) msk" and "robin_hood xs" and "b < length xs" and "xs ! b = Some r" and "cyc xs v = None"
  shows "\<exists>ys. remove_phase_two msk (xs[b := None]) b = Some ys \<and> length ys = length xs \<and> robin_hood ys \<and>
    (\<forall>u. level ys u \<le> level xs u) \<and> mset ys + {#Some r#} = mset xs + {#None#}"
proof -
  let ?n = "length xs" and ?xs = "xs[b := None]"
  have n: "8 \<le> ?n" "0 < ?n" "xs \<noteq> []" using shape_pos [OF assms(1)] by auto
  obtain j where j: "j < ?n" "(Suc b + j) mod ?n = v mod ?n" using steps_ahead [OF n(2)] by blast
  have hv: "cyc xs (Suc b + j) = None" using assms(5) cyc_cong [OF j(2)] by simp
  have "Suc j \<noteq> ?n"
  proof
    assume "Suc j = ?n"
    then have "Suc b + j = b + ?n" by simp
    then have "cyc xs b = None" using hv cyc_around [of xs b] by metis
    then show False using assms(3,4) by (simp add: cyc_nth)
  qed
  define m where "m = (LEAST m. stops xs (Suc b + m))"
  have st: "stops xs (Suc b + j)" using hv by (simp add: stops_def)
  have m: "stops xs (Suc b + m)" "\<And>i. i < m \<Longrightarrow> \<not> stops xs (Suc b + i)" "Suc m < ?n"
    using LeastI [of "\<lambda>m. stops xs (Suc b + m)", OF st] not_less_Least [of _ "\<lambda>m. stops xs (Suc b + m)"]
      Least_le [of "\<lambda>m. stops xs (Suc b + m)", OF st] j(1) \<open>Suc j \<noteq> ?n\<close> by (auto simp: m_def)
  have same: "cyc ?xs (b + i) = cyc xs (b + i)" if "0 < i" "i < ?n" for i
    using cyc_update(2) [OF n(3), of i b None] assms(3) that by simp
  have stops: "stops ?xs (Suc b + i) = stops xs (Suc b + i)" if "Suc i < ?n" for i
    using same [of "Suc i"] that by (simp add: stops_def split: option.split)
  have "\<exists>ys. remove_loop msk ?xs (b mod length ?xs) (Suc b mod length ?xs) = Some ys \<and> length ys = length ?xs \<and>
    mset ys = mset ?xs \<and>
    (\<forall>j < length ?xs. cyc ys (b + j) = (if j < m then cyc ?xs (Suc (b + j)) else if j = m then None else cyc ?xs (b + j)))"
    using assms(1,3) m stops by (intro remove_loop_shifts) (auto simp: cyc_nth)
  then obtain ys where ys: "remove_loop msk ?xs b (Suc b mod ?n) = Some ys" "length ys = ?n" "mset ys = mset ?xs"
    "\<And>j. j < ?n \<Longrightarrow> cyc ys (b + j) = (if j < m then cyc ?xs (Suc (b + j)) else if j = m then None else cyc ?xs (b + j))"
    using assms(3) by auto
  have "cyc ys (b + j) = (if j < m then cyc xs (Suc (b + j)) else if j = m then None else cyc xs (b + j))" if "j < ?n" for j
    using ys(4) [OF that] same [of "Suc j"] same [of j] m(3) that by auto
  note rh = robin_hood_remove [OF assms(2) m(3) ys(2) m(2,1) this]
  have "remove_phase_two msk ?xs b = Some ys"
    using ys(1) remove_loop_wrap [of ?xs msk b b] assms(3) n(3) by (simp add: remove_phase_two_def)
  moreover have "Some r \<in># mset xs" using assms(3,4) nth_mem by fastforce
  then have "mset ys + {#Some r#} = mset xs + {#None#}" using ys(3) assms(3,4) by (simp add: mset_update)
  ultimately show ?thesis using ys(2) rh by blast
qed

section \<open>Where a new entry goes\<close>

text \<open>A place \<open>d\<close> steps after the desired one, at which nothing is displaced as far; and such a place whose
  predecessor is displaced far enough.\<close>

definition steals :: "Pos option list \<Rightarrow> nat \<Rightarrow> nat \<Rightarrow> nat \<Rightarrow> bool" where
  "steals xs h d p \<longleftrightarrow> d < length xs \<and> p = (h mod length xs + d) mod length xs \<and> level xs p \<le> d"

definition placeable :: "Pos option list \<Rightarrow> nat \<Rightarrow> nat \<Rightarrow> nat \<Rightarrow> bool" where
  "placeable xs h d p \<longleftrightarrow> steals xs h d p \<and> (0 < d \<longrightarrow> d \<le> level xs (p + (length xs - 1)))"

lemma placeable_insertable:
  assumes "placeable xs h d p" and "pos_hash x = h" and "xs \<noteq> []"
  shows "insertable xs x p"
proof -
  let ?n = "length xs"
  have n: "0 < ?n" using assms(3) by simp
  have d: "displ ?n x p = d"
    using assms(1,2) displ_desired [OF n, of x d] displ_mod [of ?n x "h mod ?n + d"] by (simp add: placeable_def steals_def)
  show ?thesis
    using assms(1) unfolding insertable_def d placeable_def steals_def level_def by (auto split: option.splits)
qed

lemma back_step:
  assumes "table_shape n msk" and "p < n"
  shows "((p + 2 ^ 64 - 1) mod 2 ^ 64) AND msk = (p + (n - 1)) mod n"
proof -
  have "n \<le> 2 ^ 62" using shape_pos [OF assms(1)] by blast
  then have "p \<le> 2 ^ 62" using assms(2) by linarith
  obtain k where k: "k \<le> 62" "n = 2 ^ k" "msk = 2 ^ k - 1" using assms(1) by (auto simp: table_shape_def)
  have m: "x AND msk = x mod n" for x :: nat
    using k by (simp add: take_bit_eq_mod [symmetric] take_bit_eq_mask mask_eq_exp_minus_1)
  have n64: "n dvd 2 ^ 64" using k le_imp_power_dvd [of k 64 "2 :: nat"] by simp
  obtain c where c: "(2 :: nat) ^ 64 = n * c" using n64 unfolding dvd_def by blast
  have "0 < c" using c by (cases c) auto
  then have "n * c = n + n * (c - 1)" by (cases c) auto
  then have e: "p + 2 ^ 64 - 1 = p + (n - 1) + n * (c - 1)" using c shape_pos(3) [OF assms(1)] by simp
  have "((p + 2 ^ 64 - 1) mod 2 ^ 64) mod n = (p + 2 ^ 64 - 1) mod n" by (rule mod_mod_cancel [OF n64])
  also have "\<dots> = (p + (n - 1)) mod n" unfolding e by (rule mod_mult_self2)
  finally show ?thesis unfolding m .
qed

lemma back_loop_Suc:
  assumes "((p + 2 ^ 64 - 1) mod 2 ^ 64) AND msk = b" and "b < length xs"
  shows "back_loop msk xs p (Suc d) = (case xs ! b of
       Some pos \<Rightarrow> if probe_distance msk (pos_hash pos) b < d then back_loop msk xs b d else Some p
     | None \<Rightarrow> back_loop msk xs b d)"
  by (subst back_loop.simps, unfold assms(1) Let_def index_def) (use assms(2) in \<open>simp split: option.split\<close>)

lemma back_loop_places:
  assumes "table_shape (length xs) msk" and "steals xs h d p"
  shows "\<exists>p' d'. back_loop msk xs p d = Some p' \<and> placeable xs h d' p'"
  using assms(2)
proof (induction d arbitrary: p)
  case 0
  then show ?case by (subst back_loop.simps) (auto simp: placeable_def)
next
  case (Suc d)
  let ?n = "length xs" and ?b = "(p + (length xs - 1)) mod length xs"
  have n: "0 < ?n" "?n \<le> 2 ^ 62" using shape_pos [OF assms(1)] by auto
  have p: "p < ?n" "p = (h mod ?n + Suc d) mod ?n" using Suc.prems n by (auto simp: steals_def)
  have bn: "?b < ?n" using n by simp
  then have b62: "?b \<le> 2 ^ 62" using n(2) by linarith
  have "h mod ?n + Suc d + (?n - 1) = h mod ?n + d + ?n" using n(1) by linarith
  then have "(h mod ?n + Suc d + (?n - 1)) mod ?n = (h mod ?n + d) mod ?n" by (simp only: mod_add_self2)
  moreover have "?b = (h mod ?n + Suc d + (?n - 1)) mod ?n" by (subst p(2)) (rule mod_add_left_eq)
  ultimately have b: "?b = (h mod ?n + d) mod ?n" by metis
  have lb: "level xs ?b = level xs (p + (?n - 1))" by (rule level_cong) simp
  have unf: "back_loop msk xs p (Suc d) = (case xs ! ?b of
       Some pos \<Rightarrow> if displ ?n pos ?b < d then back_loop msk xs ?b d else Some p
     | None \<Rightarrow> back_loop msk xs ?b d)"
    by (rule back_loop_Suc [OF back_step [OF assms(1) p(1)] bn, unfolded probe_distance_displ [OF assms(1) b62]])
  have lev: "level xs ?b = (case xs ! ?b of None \<Rightarrow> 0 | Some q \<Rightarrow> Suc (displ ?n q ?b))"
    by (simp add: level_def cyc_def split: option.split)
  show ?case
  proof (cases "level xs ?b \<le> d")
    case True
    then have "steals xs h d ?b" using b Suc.prems by (simp add: steals_def)
    then show ?thesis using Suc.IH [of ?b] unf True lev by (auto split: option.splits)
  next
    case False
    then have "back_loop msk xs p (Suc d) = Some p" using unf lev by (auto split: option.splits)
    moreover have "placeable xs h (Suc d) p" using False lb Suc.prems by (simp add: placeable_def)
    ultimately show ?thesis by blast
  qed
qed

lemma index_probe_wrap:
  assumes "et_indices t \<noteq> []"
  shows "index_probe t h hash d (Suc (u mod length (et_indices t))) = index_probe t h hash d (Suc u mod length (et_indices t))"
proof (cases "Suc (u mod length (et_indices t)) = length (et_indices t)")
  case True
  then show ?thesis by (subst index_probe.simps) (simp add: mod_Suc)
next
  case False
  then show ?thesis by (simp add: mod_Suc)
qed

lemma index_probe_Some:
  assumes "p < length (et_indices t)" and "et_indices t ! p = Some pos"
    and "index (et_slots t) (real_idx t (pos_index pos)) = Some slot"
  shows "index_probe t h hash d p =
    (if probe_distance (et_mask t) (pos_hash pos) p < d then Some (Vacant d p)
     else if pos_hash pos = hash \<and> header_name (slot_header slot) = header_name h then Some (Occupied (pos_index pos))
     else index_probe t h hash (Suc d) (Suc p))"
  using assms by (subst index_probe.simps) simp

definition probed :: "ETable \<Rightarrow> Header \<Rightarrow> nat \<Rightarrow> Probed \<Rightarrow> bool" where
  "probed t h hash r = (case r of
     Vacant d p \<Rightarrow> placeable (et_indices t) hash d p
   | Occupied idx \<Rightarrow> \<exists>pos slot. Some pos \<in> set (et_indices t) \<and> pos_index pos = idx \<and> pos_hash pos = hash \<and>
       index (et_slots t) (real_idx t idx) = Some slot \<and> header_name (slot_header slot) = header_name h)"

lemma index_probe_returns:
  assumes shape: "table_shape (length (et_indices t)) (et_mask t)"
    and hole: "cyc (et_indices t) v = None"
    and ref: "\<And>pos. Some pos \<in> set (et_indices t) \<Longrightarrow> real_idx t (pos_index pos) < length (et_slots t)"
  shows "\<exists>r. index_probe t h hash 0 (desired_pos (et_mask t) hash) = Some r \<and> probed t h hash r"
proof -
  let ?xs = "et_indices t" and ?n = "length (et_indices t)" and ?b = "hash mod length (et_indices t)"
  have n: "0 < ?n" "?n \<le> 2 ^ 62" "?xs \<noteq> []" using shape_pos [OF shape] by auto
  obtain m where m: "m < ?n" "cyc ?xs (?b + m) = None" using first_hole [OF n(3) hole, of ?b] by blast
  have "\<exists>r. index_probe t h hash (m - k) ((?b + (m - k)) mod ?n) = Some r \<and> probed t h hash r"
    if "k \<le> m" "m - k > 0 \<longrightarrow> m - k \<le> level ?xs (?b + (m - k) + (?n - 1))" for k
    using that
  proof (induction k)
    case 0
    have "index_probe t h hash m ((?b + m) mod ?n) = Some (Vacant m ((?b + m) mod ?n))"
      using m n by (subst index_probe.simps) (simp add: cyc_def)
    moreover have "level ?xs ((?b + m) mod ?n) = 0" using m(2) cyc_mod [of ?xs "?b + m"] by (simp add: level_def)
    moreover have "level ?xs ((?b + m) mod ?n + (?n - 1)) = level ?xs (?b + m + (?n - 1))"
      by (rule level_cong) (rule mod_add_left_eq)
    ultimately show ?case using 0 m(1) by (simp add: probed_def placeable_def steals_def)
  next
    case (Suc k)
    define d where "d = m - Suc k"
    define p where "p = (?b + d) mod ?n"
    have p: "p < ?n" using n by (simp add: p_def)
    then have p62: "p \<le> 2 ^ 62" using n(2) by linarith
    have lp: "level ?xs (p + (?n - 1)) = level ?xs (?b + d + (?n - 1))"
      unfolding p_def by (rule level_cong) (rule mod_add_left_eq)
    have vacant: "placeable ?xs hash d p" if "level ?xs p \<le> d"
      using that Suc.prems(2) m(1) lp by (auto simp: placeable_def steals_def p_def d_def)
    have lev: "level ?xs p = (case ?xs ! p of None \<Rightarrow> 0 | Some q \<Rightarrow> Suc (displ ?n q p))" 
      using p by (simp add: level_def cyc_def split: option.split)
    have sd: "Suc (?b + d) = ?b + (m - k)" "Suc d = m - k" using Suc.prems(1) by (auto simp: d_def)
    have next_prem: "m - k \<le> level ?xs (?b + (m - k) + (?n - 1))" if "\<not> level ?xs p \<le> d"
    proof -
      have e: "?b + (m - k) + (?n - 1) = ?b + d + ?n" using sd n(1) by linarith
      have "level ?xs (?b + (m - k) + (?n - 1)) = level ?xs p" unfolding e p_def by (rule level_cong) simp
      then show ?thesis using that sd(2) by linarith
    qed
    have cont: "\<exists>r. index_probe t h hash (Suc d) (Suc p) = Some r \<and> probed t h hash r" if "\<not> level ?xs p \<le> d"
      using Suc.IH Suc.prems(1) next_prem [OF that] index_probe_wrap [OF n(3), of h hash "m - k" "?b + d"] sd by (simp add: p_def)
    have "\<exists>r. index_probe t h hash d p = Some r \<and> probed t h hash r"
    proof (cases "?xs ! p")
      case None
      then have "index_probe t h hash d p = Some (Vacant d p)" using p by (subst index_probe.simps) simp
      then show ?thesis using vacant lev None by (simp add: probed_def)
    next
      case (Some pos)
      have mem: "Some pos \<in> set ?xs" using Some p nth_mem by metis
      then obtain slot where slot: "index (et_slots t) (real_idx t (pos_index pos)) = Some slot"
        using ref by (auto simp: index_def)
      have unf: "index_probe t h hash d p =
          (if displ ?n pos p < d then Some (Vacant d p)
           else if pos_hash pos = hash \<and> header_name (slot_header slot) = header_name h then Some (Occupied (pos_index pos))
           else index_probe t h hash (Suc d) (Suc p))"
        by (rule index_probe_Some [OF p Some slot, unfolded probe_distance_displ [OF shape p62]])
      show ?thesis
        using unf lev Some vacant cont mem slot by (auto simp: probed_def)
    qed
    then show ?case unfolding p_def d_def .
  qed
  from this [of m] show ?thesis using n desired_pos_mod [OF shape] by simp
qed

section \<open>Growth\<close>

lemma reinsert_loop_wrap:
  assumes "xs \<noteq> []"
  shows "reinsert_loop xs x (Suc (u mod length xs)) = reinsert_loop xs x (Suc u mod length xs)"
proof (cases "Suc (u mod length xs) = length xs")
  case True
  then show ?thesis by (subst reinsert_loop.simps) (simp add: mod_Suc)
next
  case False
  then show ?thesis by (simp add: mod_Suc)
qed

lemma reinsert_loop_places:
  assumes "xs \<noteq> []" and "\<And>j. j < m \<Longrightarrow> cyc xs (b + j) \<noteq> None" and "cyc xs (b + m) = None"
  shows "reinsert_loop xs x (b mod length xs) = Some (xs[(b + m) mod length xs := Some x])"
  using assms(2,3)
proof (induction m arbitrary: b)
  case 0
  then show ?case using assms(1) by (subst reinsert_loop.simps) (simp add: cyc_def)
next
  case (Suc m)
  have "reinsert_loop xs x (Suc b mod length xs) = Some (xs[(Suc b + m) mod length xs := Some x])"
    using Suc.prems by (intro Suc.IH) force+
  then show ?case
    using Suc.prems(1) [of 0] assms(1) reinsert_loop_wrap [OF assms(1), of x b]
    by (subst reinsert_loop.simps) (auto simp: cyc_def)
qed

text \<open>The entries in order from one at its desired place: their desired places, as offsets, never go back.\<close>

lemma offsets:
  assumes "robin_hood xs" and "xs \<noteq> []" and "\<And>q. cyc xs f = Some q \<Longrightarrow> displ (length xs) q f = 0"
  shows "cyc xs (f + u) = Some q \<Longrightarrow> displ (length xs) q (f + u) \<le> u"
    and "cyc xs (f + u) = Some q \<Longrightarrow> u' \<le> u \<Longrightarrow> cyc xs (f + u') = Some q' \<Longrightarrow>
      u' - displ (length xs) q' (f + u') \<le> u - displ (length xs) q (f + u)"
proof -
  show "cyc xs (f + u) = Some q \<Longrightarrow> displ (length xs) q (f + u) \<le> u"
  proof (induction u arbitrary: q)
    case (Suc u)
    then show ?case using robin_hoodD [OF assms(1), of "f + u" q] by (cases "displ (length xs) q (f + Suc u) = 0") force+
  qed (use assms(3) in simp)
  show "cyc xs (f + u) = Some q \<Longrightarrow> u' \<le> u \<Longrightarrow> cyc xs (f + u') = Some q' \<Longrightarrow>
      u' - displ (length xs) q' (f + u') \<le> u - displ (length xs) q (f + u)"
  proof (induction u arbitrary: q)
    case (Suc u)
    show ?case
    proof (cases "u' = Suc u \<or> displ (length xs) q (f + Suc u) = 0")
      case True
      then show ?thesis using Suc.prems by auto
    next
      case False
      then obtain p where p: "cyc xs (f + u) = Some p" "displ (length xs) q (f + Suc u) \<le> Suc (displ (length xs) p (f + u))"
        using robin_hoodD [OF assms(1), of "f + u" q] Suc.prems(1) by auto
      then have "u' - displ (length xs) q' (f + u') \<le> u - displ (length xs) p (f + u)"
        using Suc.IH [OF p(1)] Suc.prems False by simp
      then show ?thesis using p(2) by linarith
    qed
  qed (use assms(3) in simp)
qed

lemma doubled_place:
  assumes "a mod n = h mod n" and "0 < (n :: nat)"
  shows "\<exists>c < 2. (a + c * n) mod (n * 2) = h mod (n * 2)"
proof (intro exI conjI)
  let ?c = "(h div n + a div n) mod 2"
  show "?c < 2" by simp
  have "(x + (y + x) mod 2) mod 2 = y mod 2" for x y :: nat by presburger
  then have "(a div n + ?c) mod 2 = h div n mod 2" .
  moreover have "(a + ?c * n) mod (n * 2) = n * ((a div n + ?c) mod 2) + a mod n"
    using assms(2) by (simp add: mod_mult2_eq add.commute)
  ultimately show "(a + ?c * n) mod (n * 2) = h mod (n * 2)"
    using assms(1) by (simp add: mod_mult2_eq [of h n 2])
qed

lemma offset_inj:
  assumes "a < n" and "b < n" and "(f + a) mod n = (f + b) mod (n :: nat)"
  shows "a = b"
  using mod_other [of "b - a" n "f + a"] mod_other [of "a - b" n "f + b"] assms
  by (cases a b rule: linorder_cases) (auto simp: less_imp_diff_less)

text \<open>
  The state of the doubled table after the entries at the first \<open>u\<close> offsets: in each half only the first \<open>u\<close>
  places may be taken, by entries whose desired place is in the same half at an offset up to \<open>K\<close>.
\<close>

definition regrown :: "nat \<Rightarrow> nat \<Rightarrow> nat \<Rightarrow> nat \<Rightarrow> Pos option list \<Rightarrow> bool" where
  "regrown n f u K ys \<longleftrightarrow> robin_hood ys \<and> length ys = n * 2 \<and>
     (\<forall>c < 2. \<forall>v < n. case cyc ys (f + c * n + v) of
        None \<Rightarrow> True
      | Some p \<Rightarrow> v < u \<and> (\<exists>k \<le> v. k \<le> K \<and> displ (n * 2) p (f + c * n + v) = v - k))"

lemma regrown_step:
  assumes st: "regrown n f u K ys" and u: "u < n" and k: "k \<le> u" "K \<le> k" and h: "(f + k) mod n = pos_hash x mod n"
  shows "\<exists>i. i < length ys \<and> ys ! i = None \<and> reinsert_loop ys x (pos_hash x mod (n * 2)) = Some (ys[i := Some x]) \<and>
    regrown n f (Suc u) k (ys[i := Some x])"
proof -
  let ?N = "n * 2"
  have n: "0 < n" "length ys = ?N" "ys \<noteq> []" and rh: "robin_hood ys" using u st by (auto simp: regrown_def)
  obtain c where c: "c < 2" "(f + c * n + k) mod ?N = pos_hash x mod ?N"
    using doubled_place [OF h n(1)] by (auto simp: add.assoc add.commute [of k])
  let ?b = "f + c * n + k"
  have cell: "\<And>c v p. c < 2 \<Longrightarrow> v < n \<Longrightarrow> cyc ys (f + c * n + v) = Some p \<Longrightarrow>
      v < u \<and> (\<exists>k \<le> v. k \<le> K \<and> displ ?N p (f + c * n + v) = v - k)"
    using st unfolding regrown_def by fastforce
  have "cyc ys (f + c * n + u) = None" using cell [OF c(1) u] by (cases "cyc ys (f + c * n + u)") auto
  moreover have "?b + (u - k) = f + c * n + u" using k(1) by simp
  ultimately have "cyc ys (?b + (u - k)) = None" by metis
  then obtain m where m: "cyc ys (?b + m) = None" "\<And>j. j < m \<Longrightarrow> cyc ys (?b + j) \<noteq> None" "m \<le> u - k"
    using exists_least_iff [of "\<lambda>m. cyc ys (?b + m) = None"] not_less by (metis (no_types, lifting) linorder_le_less_linear)
  let ?i = "(?b + m) mod ?N" and ?e = "k + m"
  have i: "?i < length ys" "ys ! ?i = None" using n m(1) by (simp_all add: cyc_def)
  have loop: "reinsert_loop ys x (pos_hash x mod ?N) = Some (ys[?i := Some x])"
    using reinsert_loop_places [OF n(3) m(2,1), of x] c(2) n(2) by simp
  have e: "?e \<le> u" "?e < n" using m(3) k(1) u by auto
  have dx: "displ ?N x (?b + m) = m"
  proof -
    have "displ ?N x (?b + m) = displ ?N x (pos_hash x mod ?N + m)"
      using c(2) by (intro displ_cong) (metis mod_add_left_eq)
    also have "\<dots> = m mod ?N" using displ_desired [of ?N x m] n(1) by simp
    finally show ?thesis using e by simp
  qed
  let ?ys = "ys[?i := Some x]"
  have "insertable ys x (?b + m)"
  proof (cases m)
    case (Suc m')
    obtain p where p: "cyc ys (?b + m') = Some p" using m(2) [of m'] Suc by auto
    have s: "?b + m' = f + c * n + (k + m')" by simp
    obtain kp where kp: "kp \<le> K" "displ ?N p (?b + m') = k + m' - kp"
      using cell [OF c(1), of "k + m'" p] p e Suc unfolding s by auto
    have w: "(?b + m + (length ys - 1)) mod length ys = (?b + m') mod length ys"
    proof -
      have "?b + m + (length ys - 1) = ?b + m' + length ys" using Suc n by simp
      then show ?thesis by (metis mod_add_self2)
    qed
    have "cyc ys (?b + m + (length ys - 1)) = Some p" "displ ?N p (?b + m + (length ys - 1)) = k + m' - kp"
      using cyc_cong [OF w] displ_cong [OF w [unfolded n(2)]] p kp(2) n(2) by simp_all
    moreover have "m \<le> Suc (k + m' - kp)" using kp(1) k(2) Suc by linarith
    ultimately show ?thesis unfolding insertable_def using m(1) dx n(2) by simp
  qed (use m(1) dx n(2) in \<open>simp add: insertable_def\<close>)
  moreover have "cyc ?ys (?b + m + j) = (if j = 0 then Some x else if j \<le> 0 then cyc ys (?b + m + j - 1) else cyc ys (?b + m + j))"
    if "j < length ys" for j
    using cyc_update(1) [OF n(3), of "?b + m" "Some x"] cyc_update(2) [OF n(3), of j "?b + m" "Some x"] that n(2) by auto
  ultimately have rh': "robin_hood ?ys"
    using robin_hood_insert [OF rh n(3), of 0 "?b + m" ?ys x] m(1) n by simp
  have "case cyc ?ys (f + c' * n + v) of None \<Rightarrow> True
      | Some p \<Rightarrow> v < Suc u \<and> (\<exists>k' \<le> v. k' \<le> k \<and> displ ?N p (f + c' * n + v) = v - k')" if c': "c' < 2" and v: "v < n" for c' v
  proof (cases "(f + c' * n + v) mod ?N = ?i")
    case True
    have "c * n \<le> n" "c' * n \<le> n" using c(1) c' by (auto simp: less_2_cases_iff)
    then have "c' * n + v < ?N" "c * n + ?e < ?N" using v e(2) by linarith+
    then have eq: "c' * n + v = c * n + ?e"
      using True v e(2) offset_inj [of "c' * n + v" ?N "c * n + ?e" f] by (simp add: add.assoc)
    have "c' = c" using arg_cong [OF eq, of "\<lambda>x. x div n"] v e(2) by simp
    then have "v = ?e" using eq by simp
    then have "cyc ?ys (f + c' * n + v) = Some x" "displ ?N x (f + c' * n + v) = v - k"
      using \<open>c' = c\<close> dx True i(1) n(2) by (simp_all add: cyc_def add.assoc)
    then show ?thesis using \<open>v = ?e\<close> e(1) by (auto intro: exI [of _ k])
  next
    case False
    then have "cyc ?ys (f + c' * n + v) = cyc ys (f + c' * n + v)" using n(2) by (simp add: cyc_def)
    then show ?thesis using cell [OF c' v] k(2) by (fastforce split: option.split)
  qed
  then have "regrown n f (Suc u) k ?ys" using rh' n(2) by (simp add: regrown_def)
  then show ?thesis using i loop by blast
qed

lemma mod_cancel:
  assumes "(a + d) mod n = (b + d) mod n" and "d \<le> (n :: nat)"
  shows "a mod n = b mod n"
proof -
  have "(a + d + (n - d)) mod n = (b + d + (n - d)) mod n" using assms(1) by (metis mod_add_left_eq)
  then show ?thesis using assms(2) by simp
qed

lemma reinsert_all_append:
  "reinsert_all msk xs (ps @ qs) = reinsert_all msk xs ps \<bind> (\<lambda>ys. reinsert_all msk ys qs)"
  by (induction ps arbitrary: xs) simp_all

lemma reinsert_all_regrows:
  assumes rh: "robin_hood xs" and sh: "table_shape (length xs) msk" and sh2: "table_shape (length xs * 2) msk2" and f: "f < length xs"
    and ideal: "\<And>q. cyc xs f = Some q \<Longrightarrow> displ (length xs) q f = 0" and u: "u \<le> length xs"
  shows "\<exists>ys K. reinsert_all msk2 (replicate (length xs * 2) None) (map (\<lambda>i. cyc xs (f + i)) [0..<u]) = Some ys \<and>
    regrown (length xs) f u K ys \<and>
    (\<forall>v q. u \<le> v \<and> v < length xs \<and> cyc xs (f + v) = Some q \<longrightarrow> K \<le> v - displ (length xs) q (f + v)) \<and>
    filter_mset (\<lambda>x. x \<noteq> None) (mset ys) = filter_mset (\<lambda>x. x \<noteq> None) (mset (map (\<lambda>i. cyc xs (f + i)) [0..<u]))"
  using u
proof (induction u)
  case 0
  have none: "cyc (replicate (length xs * 2) (None :: Pos option)) v = None" for v
  proof -
    have "v mod (length xs * 2) < length xs * 2" using f by (intro mod_less_divisor) linarith
    then show ?thesis by (simp add: cyc_def)
  qed
  then have "robin_hood (replicate (length xs * 2) None)" by (simp add: robin_hood_def)
  then show ?case by (intro exI [of _ "replicate (length xs * 2) None"] exI [of _ 0]) (simp add: regrown_def none)
next
  case (Suc u)
  let ?n = "length xs"
  have ne: "xs \<noteq> []" and n0: "0 < ?n" using f by auto
  obtain ys K where IH: "reinsert_all msk2 (replicate (?n * 2) None) (map (\<lambda>i. cyc xs (f + i)) [0..<u]) = Some ys"
    "regrown ?n f u K ys" "\<And>v q. u \<le> v \<Longrightarrow> v < ?n \<Longrightarrow> cyc xs (f + v) = Some q \<Longrightarrow> K \<le> v - displ ?n q (f + v)"
    "filter_mset (\<lambda>x. x \<noteq> None) (mset ys) = filter_mset (\<lambda>x. x \<noteq> None) (mset (map (\<lambda>i. cyc xs (f + i)) [0..<u]))"
    using Suc by auto
  show ?case
  proof (cases "cyc xs (f + u)")
    case None
    have "regrown ?n f (Suc u) K ys" using IH(2) unfolding regrown_def by (fastforce split: option.splits)
    then show ?thesis
      using IH None by (intro exI [of _ ys] exI [of _ K]) (auto simp: reinsert_all_append reinsert_entry_in_order_def)
  next
    case (Some x)
    let ?k = "u - displ ?n x (f + u)"
    have d: "displ ?n x (f + u) \<le> u" using offsets(1) [OF rh ne ideal Some] by blast
    have "(pos_hash x mod ?n + displ ?n x (f + u)) mod ?n = (f + ?k + displ ?n x (f + u)) mod ?n"
      using displ_at [OF n0, of x "f + u"] d by simp
    then have h: "(f + ?k) mod ?n = pos_hash x mod ?n"
      using mod_cancel [of "f + ?k" "displ ?n x (f + u)" ?n "pos_hash x mod ?n"] displ_less [OF n0, of x "f + u"] by simp
    have K: "K \<le> ?k" using IH(3) [of u x] Some Suc.prems by simp
    obtain i where i: "i < length ys" "ys ! i = None" "reinsert_loop ys x (pos_hash x mod (?n * 2)) = Some (ys[i := Some x])"
      "regrown ?n f (Suc u) ?k (ys[i := Some x])"
      using regrown_step [OF IH(2) _ _ K h] Suc.prems by auto
    have "reinsert_all msk2 (replicate (?n * 2) None) (map (\<lambda>i. cyc xs (f + i)) [0..<Suc u]) = Some (ys[i := Some x])"
      using IH(1) Some i(3) desired_pos_mod [OF sh2]
      by (simp add: reinsert_all_append reinsert_entry_in_order_def)
    moreover have "?k \<le> v - displ ?n q (f + v)" if "Suc u \<le> v" "cyc xs (f + v) = Some q" for v q
      using offsets(2) [OF rh ne ideal that(2) _ Some] that(1) by simp
    moreover have ms: "mset (ys[i := Some x]) + {#None#} = mset ys + {#Some x#}"
      using i(1,2) nth_mem [of i ys] by (simp add: mset_update)
    have "filter_mset (\<lambda>x. x \<noteq> None) (mset (ys[i := Some x])) =
        filter_mset (\<lambda>x. x \<noteq> None) (mset ys) + {#Some x#}"
      using arg_cong [OF ms, of "filter_mset (\<lambda>x. x \<noteq> None)"] by simp
    ultimately show ?thesis using i(4) IH(4) Some by (intro exI [of _ "ys[i := Some x]"] exI [of _ ?k]) auto
  qed
qed

lemma first_ideal_cases:
  "(\<exists>j < length xs. first_ideal msk i xs = i + j \<and> (\<exists>q. xs ! j = Some q \<and> probe_distance msk (pos_hash q) (i + j) = 0)) \<or>
   first_ideal msk i xs = 0 \<and> (\<forall>j < length xs. \<forall>q. xs ! j = Some q \<longrightarrow> probe_distance msk (pos_hash q) (i + j) \<noteq> 0)"
proof (induction msk i xs rule: first_ideal.induct)
  case (2 msk i ps)
  then show ?case by (force simp: less_Suc_eq_0_disj)
next
  case (3 msk i pos ps)
  then show ?case by (force simp: less_Suc_eq_0_disj)
qed simp

lemma some_ideal:
  assumes "robin_hood xs" and "xs \<noteq> []" and "cyc xs v = None" and "cyc xs u = Some p"
  shows "\<exists>i q. i < length xs \<and> xs ! i = Some q \<and> displ (length xs) q i = 0"
proof -
  have n: "0 < length xs" using assms(2) by simp
  obtain j where "(v + j) mod length xs = u mod length xs" using steps_ahead [OF n, of v u] by blast
  then have "cyc xs (v + j) \<noteq> None" using assms(4) cyc_cong by fastforce
  then obtain j' where j': "cyc xs (v + j') \<noteq> None" "\<And>i. i < j' \<Longrightarrow> cyc xs (v + i) = None"
    using exists_least_iff [of "\<lambda>j. cyc xs (v + j) \<noteq> None"] by blast
  then obtain k q where q: "j' = Suc k" "cyc xs (v + j') = Some q" using assms(3) by (cases j') auto
  have "displ (length xs) q (v + j') = 0"
    using robin_hoodD [OF assms(1), of "v + k" q] q j'(2) [of k] by auto
  then show ?thesis
    using q(2) n displ_mod [of "length xs" q "v + j'"] by (intro exI [of _ "(v + j') mod length xs"] exI [of _ q]) (simp add: cyc_def)
qed

lemma first_ideal_ideal:
  assumes "robin_hood xs" and "table_shape (length xs) msk" and "cyc xs v = None"
  shows "first_ideal msk 0 xs < length xs" and "cyc xs (first_ideal msk 0 xs) = Some q \<Longrightarrow> displ (length xs) q (first_ideal msk 0 xs) = 0"
proof -
  have n: "0 < length xs" "length xs \<le> 2 ^ 62" "xs \<noteq> []" using shape_pos [OF assms(2)] by auto
  have pd: "probe_distance msk (pos_hash q) i = displ (length xs) q i" if "i < length xs" for q i
  proof -
    have "i \<le> 2 ^ 62" using that n(2) by linarith
    then show ?thesis by (rule probe_distance_displ [OF assms(2)])
  qed
  show "first_ideal msk 0 xs < length xs" using first_ideal_cases [of xs msk 0] n(1) by auto
  assume q: "cyc xs (first_ideal msk 0 xs) = Some q"
  then obtain i r where "i < length xs" "xs ! i = Some r" "displ (length xs) r i = 0"
    using some_ideal [OF assms(1) n(3) assms(3)] by blast
  then have "\<not> (\<forall>j < length xs. \<forall>q. xs ! j = Some q \<longrightarrow> probe_distance msk (pos_hash q) (0 + j) \<noteq> 0)"
    using pd by auto
  then show "displ (length xs) q (first_ideal msk 0 xs) = 0"
    using first_ideal_cases [of xs msk 0] q pd by (auto simp: cyc_nth)
qed

lemma rotated:
  assumes "f < length xs"
  shows "map (\<lambda>i. cyc xs (f + i)) [0..<length xs] = drop f xs @ take f xs"
proof -
  have "drop f xs @ take f xs = rotate f xs" using assms by (simp add: rotate_drop_take)
  then show ?thesis by (auto simp: cyc_def nth_rotate intro!: nth_equalityI)
qed

lemma grow_regrows:
  assumes "robin_hood xs" and "table_shape (length xs) msk" and "table_shape (length xs * 2) msk2" and "cyc xs v = None"
  shows "\<exists>zs ys. reinsert_all msk2 (replicate (length xs * 2) None) (drop (first_ideal msk 0 xs) xs) = Some zs \<and>
    reinsert_all msk2 zs (take (first_ideal msk 0 xs) xs) = Some ys \<and>
    length ys = length xs * 2 \<and> robin_hood ys \<and> filter_mset (\<lambda>x. x \<noteq> None) (mset ys) = filter_mset (\<lambda>x. x \<noteq> None) (mset xs)"
proof -
  let ?f = "first_ideal msk 0 xs"
  note f = first_ideal_ideal [OF assms(1,2,4)]
  from reinsert_all_regrows [OF assms(1-3) f(1,2) order.refl] obtain ys K where
    ys: "reinsert_all msk2 (replicate (length xs * 2) None) (drop ?f xs @ take ?f xs) = Some ys" "regrown (length xs) ?f (length xs) K ys"
      "filter_mset (\<lambda>x. x \<noteq> None) (mset ys) = filter_mset (\<lambda>x. x \<noteq> None) (mset (drop ?f xs @ take ?f xs))"
    unfolding rotated [OF f(1)] by blast
  have "mset (drop ?f xs @ take ?f xs) = mset xs"
    by (metis append_take_drop_id mset_append union_commute)
  then show ?thesis using ys by (auto simp: reinsert_all_append bind_eq_Some_conv regrown_def)
qed

end
