(* ===== verification/Hpack_Table_Inv.thy ===== *)
theory Hpack_Table_Inv
  imports Robin_Hood Hpack_Decoder
begin

text \<open>
  The invariant of the encoder's dynamic table: every slot is referred to exactly once, by an entry of the
  position table or by the slot before it in the list of its name, so that evicting the oldest slot always
  finds its entry; every operation keeps it, without a panic and without an endless probe.
\<close>

section \<open>References\<close>

definition idx_of :: "ETable \<Rightarrow> nat \<Rightarrow> usize" where
  "idx_of t r = of_nat r - et_inserted t"

definition heads :: "Pos option list \<Rightarrow> usize multiset" where
  "heads xs = image_mset (\<lambda>x. pos_index (the x)) (filter_mset (\<lambda>x. x \<noteq> None) (mset xs))"

definition nexts :: "Slot list \<Rightarrow> usize multiset" where
  "nexts ss = image_mset the (filter_mset (\<lambda>x. x \<noteq> None) (mset (map slot_next ss)))"

text \<open>The place the next insertion will have.\<close>

definition future :: "ETable \<Rightarrow> usize" where
  "future t = 0 - (et_inserted t + 1)"

lemma real_idx_of: "r < 2 ^ 64 \<Longrightarrow> real_idx t (idx_of t r) = r"
  by (simp add: real_idx_def idx_of_def unat_of_nat)

lemma idx_of_real: "idx_of t (real_idx t i) = i"
  by (simp add: real_idx_def idx_of_def)

lemma real_idx_future: "real_idx t (future t) = 2 ^ 64 - 1"
  by (simp add: real_idx_def future_def unsigned_minus_1_eq_mask mask_eq_exp_minus_1)

lemma heads_mem: "i \<in># heads xs \<longleftrightarrow> (\<exists>p. Some p \<in> set xs \<and> pos_index p = i)"
  by (force simp: heads_def)

lemma nexts_mem: "i \<in># nexts ss \<longleftrightarrow> (\<exists>s \<in> set ss. slot_next s = Some i)"
  by (force simp: nexts_def)

lemma nexts_simps [simp]: "nexts [] = {#}"
  "nexts (s # ss) = (case slot_next s of None \<Rightarrow> {#} | Some i \<Rightarrow> {#i#}) + nexts ss"
  "nexts (ss @ ss') = nexts ss + nexts ss'"
  by (auto simp: nexts_def split: option.split)

lemma heads_mset:
  assumes "mset ys + {#x#} = mset xs + {#y#}"
  shows "heads ys + (case x of None \<Rightarrow> {#} | Some p \<Rightarrow> {#pos_index p#}) = heads xs + (case y of None \<Rightarrow> {#} | Some p \<Rightarrow> {#pos_index p#})"
proof -
  have "heads (ys @ [x]) = heads (xs @ [y])" using assms by (simp add: heads_def)
  then show ?thesis by (auto simp: heads_def split: option.splits)
qed

lemma heads_update:
  assumes "i < length xs" and "xs ! i = Some p"
  shows "heads (xs[i := Some q]) + {#pos_index p#} = heads xs + {#pos_index q#}"
proof -
  have "Some p \<in># mset xs" using assms nth_mem by fastforce
  then have "mset (xs[i := Some q]) + {#Some p#} = mset xs + {#Some q#}" using assms by (simp add: mset_update)
  from heads_mset [OF this] show ?thesis by simp
qed

lemma heads_unique:
  assumes "count (heads xs) idx = 1" and "i < length xs" and "xs ! i = Some p" and "pos_index p = idx"
    and "j < length xs" and "xs ! j = Some q" and "pos_index q = idx"
  shows "j = i"
proof (rule ccontr)
  assume "j \<noteq> i"
  then have "heads (xs[i := Some (p\<lparr>pos_index := idx + 1\<rparr>), j := Some (q\<lparr>pos_index := idx + 1\<rparr>)]) + {#idx#} + {#idx#} =
      heads xs + {#idx + 1#} + {#idx + 1#}"
    using heads_update [of i xs p "p\<lparr>pos_index := idx + 1\<rparr>"]
      heads_update [of j "xs[i := Some (p\<lparr>pos_index := idx + 1\<rparr>)]" q "q\<lparr>pos_index := idx + 1\<rparr>"] assms(2-)
    by (simp add: ac_simps)
  from arg_cong [OF this, of "\<lambda>m. count m idx"] assms(1) show False by simp
qed

section \<open>The invariant\<close>

definition chain_ok :: "ETable \<Rightarrow> bool" where
  "chain_ok t \<longleftrightarrow> (\<forall>r < length (et_slots t). \<forall>i. slot_next (et_slots t ! r) = Some i \<longrightarrow>
     real_idx t i < r \<and> header_name (slot_header (et_slots t ! real_idx t i)) = header_name (slot_header (et_slots t ! r)))"

definition hash_ok :: "(Name \<Rightarrow> u64) \<Rightarrow> ETable \<Rightarrow> bool" where
  "hash_ok fnv t \<longleftrightarrow> (\<forall>s \<in> set (et_slots t). slot_hash s = hash_header fnv (slot_header s))"

definition head_ok :: "ETable \<Rightarrow> bool" where
  "head_ok t \<longleftrightarrow> (\<forall>p. Some p \<in> set (et_indices t) \<longrightarrow> real_idx t (pos_index p) < length (et_slots t) \<longrightarrow>
     slot_hash (et_slots t ! real_idx t (pos_index p)) = pos_hash p)"

definition et_headers :: "ETable \<Rightarrow> Header list" where
  "et_headers t = map slot_header (et_slots t)"

text \<open>
  The invariant in the middle of an insertion: \<open>L\<close> bytes are already counted, and \<open>E\<close> are references to a slot
  that is not there yet.
\<close>

definition et_core :: "(Name \<Rightarrow> u64) \<Rightarrow> nat \<Rightarrow> usize multiset \<Rightarrow> ETable \<Rightarrow> bool" where
  "et_core fnv L E t \<longleftrightarrow>
     table_shape (length (et_indices t)) (et_mask t) \<and> robin_hood (et_indices t) \<and>
     heads (et_indices t) + nexts (et_slots t) = mset (map (idx_of t) [0..<length (et_slots t)]) + E \<and>
     chain_ok t \<and> hash_ok fnv t \<and> head_ok t \<and>
     length (et_slots t) \<le> usable_capacity (length (et_indices t)) \<and>
     et_size t = total_len (et_headers t) + L"

definition pending :: "nat \<Rightarrow> usize option \<Rightarrow> usize multiset \<Rightarrow> ETable \<Rightarrow> bool" where
  "pending h prev E t = (case prev of
     None \<Rightarrow> E = {#}
   | Some i \<Rightarrow> \<exists>r < 2 ^ 63. i = idx_of t r \<and>
       (if r < length (et_slots t)
        then E = {#} \<and> slot_next (et_slots t ! r) = None \<and> slot_hash (et_slots t ! r) = h
        else E = {#future t#} \<and> (\<forall>p. Some p \<in> set (et_indices t) \<longrightarrow> pos_index p = future t \<longrightarrow> pos_hash p = h)))"

lemma core_len: "et_core fnv L E t \<Longrightarrow> length (et_slots t) < 2 ^ 62"
  using shape_pos [of "length (et_indices t)" "et_mask t"] unfolding et_core_def usable_capacity_def by linarith

lemma core_hole:
  assumes "et_core fnv L E t" and "size E \<le> 1"
  shows "\<exists>v. cyc (et_indices t) v = None"
proof (rule ccontr)
  assume "\<not> ?thesis"
  then have "x \<noteq> None" if "x \<in> set (et_indices t)" for x
    using that by (metis cyc_nth in_set_conv_nth)
  then have "filter_mset (\<lambda>x. x \<noteq> None) (mset (et_indices t)) = mset (et_indices t)"
    by (simp add: filter_mset_eq_conv)
  then have "size (heads (et_indices t)) = length (et_indices t)" by (simp add: heads_def)
  moreover have "size (heads (et_indices t)) + size (nexts (et_slots t)) = length (et_slots t) + size E"
    using assms(1) unfolding et_core_def by (metis size_union length_map length_upt diff_zero size_mset)
  moreover have "8 \<le> length (et_indices t)" "length (et_slots t) \<le> usable_capacity (length (et_indices t))"
    using assms(1) shape_pos unfolding et_core_def by blast+
  ultimately show False using assms(2) unfolding usable_capacity_def by linarith
qed

lemma idx_of_inj: "a < 2 ^ 62 \<Longrightarrow> b < 2 ^ 62 \<Longrightarrow> idx_of t a = idx_of t b \<longleftrightarrow> a = b"
proof -
  assume "a < 2 ^ 62" "b < 2 ^ 62"
  then have "a < 2 ^ 64" "b < 2 ^ 64" by simp_all
  then show ?thesis using real_idx_of [of a t] real_idx_of [of b t] by metis
qed

lemma count_idx:
  assumes "n \<le> 2 ^ 62" and "r < n"
  shows "count (mset (map (idx_of t) [0..<n])) (idx_of t r) = 1"
proof -
  have "distinct (map (idx_of t) [0..<n])"
    using assms idx_of_inj [of _ _ t] by (auto simp: distinct_map inj_on_def)
  moreover have "idx_of t r \<in> set (map (idx_of t) [0..<n])" using assms(2) by auto
  ultimately show ?thesis by (simp add: distinct_count_atmost_1)
qed

lemma idx_of_same [simp]:
  "idx_of (t\<lparr>et_slots := a\<rparr>) = idx_of t" "idx_of (t\<lparr>et_size := b\<rparr>) = idx_of t" "idx_of (t\<lparr>et_indices := c\<rparr>) = idx_of t"
  "idx_of (t\<lparr>et_max_size := d\<rparr>) = idx_of t" "idx_of (t\<lparr>et_mask := e\<rparr>) = idx_of t"
  by (auto simp: idx_of_def fun_eq_iff)

lemma real_idx_same [simp]:
  "real_idx (t\<lparr>et_slots := a\<rparr>) = real_idx t" "real_idx (t\<lparr>et_size := b\<rparr>) = real_idx t" "real_idx (t\<lparr>et_indices := c\<rparr>) = real_idx t"
  "real_idx (t\<lparr>et_max_size := d\<rparr>) = real_idx t" "real_idx (t\<lparr>et_mask := e\<rparr>) = real_idx t"
  by (auto simp: real_idx_def fun_eq_iff)

lemma future_same [simp]:
  "future (t\<lparr>et_slots := a\<rparr>) = future t" "future (t\<lparr>et_size := b\<rparr>) = future t" "future (t\<lparr>et_indices := c\<rparr>) = future t"
  "future (t\<lparr>et_max_size := d\<rparr>) = future t" "future (t\<lparr>et_mask := e\<rparr>) = future t"
  by (auto simp: future_def)

section \<open>Eviction keeps the invariant\<close>

lemma core_refs: "et_core fnv L E t \<Longrightarrow>
  heads (et_indices t) + nexts (et_slots t) = mset (map (idx_of t) [0..<length (et_slots t)]) + E"
  by (simp add: et_core_def)

lemma future_not_slot: "r < 2 ^ 63 \<Longrightarrow> future t \<noteq> idx_of t r"
proof
  assume "r < 2 ^ 63" "future t = idx_of t r"
  then have "r = 2 ^ 64 - 1" using real_idx_of [of r t] real_idx_future [of t] by simp
  then show False using \<open>r < 2 ^ 63\<close> by simp
qed

lemma pending_size: "pending h prev E t \<Longrightarrow> size E \<le> 1" "pending h prev E t \<Longrightarrow> E \<subseteq># {#future t#}"
  by (auto simp: pending_def split: option.splits if_splits)

lemma last_head:
  assumes core: "et_core fnv L E t" and ne: "et_slots t \<noteq> []" and E: "E \<subseteq># {#future t#}"
  shows "count (heads (et_indices t)) (idx_of t (length (et_slots t) - 1)) = 1"
proof -
  let ?n = "length (et_slots t)" and ?idx = "idx_of t (length (et_slots t) - 1)"
  have n: "?n < 2 ^ 62" "?n - 1 < ?n" using core_len [OF core] ne by auto
  have "?idx \<notin># nexts (et_slots t)"
  proof
    assume "?idx \<in># nexts (et_slots t)"
    then obtain r where r: "r < ?n" "slot_next (et_slots t ! r) = Some ?idx" by (auto simp: nexts_mem in_set_conv_nth)
    then have "real_idx t ?idx < r" using core unfolding et_core_def chain_ok_def by blast
    moreover have "?n - 1 < 2 ^ 64" using n(1) by simp
    ultimately show False using r(1) real_idx_of [of "?n - 1" t] by simp
  qed
  moreover have "future t \<noteq> ?idx" using n(1) by (intro future_not_slot) simp
  then have "count E ?idx = 0" using E by (metis count_single mset_subset_eq_count le_zero_eq)
  ultimately show ?thesis
    using arg_cong [OF core_refs [OF core], of "\<lambda>m. count m ?idx"] count_idx [of ?n "?n - 1" t] n
    by (simp add: not_in_iff)
qed

text \<open>After the last slot is gone, with new positions \<open>ys\<close>.\<close>

lemma core_butlast:
  assumes core: "et_core fnv L E t" and ne: "et_slots t \<noteq> []"
    and ys: "length ys = length (et_indices t)" "robin_hood ys"
    and refs: "heads ys + nexts (butlast (et_slots t)) = mset (map (idx_of t) [0..<length (et_slots t) - 1]) + E'"
    and head: "\<And>p. Some p \<in> set ys \<Longrightarrow> real_idx t (pos_index p) < length (et_slots t) - 1 \<Longrightarrow>
      slot_hash (et_slots t ! real_idx t (pos_index p)) = pos_hash p"
  shows "et_core fnv L E' (t\<lparr>et_slots := butlast (et_slots t), et_size := et_size t - header_len (slot_header (last (et_slots t))), et_indices := ys\<rparr>)"
proof -
  have "et_headers t \<noteq> []" "last (et_headers t) = slot_header (last (et_slots t))"
    "map slot_header (butlast (et_slots t)) = butlast (et_headers t)" "header_len (last (et_headers t)) \<le> total_len (et_headers t)"
    using ne by (simp_all add: et_headers_def last_map map_butlast total_len_def member_le_sum_list)
  then have "total_len (et_headers t) + L - header_len (slot_header (last (et_slots t))) = total_len (map slot_header (butlast (et_slots t))) + L"
    using total_len_butlast [of "et_headers t"] by simp
  moreover have "chain_ok (t\<lparr>et_slots := butlast (et_slots t), et_size := s, et_indices := ys\<rparr>)" for s
    unfolding chain_ok_def
  proof (intro allI impI)
    let ?t = "t\<lparr>et_slots := butlast (et_slots t), et_size := s, et_indices := ys\<rparr>"
    fix r i assume r: "r < length (et_slots ?t)" "slot_next (et_slots ?t ! r) = Some i"
    then have "r < length (et_slots t) - 1" "slot_next (et_slots t ! r) = Some i" by (simp_all add: nth_butlast)
    moreover from this have "real_idx t i < r \<and> header_name (slot_header (et_slots t ! real_idx t i)) = header_name (slot_header (et_slots t ! r))"
      using core unfolding et_core_def chain_ok_def by force
    ultimately show "real_idx ?t i < r \<and> header_name (slot_header (et_slots ?t ! real_idx ?t i)) = header_name (slot_header (et_slots ?t ! r))"
      by (simp add: nth_butlast)
  qed
  moreover have "hash_ok fnv (t\<lparr>et_slots := butlast (et_slots t), et_size := s, et_indices := ys\<rparr>)" for s
    using core unfolding et_core_def hash_ok_def by (auto dest: in_set_butlastD)
  moreover have "head_ok (t\<lparr>et_slots := butlast (et_slots t), et_size := s, et_indices := ys\<rparr>)" for s
    using head unfolding head_ok_def by (auto simp: nth_butlast)
  moreover have "length (et_slots t) - 1 \<le> usable_capacity (length (et_indices t))"
    using core unfolding et_core_def by linarith
  ultimately show ?thesis
    using core ys refs unfolding et_core_def by (simp add: et_headers_def)
qed

lemma level_hash:
  assumes "map (map_option pos_hash) ys = map (map_option pos_hash) xs"
  shows "level ys u = level xs u"
proof (cases "xs = []")
  case True
  then show ?thesis using assms by simp
next
  case False
  have len: "length ys = length xs" using assms by (metis length_map)
  have "map_option pos_hash (cyc ys u) = map_option pos_hash (cyc xs u)"
    using assms False len nth_map [of "u mod length xs" ys] nth_map [of "u mod length xs" xs]
    by (metis cyc_def length_greater_0_conv mod_less_divisor)
  then show ?thesis using len by (cases "cyc ys u"; cases "cyc xs u") (auto simp: level_def displ_def)
qed

lemma robin_hood_hash:
  assumes "map (map_option pos_hash) ys = map (map_option pos_hash) xs" and "robin_hood xs"
  shows "robin_hood ys"
proof (cases "ys = []")
  case True
  then show ?thesis using assms by simp
next
  case False
  then show ?thesis
    using level_robin_hood [where xs = ys and b = 0] robin_hood_level [OF assms(2)] level_hash [OF assms(1)] by simp
qed

lemma same_hash_update:
  "i < length xs \<Longrightarrow> xs ! i = Some p \<Longrightarrow> pos_hash q = pos_hash p \<Longrightarrow>
   map (map_option pos_hash) (xs[i := Some q]) = map (map_option pos_hash) xs"
  by (simp add: map_update list_update_same_conv)

lemma evict_found:
  assumes core: "et_core fnv L E t" and ne: "et_slots t \<noteq> []" and E: "E \<subseteq># {#future t#}"
  shows "\<exists>i p. i < length (et_indices t) \<and> et_indices t ! i = Some p \<and> pos_index p = idx_of t (length (et_slots t) - 1) \<and>
    pos_hash p = slot_hash (last (et_slots t)) \<and>
    evict_find (et_indices t) (idx_of t (length (et_slots t) - 1)) (desired_pos (et_mask t) (slot_hash (last (et_slots t)))) = Some i"
proof -
  let ?n = "length (et_slots t)" and ?idx = "idx_of t (length (et_slots t) - 1)" and ?xs = "et_indices t"
  have one: "count (heads ?xs) ?idx = 1" by (rule last_head [OF assms])
  then have "?idx \<in># heads ?xs" by (metis count_greater_zero_iff zero_less_one)
  then obtain p i where p: "i < length ?xs" "?xs ! i = Some p" "pos_index p = ?idx"
    by (auto simp: heads_mem in_set_conv_nth)
  have "?n - 1 < 2 ^ 64" using core_len [OF core] by simp
  then have "real_idx t (pos_index p) = ?n - 1" using p(3) real_idx_of by simp
  then have h: "pos_hash p = slot_hash (last (et_slots t))"
    using core p(1,2) ne nth_mem [OF p(1)] unfolding et_core_def head_ok_def by (auto simp: last_conv_nth)
  have sh: "table_shape (length ?xs) (et_mask t)" and rh: "robin_hood ?xs" using core by (auto simp: et_core_def)
  have "?xs \<noteq> []" using p(1) by auto
  from evict_find_finds [OF rh this p] heads_unique [OF one p] have "evict_find ?xs ?idx (pos_hash p mod length ?xs) = Some i" by blast
  then show ?thesis using p h desired_pos_mod [OF sh] by metis
qed

text \<open>What an eviction keeps besides the invariant.\<close>

definition evicts :: "ETable \<Rightarrow> ETable \<Rightarrow> bool" where
  "evicts t t' \<longleftrightarrow> et_slots t' = butlast (et_slots t) \<and> et_inserted t' = et_inserted t \<and> et_max_size t' = et_max_size t \<and>
     et_mask t' = et_mask t \<and> length (et_indices t') = length (et_indices t) \<and>
     (\<forall>u. level (et_indices t') u \<le> level (et_indices t) u)"

lemma slots_split: "et_slots t \<noteq> [] \<Longrightarrow>
   nexts (et_slots t) = nexts (butlast (et_slots t)) + (case slot_next (last (et_slots t)) of None \<Rightarrow> {#} | Some i \<Rightarrow> {#i#})"
  "et_slots t \<noteq> [] \<Longrightarrow> mset (map (idx_of t) [0..<length (et_slots t)]) =
     mset (map (idx_of t) [0..<length (et_slots t) - 1]) + {#idx_of t (length (et_slots t) - 1)#}"
proof -
  assume ne: "et_slots t \<noteq> []"
  have "nexts (et_slots t) = nexts (butlast (et_slots t) @ [last (et_slots t)])" using ne by simp
  then show "nexts (et_slots t) = nexts (butlast (et_slots t)) + (case slot_next (last (et_slots t)) of None \<Rightarrow> {#} | Some i \<Rightarrow> {#i#})"
    by (simp only: nexts_simps add_0_right)
  obtain m where m: "length (et_slots t) = Suc m" using ne by (cases "et_slots t") auto
  show "mset (map (idx_of t) [0..<length (et_slots t)]) =
     mset (map (idx_of t) [0..<length (et_slots t) - 1]) + {#idx_of t (length (et_slots t) - 1)#}"
    unfolding m by simp
qed

lemma core_refs_split:
  assumes "et_core fnv L E t" and "et_slots t \<noteq> []"
  shows "heads (et_indices t) + (nexts (butlast (et_slots t)) + (case slot_next (last (et_slots t)) of None \<Rightarrow> {#} | Some i \<Rightarrow> {#i#})) =
    mset (map (idx_of t) [0..<length (et_slots t) - 1]) + {#idx_of t (length (et_slots t) - 1)#} + E"
  using core_refs [OF assms(1)] slots_split(1) [OF assms(2)] slots_split(2) [OF assms(2)] by metis

lemma core_head:
  "et_core fnv L E t \<Longrightarrow> Some p \<in> set (et_indices t) \<Longrightarrow> real_idx t (pos_index p) < length (et_slots t) - 1 \<Longrightarrow>
   slot_hash (et_slots t ! real_idx t (pos_index p)) = pos_hash p"
  unfolding et_core_def head_ok_def by (metis diff_le_self order.strict_trans2)

lemma pending_butlast:
  assumes pend: "pending h prev E t" and ne: "et_slots t \<noteq> []"
    and keep: "slot_next (last (et_slots t)) = None \<Longrightarrow> prev \<noteq> Some (idx_of t (length (et_slots t) - 1))"
    and mem: "\<And>q. Some q \<in> set ys \<Longrightarrow> pos_index q \<noteq> future t \<or> Some q \<in> set (et_indices t)"
  shows "pending h prev E (t\<lparr>et_slots := butlast (et_slots t), et_size := s, et_indices := ys\<rparr>)"
proof (cases prev)
  case None
  then show ?thesis using pend by (simp add: pending_def)
next
  case (Some i)
  then obtain r where r: "r < 2 ^ 63" "i = idx_of t r" "if r < length (et_slots t)
        then E = {#} \<and> slot_next (et_slots t ! r) = None \<and> slot_hash (et_slots t ! r) = h
        else E = {#future t#} \<and> (\<forall>p. Some p \<in> set (et_indices t) \<longrightarrow> pos_index p = future t \<longrightarrow> pos_hash p = h)"
    using pend by (auto simp: pending_def)
  have "r \<noteq> length (et_slots t) - 1" if "r < length (et_slots t)"
    using keep r Some that ne by (auto simp: last_conv_nth)
  then have iff: "r < length (et_slots t) - 1 \<longleftrightarrow> r < length (et_slots t)" by linarith
  show ?thesis
  proof (cases "r < length (et_slots t)")
    case True
    then show ?thesis using r Some iff by (auto simp: pending_def nth_butlast intro!: exI [of _ r])
  next
    case False
    then show ?thesis using r Some iff mem by (auto simp: pending_def intro!: exI [of _ r])
  qed
qed

lemma refs_moved:
  assumes "A' + {#x#} = A + B" and "A + (N + B) = M + {#x#} + (E :: 'a multiset)"
  shows "A' + N = M + E"
proof -
  have "(A' + N) + {#x#} = (A' + {#x#}) + N" by (simp add: ac_simps)
  also have "\<dots> = A + (N + B)" unfolding assms(1) by (simp add: ac_simps)
  also have "\<dots> = (M + E) + {#x#}" unfolding assms(2) by (simp add: ac_simps)
  finally show ?thesis by simp
qed

lemma refs_replaced:
  assumes "A' + {#x#} = A + B" and "A + N = M + {#x#} + (E :: 'a multiset)"
  shows "A' + N = M + (E + B)"
proof -
  have "(A' + N) + {#x#} = (A' + {#x#}) + N" by (simp add: ac_simps)
  also have "\<dots> = (A + N) + B" unfolding assms(1) by (simp add: ac_simps)
  also have "\<dots> = (M + (E + B)) + {#x#}" unfolding assms(2) by (simp add: ac_simps)
  finally show ?thesis by simp
qed

lemma evict_chain:
  assumes core: "et_core fnv L E t" and ne: "et_slots t \<noteq> []" and pend: "pending h prev E t"
    and nx: "slot_next (last (et_slots t)) = Some j"
  shows "\<exists>t'. evict t prev = Some t' \<and> et_core fnv L E t' \<and> pending h prev E t' \<and> evicts t t'"
proof -
  let ?n = "length (et_slots t)" and ?idx = "idx_of t (length (et_slots t) - 1)" and ?xs = "et_indices t"
  obtain i p where p: "i < length ?xs" "?xs ! i = Some p" "pos_index p = ?idx" "pos_hash p = slot_hash (last (et_slots t))"
    and find: "evict_find ?xs ?idx (desired_pos (et_mask t) (slot_hash (last (et_slots t)))) = Some i"
    using evict_found [OF core ne pending_size(2) [OF pend]] by blast
  let ?q = "p\<lparr>pos_index := j\<rparr>" let ?ys = "?xs[i := Some ?q]"
  let ?t = "t\<lparr>et_slots := butlast (et_slots t), et_size := et_size t - header_len (slot_header (last (et_slots t))), et_indices := ?ys\<rparr>"
  have ev: "evict t prev = Some ?t"
    using find p(2) ne nx by (simp add: evict_def idx_of_def Let_def)
  have lastn: "last (et_slots t) = et_slots t ! (?n - 1)" using ne by (simp add: last_conv_nth)
  have "?n - 1 < ?n" using ne by simp
  then have j: "real_idx t j < ?n - 1" "header_name (slot_header (et_slots t ! real_idx t j)) = header_name (slot_header (last (et_slots t)))"
    using core nx unfolding et_core_def chain_ok_def lastn by blast+
  have hash: "slot_hash s = hash_header fnv (slot_header s)" if "s \<in> set (et_slots t)" for s
    using core that unfolding et_core_def hash_ok_def by blast
  have hj: "slot_hash (et_slots t ! real_idx t j) = pos_hash p"
    using hash [of "et_slots t ! real_idx t j"] hash [of "last (et_slots t)"] j ne p(4) by (simp add: hash_header_def)
  have same: "map (map_option pos_hash) ?ys = map (map_option pos_hash) ?xs" by (rule same_hash_update [OF p(1,2)]) simp
  have "heads ?ys + {#?idx#} = heads ?xs + {#j#}" using heads_update [OF p(1,2), of ?q] p(3) by simp
  from refs_moved [OF this core_refs_split [OF core ne, unfolded nx option.case]]
  have refs: "heads ?ys + nexts (butlast (et_slots t)) = mset (map (idx_of t) [0..<?n - 1]) + E" .
  have mem: "q = ?q \<or> Some q \<in> set ?xs" if "Some q \<in> set ?ys" for q
    using that set_update_subset_insert [of ?xs i "Some ?q"] by auto
  have "slot_hash (et_slots t ! real_idx t (pos_index q)) = pos_hash q"
    if "Some q \<in> set ?ys" "real_idx t (pos_index q) < ?n - 1" for q
    using mem [OF that(1)] hj core_head [OF core _ that(2)] by auto
  moreover have "robin_hood ?ys" using robin_hood_hash [OF same] core by (simp add: et_core_def)
  ultimately have "et_core fnv L E ?t" by (intro core_butlast [OF core ne _ _ refs]) simp_all
  moreover have "j \<noteq> future t" using j(1) core_len [OF core] real_idx_future [of t] by auto
  then have "pos_index q \<noteq> future t \<or> Some q \<in> set ?xs" if "Some q \<in> set ?ys" for q using mem [OF that] by auto
  then have "pending h prev E ?t" using nx by (intro pending_butlast [OF pend ne]) simp_all
  moreover have "evicts t ?t" using level_hash [OF same] by (simp add: evicts_def)
  ultimately show ?thesis using ev by blast
qed

lemma evict_prev:
  assumes core: "et_core fnv L E t" and ne: "et_slots t \<noteq> []" and pend: "pending h prev E t"
    and nx: "slot_next (last (et_slots t)) = None" and prev: "prev = Some (idx_of t (length (et_slots t) - 1))"
  shows "\<exists>t'. evict t prev = Some t' \<and> et_core fnv L {#future t#} t' \<and> pending h prev {#future t#} t' \<and> evicts t t'"
proof -
  let ?n = "length (et_slots t)" and ?idx = "idx_of t (length (et_slots t) - 1)" and ?xs = "et_indices t"
  obtain i p where p: "i < length ?xs" "?xs ! i = Some p" "pos_index p = ?idx" "pos_hash p = slot_hash (last (et_slots t))"
    and find: "evict_find ?xs ?idx (desired_pos (et_mask t) (slot_hash (last (et_slots t)))) = Some i"
    using evict_found [OF core ne pending_size(2) [OF pend]] by blast
  let ?q = "p\<lparr>pos_index := future t\<rparr>" let ?ys = "?xs[i := Some ?q]"
  let ?t = "t\<lparr>et_slots := butlast (et_slots t), et_size := et_size t - header_len (slot_header (last (et_slots t))), et_indices := ?ys\<rparr>"
  have ev: "evict t prev = Some ?t"
    using find p(2,3) ne nx prev by (simp add: evict_def idx_of_def Let_def future_def)
  have n: "?n - 1 < 2 ^ 62" "?n < 2 ^ 62" using core_len [OF core] by auto
  obtain r where "r < 2 ^ 63" "?idx = idx_of t r" "if r < ?n
        then E = {#} \<and> slot_next (et_slots t ! r) = None \<and> slot_hash (et_slots t ! r) = h
        else E = {#future t#} \<and> (\<forall>p. Some p \<in> set (et_indices t) \<longrightarrow> pos_index p = future t \<longrightarrow> pos_hash p = h)"
    using pend prev by (auto simp: pending_def)
  moreover from this have "r = ?n - 1" using n real_idx_of [of r t] real_idx_of [of "?n - 1" t] by simp
  ultimately have E: "E = {#}" and h: "pos_hash p = h" using ne p(4) by (auto simp: last_conv_nth)
  have same: "map (map_option pos_hash) ?ys = map (map_option pos_hash) ?xs" by (rule same_hash_update [OF p(1,2)]) simp
  have "heads ?ys + {#?idx#} = heads ?xs + {#future t#}" using heads_update [OF p(1,2), of ?q] p(3) by simp
  moreover have r0: "heads ?xs + nexts (butlast (et_slots t)) = mset (map (idx_of t) [0..<?n - 1]) + {#?idx#} + {#}"
    using core_refs_split [OF core ne] nx E by simp
  ultimately have refs: "heads ?ys + nexts (butlast (et_slots t)) = mset (map (idx_of t) [0..<?n - 1]) + {#future t#}"
    using refs_replaced by fastforce
  have mem: "q = ?q \<or> Some q \<in> set ?xs" if "Some q \<in> set ?ys" for q
    using that set_update_subset_insert [of ?xs i "Some ?q"] by auto
  have fresh: "pos_index q \<noteq> future t" if "Some q \<in> set ?xs" for q
  proof
    assume "pos_index q = future t"
    then have "future t \<in># heads ?xs" using that by (auto simp: heads_mem)
    then have "future t \<in># mset (map (idx_of t) [0..<?n])"
      using core_refs [OF core] E by (metis add_0_right union_iff)
    then obtain r where "r < ?n" "future t = idx_of t r" by auto
    then show False using future_not_slot [of r t] n by simp
  qed
  have "slot_hash (et_slots t ! real_idx t (pos_index q)) = pos_hash q"
    if "Some q \<in> set ?ys" "real_idx t (pos_index q) < ?n - 1" for q
    using mem [OF that(1)] core_head [OF core _ that(2)] that(2) n real_idx_future [of t] by auto
  moreover have "robin_hood ?ys" using robin_hood_hash [OF same] core by (simp add: et_core_def)
  ultimately have "et_core fnv L {#future t#} ?t" by (intro core_butlast [OF core ne _ _ refs]) simp_all
  moreover have "pos_hash q = h" if "Some q \<in> set ?ys" "pos_index q = future t" for q
    using mem [OF that(1)] fresh [of q] that(2) h by auto
  then have "pending h prev {#future t#} ?t"
    using prev n by (simp add: pending_def) (intro exI [of _ "?n - 1"], simp)
  moreover have "evicts t ?t" using level_hash [OF same] by (simp add: evicts_def)
  ultimately show ?thesis using ev by blast
qed

lemma evict_drop:
  assumes core: "et_core fnv L E t" and ne: "et_slots t \<noteq> []" and pend: "pending h prev E t"
    and nx: "slot_next (last (et_slots t)) = None" and prev: "prev \<noteq> Some (idx_of t (length (et_slots t) - 1))"
  shows "\<exists>t'. evict t prev = Some t' \<and> et_core fnv L E t' \<and> pending h prev E t' \<and> evicts t t'"
proof -
  let ?n = "length (et_slots t)" and ?idx = "idx_of t (length (et_slots t) - 1)" and ?xs = "et_indices t"
  obtain i p where p: "i < length ?xs" "?xs ! i = Some p" "pos_index p = ?idx" "pos_hash p = slot_hash (last (et_slots t))"
    and find: "evict_find ?xs ?idx (desired_pos (et_mask t) (slot_hash (last (et_slots t)))) = Some i"
    using evict_found [OF core ne pending_size(2) [OF pend]] by blast
  obtain v where v: "cyc ?xs v = None" using core_hole [OF core pending_size(1) [OF pend]] by blast
  have "table_shape (length ?xs) (et_mask t)" "robin_hood ?xs" using core by (simp_all add: et_core_def)
  from remove_phase_two_removes [OF this p(1,2) v] obtain ys where
    ys: "remove_phase_two (et_mask t) (?xs[i := None]) i = Some ys" "length ys = length ?xs" "robin_hood ys"
      "\<And>u. level ys u \<le> level ?xs u" "mset ys + {#Some p#} = mset ?xs + {#None#}" by blast
  let ?t = "t\<lparr>et_slots := butlast (et_slots t), et_size := et_size t - header_len (slot_header (last (et_slots t))), et_indices := ys\<rparr>"
  have ev: "evict t prev = Some ?t"
    using find p(2,3) ne nx prev ys(1) by (auto simp: evict_def idx_of_def Let_def)
  have "heads ys + {#?idx#} = heads ?xs + {#}" using heads_mset [OF ys(5)] p(3) by simp
  from refs_moved [OF this core_refs_split [OF core ne, unfolded nx option.case]]
  have refs: "heads ys + nexts (butlast (et_slots t)) = mset (map (idx_of t) [0..<?n - 1]) + E" .
  have mem: "Some q \<in> set ?xs" if "Some q \<in> set ys" for q
  proof -
    have "Some q \<in># mset ?xs + {#None#}" using that ys(5) by (metis set_mset_mset union_iff)
    then show ?thesis by simp
  qed
  have "et_core fnv L E ?t"
    using ys(2,3) mem core_head [OF core] by (intro core_butlast [OF core ne _ _ refs]) auto
  moreover have "pending h prev E ?t"
    using pending_butlast [OF pend ne, of ys] prev mem by blast
  moreover have "evicts t ?t" using ys(2,4) by (simp add: evicts_def)
  ultimately show ?thesis using ev by blast
qed

lemma evict_core:
  assumes "et_core fnv L E t" and "et_slots t \<noteq> []" and "pending h prev E t"
  shows "\<exists>t' E'. evict t prev = Some t' \<and> et_core fnv L E' t' \<and> pending h prev E' t' \<and> evicts t t'"
  using evict_chain [OF assms] evict_prev [OF assms] evict_drop [OF assms]
  by (cases "slot_next (last (et_slots t))") blast+

text \<open>The table after some evictions.\<close>

definition shrunk :: "ETable \<Rightarrow> ETable \<Rightarrow> bool" where
  "shrunk t t' \<longleftrightarrow> (\<exists>k. et_slots t' = take k (et_slots t)) \<and> et_inserted t' = et_inserted t \<and> et_max_size t' = et_max_size t \<and>
     et_mask t' = et_mask t \<and> length (et_indices t') = length (et_indices t) \<and>
     (\<forall>u. level (et_indices t') u \<le> level (et_indices t) u)"

lemma shrunk_refl: "shrunk t t"
  by (auto simp: shrunk_def intro: exI [of _ "length (et_slots t)"])

lemma evicts_shrunk:
  assumes "evicts t t'" and "shrunk t' t''"
  shows "shrunk t t''"
proof -
  have "\<exists>k. take m (butlast xs) = take k xs" for m and xs :: "Slot list"
    by (auto simp: butlast_conv_take)
  then show ?thesis using assms unfolding evicts_def shrunk_def by (metis (no_types, lifting) order.trans)
qed

lemma converge_loop_core:
  assumes "et_core fnv L E t" and "pending h prev E t" and "L \<le> et_max_size t"
  shows "\<exists>b t' E'. converge_loop t prev ret = Some (b, t') \<and> et_core fnv L E' t' \<and> pending h prev E' t' \<and> shrunk t t' \<and>
    et_headers t' = fit (et_max_size t - L) (et_headers t) \<and> et_size t' \<le> et_max_size t' \<and> (b = ret \<and> t' = t \<or> b)"
  using assms
proof (induction "length (et_slots t)" arbitrary: t E ret rule: less_induct)
  case less
  have size: "et_size t = total_len (et_headers t) + L" using less.prems(1) by (simp add: et_core_def)
  show ?case
  proof (cases "et_size t > et_max_size t")
    case True
    then have "total_len (et_headers t) > et_max_size t - L" using size less.prems(3) by linarith
    then have ne: "et_slots t \<noteq> []" by (auto simp: et_headers_def)
    obtain t1 E1 where 1: "evict t prev = Some t1" "et_core fnv L E1 t1" "pending h prev E1 t1" "evicts t t1"
      using evict_core [OF less.prems(1) ne less.prems(2)] by blast
    have l: "length (et_slots t1) < length (et_slots t)" "et_max_size t1 = et_max_size t" "et_headers t1 = butlast (et_headers t)"
      using 1(4) ne by (auto simp: evicts_def et_headers_def map_butlast)
    obtain b t' E' where IH: "converge_loop t1 prev True = Some (b, t')" "et_core fnv L E' t'" "pending h prev E' t'"
      "shrunk t1 t'" "et_headers t' = fit (et_max_size t - L) (et_headers t1)" "et_size t' \<le> et_max_size t'" "b"
      using less.hyps [OF l(1) 1(2,3), of True] less.prems(3) l(2) by auto
    have "converge_loop t prev ret = Some (b, t')" using True 1(1) IH(1) by (subst converge_loop.simps) simp
    moreover have "et_headers t' = fit (et_max_size t - L) (et_headers t)"
      using IH(5) l(3) fit_butlast [OF \<open>et_max_size t - L < total_len (et_headers t)\<close>] by simp
    ultimately show ?thesis using IH evicts_shrunk [OF 1(4) IH(4)] by blast
  next
    case False
    then have "fit (et_max_size t - L) (et_headers t) = et_headers t" using size by (intro fit_all) linarith
    then show ?thesis using False less.prems shrunk_refl by (subst converge_loop.simps) auto
  qed
qed

section \<open>Insertion keeps the invariant\<close>

lemma real_idx_insert:
  assumes "real_idx t i < 2 ^ 63"
  shows "real_idx (et_insert t header hash) i = Suc (real_idx t i)"
proof -
  have "i + et_inserted t \<noteq> - 1"
  proof
    assume "i + et_inserted t = - 1"
    then have "real_idx t i = 2 ^ 64 - 1" by (simp add: real_idx_def unsigned_minus_1_eq_mask mask_eq_exp_minus_1)
    then show False using assms by simp
  qed
  then have "unat (i + et_inserted t + 1) = Suc (unat (i + et_inserted t))"
    using unatSuc [of "i + et_inserted t"] by (simp add: add.commute add_eq_0_iff)
  then show ?thesis by (simp add: real_idx_def et_insert_def add.assoc [symmetric])
qed

lemma idx_of_insert: "idx_of (et_insert t header hash) (Suc r) = idx_of t r" "idx_of (et_insert t header hash) 0 = future t"
  by (simp_all add: idx_of_def et_insert_def future_def)

lemma insert_refs: "mset (map (idx_of (et_insert t header hash)) [0..<Suc n]) = mset (map (idx_of t) [0..<n]) + {#future t#}"
proof -
  have "[0..<Suc n] = 0 # map Suc [0..<n]" by (simp add: map_Suc_upt upt_conv_Cons del: upt_Suc)
  then have "map (idx_of (et_insert t header hash)) [0..<Suc n] = future t # map (idx_of t) [0..<n]"
    by (simp add: idx_of_insert comp_def)
  then show ?thesis by simp
qed

lemma et_insert_simps [simp]:
  "et_slots (et_insert t header hash) = \<lparr>slot_hash = hash, slot_header = header, slot_next = None\<rparr> # et_slots t"
  "et_indices (et_insert t header hash) = et_indices t" "et_size (et_insert t header hash) = et_size t"
  "et_max_size (et_insert t header hash) = et_max_size t" "et_mask (et_insert t header hash) = et_mask t"
  by (simp_all add: et_insert_def)

lemma insert_future: "0 - et_inserted (et_insert t header hash) = future t"
  by (simp add: et_insert_def future_def)

text \<open>A new slot in front, with positions and lists that refer to it once.\<close>

lemma insert_core:
  assumes core: "et_core fnv (header_len header) E t" and hash: "hash = hash_header fnv header"
    and room: "length (et_slots t) < usable_capacity (length (et_indices t))"
    and ys: "length ys = length (et_indices t)" "robin_hood ys"
    and ss: "length ss = length (et_slots t)" "map slot_header ss = map slot_header (et_slots t)" "map slot_hash ss = map slot_hash (et_slots t)"
    and refs: "heads ys + nexts ss = mset (map (idx_of t) [0..<length (et_slots t)]) + {#future t#}"
    and chain: "\<And>r i. r < length ss \<Longrightarrow> slot_next (ss ! r) = Some i \<Longrightarrow>
      slot_next (et_slots t ! r) = Some i \<or> i = future t \<and> header_name (slot_header (et_slots t ! r)) = header_name header"
    and head: "\<And>p. Some p \<in> set ys \<Longrightarrow> Some p \<in> set (et_indices t) \<and> pos_index p \<noteq> future t \<or> pos_index p = future t \<and> pos_hash p = hash"
  shows "et_core fnv 0 {#} ((et_insert t header hash)\<lparr>et_indices := ys,
    et_slots := \<lparr>slot_hash = hash, slot_header = header, slot_next = None\<rparr> # ss\<rparr>)" (is "et_core fnv 0 {#} ?t")
proof -
  let ?n = "length (et_slots t)"
  have n: "?n < 2 ^ 62" by (rule core_len [OF core])
  have real: "real_idx ?t i = real_idx (et_insert t header hash) i" for i by simp
  have hd: "real_idx (et_insert t header hash) (future t) = 0"
    by (simp add: real_idx_def et_insert_def future_def)
  have suc: "real_idx (et_insert t header hash) i = Suc (real_idx t i)" if "real_idx t i < ?n" for i
    using that n by (intro real_idx_insert) simp
  have inv: "real_idx t i < ?n \<and> real_idx (et_insert t header hash) i = Suc (real_idx t i)"
    if a: "real_idx (et_insert t header hash) i < Suc ?n" "i \<noteq> future t" for i
  proof -
    have "idx_of (et_insert t header hash) (real_idx (et_insert t header hash) i) = i" by (rule idx_of_real)
    then obtain r where r: "real_idx (et_insert t header hash) i = Suc r" "idx_of t r = i"
      using a(2) idx_of_insert [of t header hash] by (cases "real_idx (et_insert t header hash) i") auto
    moreover have "real_idx t i = r" using r a(1) n real_idx_of [of r t] by simp
    ultimately show ?thesis using r a(1) by simp
  qed
  have hdr: "slot_header (ss ! r) = slot_header (et_slots t ! r)" "slot_hash (ss ! r) = slot_hash (et_slots t ! r)" if "r < ?n" for r
    using that ss by (metis nth_map)+
  have "chain_ok ?t"
    unfolding chain_ok_def
  proof (intro allI impI)
    fix r i assume r: "r < length (et_slots ?t)" "slot_next (et_slots ?t ! r) = Some i"
    then obtain r' where r': "r = Suc r'" "r' < ?n" "slot_next (ss ! r') = Some i" using ss(1) by (cases r) auto
    show "real_idx ?t i < r \<and> header_name (slot_header (et_slots ?t ! real_idx ?t i)) = header_name (slot_header (et_slots ?t ! r))"
    proof (cases "i = future t \<and> header_name (slot_header (et_slots t ! r')) = header_name header")
      case True
      then show ?thesis using r' hd hdr by simp
    next
      case False
      then have "slot_next (et_slots t ! r') = Some i" using chain [of r' i] r' ss(1) by auto
      then have "real_idx t i < r'" "header_name (slot_header (et_slots t ! real_idx t i)) = header_name (slot_header (et_slots t ! r'))"
        using core r'(2) unfolding et_core_def chain_ok_def by blast+
      then show ?thesis using r' suc [of i] hdr by simp
    qed
  qed
  moreover have "hash_ok fnv ?t"
  proof -
    have "slot_hash s = hash_header fnv (slot_header s)" if s: "s \<in> set ss" for s
    proof -
      obtain r where r: "r < ?n" "s = ss ! r" using s ss(1) by (auto simp: in_set_conv_nth)
      then have "slot_hash (et_slots t ! r) = hash_header fnv (slot_header (et_slots t ! r))"
        using core nth_mem unfolding et_core_def hash_ok_def by blast
      then show ?thesis using hdr r by simp
    qed
    then show ?thesis using hash by (simp add: hash_ok_def)
  qed
  moreover have "head_ok ?t"
    unfolding head_ok_def
  proof (intro allI impI)
    fix p assume p: "Some p \<in> set (et_indices ?t)" "real_idx ?t (pos_index p) < length (et_slots ?t)"
    show "slot_hash (et_slots ?t ! real_idx ?t (pos_index p)) = pos_hash p"
    proof (cases "pos_index p = future t")
      case True
      then show ?thesis using head [of p] p hd by auto
    next
      case False
      then have "Some p \<in> set (et_indices t)" using head [of p] p by auto
      moreover have "real_idx t (pos_index p) < ?n" "real_idx ?t (pos_index p) = Suc (real_idx t (pos_index p))"
        using inv [of "pos_index p"] p(2) False ss(1) by simp_all
      ultimately show ?thesis using core hdr unfolding et_core_def head_ok_def by simp
    qed
  qed
  moreover have "heads ys + nexts ss = mset (map (idx_of (et_insert t header hash)) [0..<Suc ?n])"
    using refs insert_refs [of t header hash ?n] by simp
  ultimately show ?thesis
    using core ys ss room unfolding et_core_def by (simp add: et_headers_def)
qed

lemma core_add_len:
  assumes "et_core fnv 0 {#} t"
  shows "et_core fnv L {#} (t\<lparr>et_size := et_size t + L\<rparr>)"
proof -
  let ?t = "t\<lparr>et_size := et_size t + L\<rparr>"
  have "real_idx ?t = real_idx t" "idx_of ?t = idx_of t" by (simp_all add: fun_eq_iff real_idx_def idx_of_def)
  then have "chain_ok ?t = chain_ok t" "hash_ok fnv ?t = hash_ok fnv t" "head_ok ?t = head_ok t" "et_headers ?t = et_headers t"
    "idx_of ?t = idx_of t"
    by (simp_all add: chain_ok_def hash_ok_def head_ok_def et_headers_def)
  then show ?thesis using assms by (simp add: et_core_def)
qed

lemma shrunk_len: "shrunk t t' \<Longrightarrow> length (et_slots t') \<le> length (et_slots t)"
  by (auto simp: shrunk_def)

lemma future_fresh:
  assumes "et_core fnv L {#} t" and "Some p \<in> set (et_indices t)"
  shows "pos_index p \<noteq> future t" and "real_idx t (pos_index p) < length (et_slots t)"
proof -
  have "pos_index p \<in># heads (et_indices t)" using assms(2) by (auto simp: heads_mem)
  then have "pos_index p \<in># mset (map (idx_of t) [0..<length (et_slots t)])"
    using core_refs [OF assms(1)] by (metis add_0_right union_iff)
  then obtain r where r: "r < length (et_slots t)" "pos_index p = idx_of t r" by auto
  have n: "length (et_slots t) < 2 ^ 62" by (rule core_len [OF assms(1)])
  then show "pos_index p \<noteq> future t" using r future_not_slot [of r t] by simp
  show "real_idx t (pos_index p) < length (et_slots t)" using r n real_idx_of [of r t] by simp
qed

text \<open>The table after a header was inserted, in terms of its contents.\<close>

definition inserted :: "ETable \<Rightarrow> Header \<Rightarrow> ETable \<Rightarrow> bool" where
  "inserted t header t' \<longleftrightarrow> et_headers t' = fit (et_max_size t) (header # et_headers t) \<and>
     et_max_size t' = et_max_size t \<and> header_len header \<le> et_max_size t"

lemma vacant_step:
  assumes "i < length xs"
  shows "(case xs ! i of Some prev \<Rightarrow> shift_forward (xs[i := Some x]) prev (i + 1) | None \<Rightarrow> Some (xs[i := Some x])) = shift_forward xs x i"
  using assms by (subst (2) shift_forward.simps) (simp split: option.split)

lemma index_vacant_inserts:
  assumes core: "et_core fnv 0 {#} t" and pl: "placeable (et_indices t) hash d p" and hash: "hash = hash_header fnv header"
    and ns: "\<not> is_sensitive header" and fits: "header_len header \<le> et_max_size t"
    and room: "length (et_slots t) < usable_capacity (length (et_indices t))"
  shows "\<exists>t'. index_vacant t header hash d p statik =
      Some (case statik of Some (n, _) \<Rightarrow> Index_InsertedValue n 0 | None \<Rightarrow> Index_Inserted 0, t') \<and>
    et_core fnv 0 {#} t' \<and> et_size t' \<le> et_max_size t' \<and> inserted t header t'"
proof -
  let ?L = "header_len header"
  let ?t0 = "t\<lparr>et_size := et_size t + ?L\<rparr>"
  obtain ev t1 E1 where 1: "converge_loop ?t0 None False = Some (ev, t1)" "et_core fnv ?L E1 t1" "pending hash None E1 t1" "shrunk ?t0 t1"
    "et_headers t1 = fit (et_max_size t - ?L) (et_headers t)" "et_size t1 \<le> et_max_size t1" "\<not> ev \<longrightarrow> t1 = ?t0"
    using converge_loop_core [OF core_add_len [OF core, of ?L], of hash None False] fits by (auto simp: pending_def et_headers_def)
  have c1: "et_core fnv ?L {#} t1" using 1(2,3) by (simp add: pending_def)
  have s1: "length (et_indices t1) = length (et_indices t)" "et_mask t1 = et_mask t" "et_max_size t1 = et_max_size t"
    "\<And>u. level (et_indices t1) u \<le> level (et_indices t) u" "length (et_slots t1) \<le> length (et_slots t)"
    using 1(4) shrunk_len [OF 1(4)] by (auto simp: shrunk_def)
  have sh: "table_shape (length (et_indices t1)) (et_mask t1)" and rh: "robin_hood (et_indices t1)" using c1 by (auto simp: et_core_def)
  have ne: "et_indices t1 \<noteq> []" using shape_pos(3) [OF sh] by auto
  have st: "steals (et_indices t1) hash d p"
    using pl s1(1) s1(4) [of p] by (auto simp: placeable_def steals_def)
  obtain p' d' where p': "(if ev then back_loop (et_mask t1) (et_indices t1) p d else Some p) = Some p'" "placeable (et_indices t1) hash d' p'"
    using back_loop_places [OF sh st] pl 1(7) by (cases ev) auto
  let ?pos = "\<lparr>pos_index = future t1, pos_hash = hash\<rparr>"
  have pn: "p' < length (et_indices t1)" "p' mod length (et_indices t1) = p'"
    using p'(2) ne by (auto simp: placeable_def steals_def)
  obtain v where v: "cyc (et_indices t1) v = None" using core_hole [OF c1] by auto
  from shift_forward_inserts [OF rh ne v placeable_insertable [OF p'(2) _ ne], of ?pos] obtain ys where
    ys: "shift_forward (et_indices t1) ?pos p' = Some ys" "length ys = length (et_indices t1)"
      "mset ys + {#None#} = mset (et_indices t1) + {#Some ?pos#}" "robin_hood ys"
    using pn(2) by auto
  have hd: "heads ys = heads (et_indices t1) + {#future t1#}" using heads_mset [OF ys(3)] by simp
  have mem: "Some q \<in> set (et_indices t1) \<and> pos_index q \<noteq> future t1 \<or> pos_index q = future t1 \<and> pos_hash q = hash" if "Some q \<in> set ys" for q
  proof -
    have "Some q \<in># mset (et_indices t1) + {#Some ?pos#}" using that ys(3) by (metis set_mset_mset union_iff)
    then show ?thesis using future_fresh(1) [OF c1] by auto
  qed
  let ?t = "(et_insert t1 header hash)\<lparr>et_indices := ys, et_slots := \<lparr>slot_hash = hash, slot_header = header, slot_next = None\<rparr> # et_slots t1\<rparr>"
  have "et_core fnv 0 {#} ?t"
    using core_refs [OF c1] hd ys(2,4) room s1 mem
    by (intro insert_core [OF c1 hash]) (auto simp: ac_simps)
  moreover have "index_vacant t header hash d p statik =
      Some (case statik of Some (n, _) \<Rightarrow> Index_InsertedValue n 0 | None \<Rightarrow> Index_Inserted 0, ?t)"
  proof -
    have "index_vacant t header hash d p statik =
        Some (case statik of Some (n, _) \<Rightarrow> Index_InsertedValue n 0 | None \<Rightarrow> Index_Inserted 0, (et_insert t1 header hash)\<lparr>et_indices := ys\<rparr>)"
      using ns 1(1) p'(1) pn(1) trans [OF vacant_step [OF pn(1), of ?pos] ys(1)]
      by (simp add: index_vacant_def update_size_def converge_def index_def Let_def insert_future del: diff_0 cong: option.case_cong)
    then show ?thesis by (simp add: et_insert_def)
  qed
  moreover have "inserted t header ?t" using 1(5) fits s1(3) by (simp add: inserted_def et_headers_def)
  ultimately show ?thesis using 1(6) by (intro exI [of _ ?t]) simp
qed

lemma occupied_loop_returns:
  assumes core: "et_core fnv L E t" and "real_idx t idx < length (et_slots t)"
    and "header_name (slot_header (et_slots t ! real_idx t idx)) = header_name header"
  shows "\<exists>r. occupied_loop t header idx = Some r \<and> (case r of
      Inl real \<Rightarrow> real < length (et_slots t) \<and> header_name (slot_header (et_slots t ! real)) = header_name header \<and>
        value_eq (slot_header (et_slots t ! real)) header
    | Inr j \<Rightarrow> real_idx t j < length (et_slots t) \<and> header_name (slot_header (et_slots t ! real_idx t j)) = header_name header \<and>
        slot_next (et_slots t ! real_idx t j) = None)"
  using assms(2,3)
proof (induction "real_idx t idx" arbitrary: idx rule: less_induct)
  case less
  let ?s = "et_slots t ! real_idx t idx"
  have step: "occupied_loop t header idx = (if value_eq (slot_header ?s) header then Some (Inl (real_idx t idx))
      else case slot_next ?s of Some nxt \<Rightarrow> occupied_loop t header nxt | None \<Rightarrow> Some (Inr idx))"
    using less.prems by (subst occupied_loop.simps) (simp add: index_def)
  show ?case
  proof (cases "value_eq (slot_header ?s) header")
    case True
    then show ?thesis using less.prems step by simp
  next
    case False
    show ?thesis
    proof (cases "slot_next ?s")
      case None
      then show ?thesis using less.prems step False by simp
    next
      case (Some nxt)
      then have "real_idx t nxt < real_idx t idx" "header_name (slot_header (et_slots t ! real_idx t nxt)) = header_name (slot_header ?s)"
        using core less.prems(1) unfolding et_core_def chain_ok_def by blast+
      with less.hyps [of nxt] less.prems show ?thesis using step False Some by simp
    qed
  qed
qed

lemma nexts_link:
  assumes "r < length ss" and "slot_next (ss ! r) = None"
  shows "nexts (ss[r := (ss ! r)\<lparr>slot_next := Some i\<rparr>]) = nexts ss + {#i#}"
proof -
  have "nexts ss = nexts (take r ss) + nexts (drop (Suc r) ss)"
    using assms arg_cong [OF id_take_nth_drop [OF assms(1)], of nexts] by simp
  then show ?thesis using assms(1) by (simp add: upd_conv_take_nth_drop)
qed

text \<open>Linking the newest slot of a name, when it is still there, to the slot that is inserted.\<close>

definition link_newest :: "ETable \<Rightarrow> usize \<Rightarrow> ETable" where
  "link_newest t idx = (let r = real_idx t idx in
     if r < length (et_slots t)
     then t\<lparr>et_slots := (et_slots t)[r := (et_slots t ! r)\<lparr>slot_next := Some (0 - et_inserted t)\<rparr>]\<rparr>
     else t)"

lemma link_newest_core:
  assumes core: "et_core fnv (header_len header) E t" and pend: "pending hash (Some j) E t"
    and hash: "hash = hash_header fnv header" and room: "length (et_slots t) < usable_capacity (length (et_indices t))"
    and name: "real_idx t j < length (et_slots t) \<Longrightarrow> header_name (slot_header (et_slots t ! real_idx t j)) = header_name header"
  shows "et_core fnv 0 {#} (link_newest (et_insert t header hash) j)"
    and "et_headers (link_newest (et_insert t header hash) j) = header # et_headers t"
    and "et_size (link_newest (et_insert t header hash) j) = et_size t"
    and "et_max_size (link_newest (et_insert t header hash) j) = et_max_size t"
proof -
  obtain r where r: "r < 2 ^ 63" "j = idx_of t r" "if r < length (et_slots t)
      then E = {#} \<and> slot_next (et_slots t ! r) = None \<and> slot_hash (et_slots t ! r) = hash
      else E = {#future t#} \<and> (\<forall>p. Some p \<in> set (et_indices t) \<longrightarrow> pos_index p = future t \<longrightarrow> pos_hash p = hash)"
    using pend by (auto simp: pending_def)
  have rj: "real_idx t j = r" "real_idx (et_insert t header hash) j = Suc r"
    using r(1,2) real_idx_of [of r t] real_idx_insert [of t j header hash] by simp_all
  have rh: "robin_hood (et_indices t)" using core by (simp add: et_core_def)
  let ?s = "\<lparr>slot_hash = hash, slot_header = header, slot_next = None\<rparr>"
  define ss where "ss = (if r < length (et_slots t) then (et_slots t)[r := (et_slots t ! r)\<lparr>slot_next := Some (future t)\<rparr>] else et_slots t)"
  have eq: "link_newest (et_insert t header hash) j = (et_insert t header hash)\<lparr>et_indices := et_indices t, et_slots := ?s # ss\<rparr>"
    using rj(2) by (simp add: link_newest_def ss_def Let_def insert_future del: diff_0)
  have ss: "length ss = length (et_slots t)" "map slot_header ss = map slot_header (et_slots t)" "map slot_hash ss = map slot_hash (et_slots t)"
    by (auto simp: ss_def map_update list_update_same_conv)
  have refs: "heads (et_indices t) + nexts ss = mset (map (idx_of t) [0..<length (et_slots t)]) + {#future t#}"
    using core_refs [OF core] r(3) nexts_link [of r "et_slots t" "future t"] by (simp add: ss_def ac_simps split: if_splits)
  have chain: "slot_next (et_slots t ! a) = Some i \<or> i = future t \<and> header_name (slot_header (et_slots t ! a)) = header_name header"
    if "a < length ss" "slot_next (ss ! a) = Some i" for a i
    using that name rj(1) by (cases "a = r") (auto simp: ss_def split: if_splits)
  have head: "Some p \<in> set (et_indices t) \<and> pos_index p \<noteq> future t \<or> pos_index p = future t \<and> pos_hash p = hash"
    if "Some p \<in> set (et_indices t)" for p
    using that r(3) future_fresh(1) [of fnv _ t p] core by (cases "r < length (et_slots t)") auto
  show "et_core fnv 0 {#} (link_newest (et_insert t header hash) j)"
    unfolding eq by (rule insert_core [OF core hash room _ rh ss refs chain head]) simp_all
  show "et_headers (link_newest (et_insert t header hash) j) = header # et_headers t"
    using ss(2) by (simp add: eq et_headers_def)
  show "et_size (link_newest (et_insert t header hash) j) = et_size t" "et_max_size (link_newest (et_insert t header hash) j) = et_max_size t"
    by (simp_all add: eq)
qed

lemma shrunk_name:
  assumes "shrunk t t'" and "r < length (et_slots t')"
  shows "slot_header (et_slots t' ! r) = slot_header (et_slots t ! r)"
  using assms by (auto simp: shrunk_def)

lemma index_occupied_inserts:
  assumes core: "et_core fnv 0 {#} t" and hash: "hash = hash_header fnv header"
    and real: "real_idx t idx < length (et_slots t)" "header_name (slot_header (et_slots t ! real_idx t idx)) = header_name header"
    and fits: "header_len header \<le> et_max_size t" and size: "et_size t \<le> et_max_size t"
    and room: "\<not> is_sensitive header \<longrightarrow> length (et_slots t) < usable_capacity (length (et_indices t))"
  shows "\<exists>ix t'. index_occupied t header hash idx statik = Some (ix, t') \<and> et_core fnv 0 {#} t' \<and> et_size t' \<le> et_max_size t' \<and>
    (\<exists>r < length (et_headers t). header_name (et_headers t ! r) = header_name header \<and>
      (value_eq (et_headers t ! r) header \<and> ix = Index_Indexed (r + DYN_OFFSET) header \<and> t' = t \<or>
       is_sensitive header \<and> ix = Index_Name (r + DYN_OFFSET) header \<and> t' = t \<or>
       \<not> is_sensitive header \<and> inserted t header t' \<and>
         ix = Index_InsertedValue (case statik of Some n \<Rightarrow> n | None \<Rightarrow> r + DYN_OFFSET) 0))"
proof -
  obtain r where r: "occupied_loop t header idx = Some r" "case r of
      Inl real \<Rightarrow> real < length (et_slots t) \<and> header_name (slot_header (et_slots t ! real)) = header_name header \<and>
        value_eq (slot_header (et_slots t ! real)) header
    | Inr j \<Rightarrow> real_idx t j < length (et_slots t) \<and> header_name (slot_header (et_slots t ! real_idx t j)) = header_name header \<and>
        slot_next (et_slots t ! real_idx t j) = None"
    using occupied_loop_returns [OF core real] by blast
  show ?thesis
  proof (cases r)
    case (Inl real)
    then show ?thesis using r core size by (auto simp: index_occupied_def et_headers_def)
  next
    case (Inr j)
    let ?r = "real_idx t j" and ?L = "header_len header"
    let ?t0 = "t\<lparr>et_size := et_size t + ?L\<rparr>"
    have j: "?r < length (et_slots t)" "header_name (slot_header (et_slots t ! ?r)) = header_name header" "slot_next (et_slots t ! ?r) = None"
      using r(2) Inr by auto
    show ?thesis
    proof (cases "is_sensitive header")
      case True
      then show ?thesis using r(1) Inr j core size by (auto simp: index_occupied_def et_headers_def)
    next
      case ns: False
      have "slot_hash (et_slots t ! ?r) = hash"
        using core j(1,2) nth_mem [OF j(1)] unfolding et_core_def hash_ok_def hash by (simp add: hash_header_def)
      then have "pending hash (Some j) {#} ?t0"
        using j core_len [OF core] idx_of_real [of t j] by (auto simp: pending_def idx_of_def intro!: exI [of _ ?r])
      from converge_loop_core [OF core_add_len [OF core] this, of False] fits obtain ev t1 E1 where
        1: "converge_loop ?t0 (Some j) False = Some (ev, t1)" "et_core fnv ?L E1 t1" "pending hash (Some j) E1 t1" "shrunk ?t0 t1"
          "et_headers t1 = fit (et_max_size t - ?L) (et_headers t)" "et_size t1 \<le> et_max_size t1"
        by (auto simp: et_headers_def)
      have s1: "length (et_indices t1) = length (et_indices t)" "et_max_size t1 = et_max_size t" "length (et_slots t1) \<le> length (et_slots t)"
        using 1(4) shrunk_len [OF 1(4)] by (auto simp: shrunk_def)
      have name: "header_name (slot_header (et_slots t1 ! real_idx t1 j)) = header_name header" if "real_idx t1 j < length (et_slots t1)"
        using shrunk_name [OF 1(4) that] j(2) 1(4) by (simp add: shrunk_def real_idx_def)
      have room1: "length (et_slots t1) < usable_capacity (length (et_indices t1))" using room ns s1 by simp
      note new = link_newest_core [OF 1(2,3) hash room1 name]
      have "index_occupied t header hash idx statik = Some (Index_InsertedValue (case statik of Some n \<Rightarrow> n | None \<Rightarrow> ?r + DYN_OFFSET) 0,
          link_newest (et_insert t1 header hash) j)"
        using ns r(1) Inr 1(1)
        by (auto simp: index_occupied_def update_size_def converge_def Let_def link_newest_def split: option.split)
      moreover have "inserted t header (link_newest (et_insert t1 header hash) j)"
        using new(2,4) 1(5) fits s1 by (simp add: inserted_def)
      ultimately show ?thesis using new ns j 1(6) s1 by (auto simp: et_headers_def intro!: exI [of _ ?r])
    qed
  qed
qed

section \<open>Growth keeps the invariant\<close>

lemma total_len_ge: "32 * length hs \<le> total_len hs"
proof (induction hs)
  case (Cons h hs)
  have "32 \<le> header_len h" by (cases h) (simp_all add: header_field_len_def)
  then show ?case using Cons by simp
qed simp

lemma grow_core:
  assumes core: "et_core fnv 0 {#} t" and size: "et_size t < 2 ^ 64"
    and full: "length (et_slots t) = usable_capacity (length (et_indices t))"
  shows "\<exists>t'. grow t (length (et_indices t) * 2) = Some t' \<and> et_core fnv 0 {#} t' \<and> et_headers t' = et_headers t \<and>
    et_size t' = et_size t \<and> et_max_size t' = et_max_size t \<and> length (et_slots t') < usable_capacity (length (et_indices t'))"
proof -
  let ?n = "length (et_indices t)"
  obtain k where k: "3 \<le> k" "k \<le> 62" "?n = 2 ^ k" "et_mask t = ?n - 1" using core by (auto simp: et_core_def table_shape_def)
  have "32 * length (et_slots t) < 2 ^ 64" using total_len_ge [of "et_headers t"] core size by (simp add: et_core_def et_headers_def)
  then have "32 * (?n - ?n div 4) < 2 ^ 64" using full by (simp add: usable_capacity_def)
  then have small: "?n < 2 ^ 61" by simp
  have "(2 :: nat) ^ k < 2 ^ 61" using small k(3) by metis
  then have "k < 61" by (rule power_less_imp_less_exp [rotated]) simp
  then have shape: "table_shape (?n * 2) (?n * 2 - 1)" using k(1,3) by (auto simp: table_shape_def intro!: exI [of _ "Suc k"])
  obtain v where v: "cyc (et_indices t) v = None" using core_hole [OF core] by auto
  have rh: "robin_hood (et_indices t)" "table_shape ?n (et_mask t)" using core by (auto simp: et_core_def)
  from grow_regrows [OF rh shape v] obtain zs ys where
    ys: "reinsert_all (?n * 2 - 1) (replicate (?n * 2) None) (drop (first_ideal (et_mask t) 0 (et_indices t)) (et_indices t)) = Some zs"
      "reinsert_all (?n * 2 - 1) zs (take (first_ideal (et_mask t) 0 (et_indices t)) (et_indices t)) = Some ys"
      "length ys = ?n * 2" "robin_hood ys" "filter_mset (\<lambda>x. x \<noteq> None) (mset ys) = filter_mset (\<lambda>x. x \<noteq> None) (mset (et_indices t))"
    by blast
  let ?t = "t\<lparr>et_mask := ?n * 2 - 1, et_indices := ys\<rparr>"
  have hd: "heads ys = heads (et_indices t)" unfolding heads_def ys(5) ..
  have mem: "Some p \<in> set (et_indices t)" if "Some p \<in> set ys" for p
    using that arg_cong [OF ys(5), of "\<lambda>m. Some p \<in># m"] by simp
  have cap: "length (et_slots t) < usable_capacity (length ys)"
    using full k(1,3) ys(3) shape_pos(1) [OF rh(2)] by (simp add: usable_capacity_def)
  have eqs: "real_idx ?t = real_idx t" "idx_of ?t = idx_of t" by (simp_all add: fun_eq_iff real_idx_def idx_of_def)
  have "chain_ok ?t = chain_ok t" "hash_ok fnv ?t = hash_ok fnv t" "et_headers ?t = et_headers t"
    by (simp_all add: chain_ok_def hash_ok_def et_headers_def eqs)
  moreover have "head_ok ?t" using core mem unfolding et_core_def head_ok_def eqs by simp
  ultimately have "et_core fnv 0 {#} ?t" using core hd cap ys(3,4) shape by (simp add: et_core_def eqs)
  moreover have "grow t (?n * 2) = Some ?t" using ys(1,2) by (simp add: grow_def Let_def)
  ultimately show ?thesis using cap by (intro exI [of _ ?t]) (simp add: et_headers_def)
qed

section \<open>The invariant of the table\<close>

definition et_inv :: "(Name \<Rightarrow> u64) \<Rightarrow> ETable \<Rightarrow> bool" where
  "et_inv fnv t \<longleftrightarrow> (et_indices t = [] \<and> et_slots t = [] \<and> et_size t = 0 \<or> et_core fnv 0 {#} t) \<and>
     et_size t \<le> et_max_size t \<and> et_max_size t < 2 ^ 64 \<and> list_all (\<lambda>h. \<not> is_sensitive h) (et_headers t)"

lemma reserve_one_core:
  assumes "et_inv fnv t"
  shows "\<exists>t'. reserve_one t = Some t' \<and> et_core fnv 0 {#} t' \<and> et_headers t' = et_headers t \<and>
    et_size t' = et_size t \<and> et_max_size t' = et_max_size t \<and> length (et_slots t') < usable_capacity (length (et_indices t'))"
proof -
  have sh8: "table_shape 8 7" by (auto simp: table_shape_def intro: exI [of _ 3])
  consider "et_indices t = []" "et_slots t = []" "et_size t = 0" | "et_core fnv 0 {#} t" using assms by (auto simp: et_inv_def)
  then show ?thesis
  proof cases
    case 1
    let ?t = "t\<lparr>et_mask := 7, et_indices := replicate 8 None\<rparr>"
    have "robin_hood (replicate 8 None)" by (simp add: robin_hood_def cyc_def)
    then have "et_core fnv 0 {#} ?t"
      using 1 sh8 by (simp add: et_core_def heads_def chain_ok_def hash_ok_def head_ok_def et_headers_def)
    moreover have "reserve_one t = Some ?t" using 1 by (simp add: reserve_one_def et_capacity_def usable_capacity_def)
    ultimately show ?thesis using 1 by (intro exI [of _ ?t]) (simp add: et_headers_def usable_capacity_def)
  next
    case 2
    show ?thesis
    proof (cases "length (et_slots t) = usable_capacity (length (et_indices t))")
      case True
      have "8 \<le> length (et_indices t)" using 2 shape_pos(1) unfolding et_core_def by blast
      then have "length (et_slots t) \<noteq> 0" using True unfolding usable_capacity_def by linarith
      then have "reserve_one t = grow t (length (et_indices t) * 2)" using True by (simp add: reserve_one_def et_capacity_def)
      then show ?thesis using grow_core [OF 2 _ True] assms by (simp add: et_inv_def)
    next
      case False
      then have "reserve_one t = Some t" by (simp add: reserve_one_def et_capacity_def)
      then show ?thesis using 2 False by (simp add: et_core_def)
    qed
  qed
qed

text \<open>The index space of RFC 7541, section 2.3.3: the static entries, then the dynamic ones, newest first.\<close>

definition entry_at :: "http_ops \<Rightarrow> Header list \<Rightarrow> nat \<Rightarrow> Header option" where
  "entry_at H hs n = (if n \<le> 61 then get_static H n else index hs (n - DYN_OFFSET))"

text \<open>What an index tells of a header, and what becomes of the contents of the table.\<close>

definition unchanged :: "ETable \<Rightarrow> ETable \<Rightarrow> bool" where
  "unchanged t t' \<longleftrightarrow> et_headers t' = et_headers t \<and> et_max_size t' = et_max_size t"

primrec index_spec :: "http_ops \<Rightarrow> Header \<Rightarrow> ETable \<Rightarrow> ETable \<Rightarrow> Index \<Rightarrow> bool" where
  "index_spec H header t t' (Index_Indexed n h) \<longleftrightarrow> h = header \<and> unchanged t t' \<and>
     entry_at H (et_headers t) n = Some (plain_header header)"
| "index_spec H header t t' (Index_Name n h) \<longleftrightarrow> h = header \<and> unchanged t t' \<and>
     (\<exists>e. entry_at H (et_headers t) n = Some e \<and> header_name e = header_name header)"
| "index_spec H header t t' (Index_Inserted i) \<longleftrightarrow> i = 0 \<and> inserted t header t' \<and> \<not> is_sensitive header"
| "index_spec H header t t' (Index_InsertedValue n i) \<longleftrightarrow> i = 0 \<and> inserted t header t' \<and> \<not> is_sensitive header \<and>
     (\<exists>e. entry_at H (et_headers t) n = Some e \<and> header_name e = header_name header)"
| "index_spec H header t t' (Index_NotIndexed h) \<longleftrightarrow> h = header \<and> unchanged t t'"

lemma plain_plain: "\<not> is_sensitive h \<Longrightarrow> plain_header h = h"
  by (cases h) auto

lemma inserted_inv:
  assumes "et_core fnv 0 {#} t'" and "et_size t' \<le> et_max_size t'" and "inserted t header t'" and "et_inv fnv t" and "\<not> is_sensitive header"
  shows "et_inv fnv t'"
  using assms fit_set [of "et_max_size t" "header # et_headers t"]
  by (auto simp: et_inv_def inserted_def list_all_iff simp del: fit.simps)

lemma reserve_step:
  assumes inv: "et_inv fnv t"
  shows "\<exists>t1. (if header_len header + et_size t < et_max_size t \<or> \<not> is_sensitive header then reserve_one t else Some t) = Some t1 \<and>
    (et_indices t1 = [] \<and> t1 = t \<and> is_sensitive header \<or>
      et_core fnv 0 {#} t1 \<and> (\<not> is_sensitive header \<longrightarrow> length (et_slots t1) < usable_capacity (length (et_indices t1)))) \<and>
    unchanged t t1 \<and> et_size t1 = et_size t"
proof (cases "header_len header + et_size t < et_max_size t \<or> \<not> is_sensitive header")
  case True
  then show ?thesis using reserve_one_core [OF inv] by (auto simp: unchanged_def)
next
  case False
  then show ?thesis using inv by (auto simp: unchanged_def et_inv_def)
qed

context http_types
begin

lemma entry_static:
  assumes "index_static H h = Some (n, b)"
  shows "\<exists>e. entry_at H hs n = Some e \<and> header_name e = header_name h \<and> (b \<longrightarrow> e = plain_header h)"
  using index_static_entry [OF assms] by (auto simp: entry_at_def get_static_Some)

lemma Index_new_spec: "unchanged t t' \<Longrightarrow> index_spec H h t t' (Index_new (index_static H h) h)"
proof (cases "index_static H h")
  case (Some p)
  assume u: "unchanged t t'"
  obtain n b where "p = (n, b)" by (cases p)
  then show ?thesis using Some u entry_static [of h n b "et_headers t"] by (cases b) (auto simp: Index_new_def)
qed (simp add: Index_new_def)

lemma index_dynamic_spec:
  assumes inv: "et_inv fnv t" and fits: "header_len header \<le> et_max_size t"
  shows "\<exists>ix t'. index_dynamic fnv t header (index_static H header) = Some (ix, t') \<and> et_inv fnv t' \<and> index_spec H header t t' ix"
proof -
  let ?hash = "hash_header fnv header"
  let ?st = "index_static H header"
  obtain t1 where 1: "(if header_len header + et_size t < et_max_size t \<or> \<not> is_sensitive header then reserve_one t else Some t) = Some t1"
    "et_indices t1 = [] \<and> t1 = t \<and> is_sensitive header \<or> et_core fnv 0 {#} t1 \<and> (\<not> is_sensitive header \<longrightarrow> length (et_slots t1) < usable_capacity (length (et_indices t1)))"
    "unchanged t t1" "et_size t1 = et_size t"
    using reserve_step [OF inv] by blast
  have inv1: "et_inv fnv t1" using inv 1(2-4) by (auto simp: et_inv_def unchanged_def)
  show ?thesis
  proof (cases "et_indices t1 = []")
    case True
    then show ?thesis using 1(1,3) inv1 Index_new_spec by (auto simp: index_dynamic_def)
  next
    case False
    then have c: "et_core fnv 0 {#} t1" "\<not> is_sensitive header \<Longrightarrow> length (et_slots t1) < usable_capacity (length (et_indices t1))"
      using 1(2) by auto
    obtain v where v: "cyc (et_indices t1) v = None" using core_hole [OF c(1)] by auto
    have "table_shape (length (et_indices t1)) (et_mask t1)" using c(1) by (simp add: et_core_def)
    from index_probe_returns [OF this v future_fresh(2) [OF c(1)]] obtain r where
      r: "index_probe t1 header ?hash 0 (desired_pos (et_mask t1) ?hash) = Some r" "probed t1 header ?hash r" by blast
    have fits1: "header_len header \<le> et_max_size t1" "et_size t1 \<le> et_max_size t1" using fits inv1 1(3) by (auto simp: unchanged_def et_inv_def)
    have ins: "inserted t header t'" if "inserted t1 header t'" for t' using that 1(3) by (simp add: inserted_def unchanged_def)
    show ?thesis
    proof (cases r)
      case (Vacant d p)
      show ?thesis
      proof (cases "is_sensitive header")
        case True
        then show ?thesis using 1(1,3) False r Vacant inv1 Index_new_spec [of t t1 header] by (auto simp: index_dynamic_def index_vacant_def)
      next
        case ns: False
        obtain t' where t': "index_vacant t1 header ?hash d p ?st =
            Some (case ?st of Some (n, _) \<Rightarrow> Index_InsertedValue n 0 | None \<Rightarrow> Index_Inserted 0, t')"
          "et_core fnv 0 {#} t'" "et_size t' \<le> et_max_size t'" "inserted t1 header t'"
          using index_vacant_inserts [OF c(1) _ refl ns fits1(1) c(2) [OF ns], of d p ?st] r(2) Vacant by (auto simp: probed_def)
        have "index_spec H header t t' (case ?st of Some (n, _) \<Rightarrow> Index_InsertedValue n 0 | None \<Rightarrow> Index_Inserted 0)"
          using ns ins [OF t'(4)] entry_static [of header _ _ "et_headers t"] by (fastforce split: option.split)
        then show ?thesis using t' 1(1) False r(1) Vacant inserted_inv [OF t'(2-4) inv1 ns] by (simp add: index_dynamic_def)
      qed
    next
      case (Occupied idx)
      then have real: "real_idx t1 idx < length (et_slots t1)" "header_name (slot_header (et_slots t1 ! real_idx t1 idx)) = header_name header"
        using r(2) by (auto simp: probed_def index_Some)
      obtain ix t' k where t': "index_occupied t1 header ?hash idx (map_option fst ?st) = Some (ix, t')" "et_core fnv 0 {#} t'" "et_size t' \<le> et_max_size t'"
        and k: "k < length (et_headers t1)" "header_name (et_headers t1 ! k) = header_name header"
          "value_eq (et_headers t1 ! k) header \<and> ix = Index_Indexed (k + DYN_OFFSET) header \<and> t' = t1 \<or>
           is_sensitive header \<and> ix = Index_Name (k + DYN_OFFSET) header \<and> t' = t1 \<or>
           \<not> is_sensitive header \<and> inserted t1 header t' \<and>
             ix = Index_InsertedValue (case map_option fst ?st of Some n \<Rightarrow> n | None \<Rightarrow> k + DYN_OFFSET) 0"
        using index_occupied_inserts [OF c(1) refl real fits1, of "map_option fst ?st"] c(2) by auto
      have at: "entry_at H (et_headers t) (k + DYN_OFFSET) = Some (et_headers t1 ! k)" "header_name (et_headers t1 ! k) = header_name header"
        "value_eq (et_headers t1 ! k) header \<Longrightarrow> et_headers t1 ! k = plain_header header"
        using k(1,2) 1(3) inv1 value_eq_plain plain_plain
        by (auto simp: entry_at_def DYN_OFFSET_def index_def unchanged_def et_inv_def list_all_length)
      have "index_spec H header t t' ix \<and> et_inv fnv t'"
        using k(3) at inv1 1(3) ins inserted_inv [OF t'(2,3) _ inv1] entry_static [of header _ _ "et_headers t"]
        by (fastforce split: option.split)
      then show ?thesis using t'(1) 1(1) False r(1) Occupied by (simp add: index_dynamic_def)
    qed
  qed
qed

lemma table_index_spec:
  assumes "et_inv fnv t"
  shows "\<exists>ix t'. table_index H fnv t header = Some (ix, t') \<and> et_inv fnv t' \<and> index_spec H header t t' ix"
proof -
  have u: "unchanged t t" by (simp add: unchanged_def)
  have dyn: "\<exists>ix t'. (if header_len header * 4 > et_max_size t * 3 then Some (Index_new (index_static H header) header, t)
      else index_dynamic fnv t header (index_static H header)) = Some (ix, t') \<and> et_inv fnv t' \<and> index_spec H header t t' ix"
    using index_dynamic_spec [OF assms, of header] Index_new_spec [OF u] assms by auto
  have full: "index_spec H header t t (Index_Indexed n header)" if "index_static H header = Some (n, True)" for n
    using entry_static [OF that, of "et_headers t"] u by auto
  show ?thesis
    using dyn full Index_new_spec [OF u, of header] assms
    by (auto simp: table_index_def Let_def split: option.split bool.split)
qed

end

lemma next_power_of_two_is:
  assumes "p = 2 ^ a" and "a \<le> 62" and "n \<le> 2 ^ 62"
  shows "\<exists>k. k \<le> 62 \<and> next_power_of_two p n = 2 ^ k \<and> n \<le> 2 ^ k"
  using assms
proof (induction p n arbitrary: a rule: next_power_of_two.induct)
  case (1 p n)
  show ?case
  proof (cases "n \<le> p \<or> p = 0")
    case True
    then show ?thesis using 1(2,3) by (subst next_power_of_two.simps) auto
  next
    case False
    have "a \<noteq> 62" using False 1(2,4) by auto
    then have "a + 1 \<le> 62" using 1(3) by linarith
    with 1(1) [OF False, of "a + 1"] 1(2,4) False show ?thesis by (subst next_power_of_two.simps) simp
  qed
qed

lemma ETable_new_inv:
  assumes "max_size < 2 ^ 64" and "to_raw_capacity cap \<le> 2 ^ 62"
  shows "et_inv fnv (ETable_new max_size cap) \<and> et_headers (ETable_new max_size cap) = []"
proof -
  obtain k where k: "k \<le> 62" "next_power_of_two 1 (to_raw_capacity cap) = 2 ^ k"
    using next_power_of_two_is [of 1 0 "to_raw_capacity cap"] assms(2) by auto
  have "(2 :: nat) ^ k \<le> 2 ^ 3 \<longleftrightarrow> k \<le> 3" by (rule power_increasing_iff) simp
  then have "max (2 ^ k) (2 ^ 3) = (2 :: nat) ^ max k 3" by (auto simp: max_def)
  then have "max (next_power_of_two 1 (to_raw_capacity cap)) 8 = 2 ^ max k 3" using k(2) by simp
  moreover have "robin_hood (replicate n None)" if "0 < n" for n using that by (simp add: robin_hood_def cyc_def)
  moreover have "table_shape (2 ^ max k 3) (2 ^ max k 3 - 1)" using k(1) by (auto simp: table_shape_def intro!: exI [of _ "max k 3"])
  ultimately show ?thesis using assms(1)
    by (simp add: ETable_new_def Let_def et_inv_def et_core_def heads_def chain_ok_def hash_ok_def head_ok_def et_headers_def)
qed

lemma heads_cleared [simp]: "heads (map (\<lambda>_. None) xs) = {#}"
  by (induction xs) (simp_all add: heads_def)

lemma fit_zero [simp]: "fit 0 hs = []"
  using header_len_pos by (cases hs) auto

text \<open>The maximum size plays no part in the invariant's core.\<close>

lemma core_max [simp]: "et_core fnv L E (t\<lparr>et_max_size := n\<rparr>) = et_core fnv L E t"
proof -
  let ?t = "t\<lparr>et_max_size := n\<rparr>"
  have eqs: "real_idx ?t = real_idx t" "idx_of ?t = idx_of t" by (simp_all add: fun_eq_iff real_idx_def idx_of_def)
  then have "chain_ok ?t = chain_ok t" "hash_ok fnv ?t = hash_ok fnv t" "head_ok ?t = head_ok t" "et_headers ?t = et_headers t"
    by (simp_all add: chain_ok_def hash_ok_def head_ok_def et_headers_def)
  then show ?thesis by (simp add: et_core_def eqs)
qed

lemma resize_fit:
  assumes inv: "et_inv fnv t" and n: "n < 2 ^ 64"
  shows "\<exists>t'. resize t n = Some t' \<and> et_inv fnv t' \<and> et_headers t' = fit n (et_headers t) \<and> et_max_size t' = n"
proof (cases "n = 0")
  case True
  let ?t = "t\<lparr>et_max_size := 0, et_size := 0, et_indices := map (\<lambda>_. None) (et_indices t), et_slots := [], et_inserted := 0\<rparr>"
  have "robin_hood (map (\<lambda>_. None) (et_indices t))" if "et_indices t \<noteq> []" using that by (simp add: robin_hood_def cyc_def)
  moreover have "et_indices t = [] \<or> table_shape (length (et_indices t)) (et_mask t)" using inv by (auto simp: et_inv_def et_core_def)
  ultimately have "et_inv fnv ?t"
    by (auto simp: et_inv_def et_core_def chain_ok_def hash_ok_def head_ok_def et_headers_def)
  then show ?thesis using True by (simp add: resize_def et_headers_def)
next
  case False
  let ?t = "t\<lparr>et_max_size := n\<rparr>"
  consider "et_indices t = []" "et_slots t = []" "et_size t = 0" | "et_core fnv 0 {#} t" using inv by (auto simp: et_inv_def)
  then show ?thesis
  proof cases
    case 1
    then have "resize t n = Some ?t" using False by (simp add: resize_def converge_def converge_loop.simps)
    then show ?thesis using 1 n by (simp add: et_inv_def et_headers_def)
  next
    case 2
    obtain ev t' where "converge_loop ?t None False = Some (ev, t')" "et_core fnv 0 {#} t'" "shrunk ?t t'"
      "et_headers t' = fit n (et_headers t)" "et_size t' \<le> et_max_size t'"
      using converge_loop_core [of fnv 0 "{#}" ?t undefined None False] 2 by (auto simp: pending_def et_headers_def)
    moreover from this have "et_max_size t' = n" by (simp add: shrunk_def)
    moreover have "list_all (\<lambda>h. \<not> is_sensitive h) (fit n (et_headers t))"
      using inv fit_set [of n "et_headers t"] by (auto simp: et_inv_def list_all_iff)
    ultimately show ?thesis using False n by (simp add: resize_def converge_def et_inv_def)
  qed
qed

section \<open>Properties of the encoder's table\<close>

text \<open>C3: Indexing a header in the encoder's table never panics and never probes forever, keeps the table's
  invariant (the Robin Hood order of its hash table, one reference to every entry, the size within the
  maximum), and answers correctly: an index that is given is that of an entry of the static or dynamic table
  that is the header, or has its name; a header that is inserted becomes the first entry, and of the older
  ones exactly those that still fit remain.\<close>

theorem hpack_index_correct:
  assumes "http_types H" and "et_inv fnv t"
  shows "\<exists>ix t'. table_index H fnv t header = Some (ix, t') \<and> et_inv fnv t' \<and> index_spec H header t t' ix"
  using http_types.table_index_spec [OF assms] .

theorem hpack_index_correct_witness:
  "\<exists>t'. table_index std_http (\<lambda>_. 5) (ETable_new 4096 0) (Field [97] \<lparr>hv_bytes = [98], hv_sensitive = False\<rparr>) = Some (Index_Inserted 0, t') \<and>
    et_headers t' = [Field [97] \<lparr>hv_bytes = [98], hv_sensitive = False\<rparr>]"
proof -
  let ?h = "Field [97] \<lparr>hv_bytes = [98], hv_sensitive = False\<rparr>"
  have i: "et_inv (\<lambda>_. 5) (ETable_new 4096 0)" "et_headers (ETable_new 4096 0) = []"
    using ETable_new_inv [of 4096 0 "\<lambda>_. 5"] by (simp_all add: to_raw_capacity_def)
  obtain ix t' where t': "table_index std_http (\<lambda>_. 5) (ETable_new 4096 0) ?h = Some (ix, t')" "index_spec std_http ?h (ETable_new 4096 0) t' ix"
    using hpack_index_correct [OF std_http.http_types_axioms i(1), of ?h] by blast
  have "map_option fst (table_index std_http (\<lambda>_. 5) (ETable_new 4096 0) ?h) = Some (Index_Inserted 0)" by code_simp
  then have "ix = Index_Inserted 0" using t'(1) by simp
  then show ?thesis using t' i(2) by (auto simp: inserted_def ETable_new_def header_field_len_def)
qed

text \<open>C32: Resizing the encoder's table (the size updates of the encoder) never panics, keeps the invariant and
  leaves exactly the entries that fit; the decoder, told the same size, keeps the same entries, so the two
  tables stay equal.\<close>

theorem hpack_resize_in_step:
  assumes "et_inv fnv t" and "n < 2 ^ 64" and "dtable_inv d" and "dt_entries d = et_headers t"
  shows "\<exists>t' d'. resize t n = Some t' \<and> et_inv fnv t' \<and> set_max_size d n = Some d' \<and> dtable_inv d' \<and>
    et_headers t' = fit n (et_headers t) \<and> dt_entries d' = et_headers t' \<and> dt_max_size d' = et_max_size t' \<and> et_max_size t' = n"
  using resize_fit [OF assms(1,2)] set_max_size_fit [OF assms(3), of n] assms(4) fit_le [of n "et_headers t"]
  by (auto simp: dtable_inv_def)

theorem hpack_resize_in_step_witness:
  "\<exists>t' d'. resize (ETable_new 4096 0) 100 = Some t' \<and> set_max_size (DTable_new 4096) 100 = Some d' \<and> dt_entries d' = et_headers t' \<and> et_max_size t' = 100"
  using hpack_resize_in_step [of "\<lambda>_. 5" "ETable_new 4096 0" 100 "DTable_new 4096"] ETable_new_inv [of 4096 0 "\<lambda>_. 5"]
  by (auto simp: to_raw_capacity_def DTable_new_def dtable_inv_def)

end
