(* ===== verification/Hpack_Encoder.thy ===== *)
theory Hpack_Encoder
  imports Hpack_Encode Hpack_Table_Inv
begin

unbundle bit_operations_syntax

text \<open>
  The HPACK encoder of src/http/h2/hpack/encoder.rs: header lists go through the table and are written as
  indexed fields, literals and size updates, until the destination is full.  Composed with the decoder it
  is a round trip that keeps the two dynamic tables equal.
\<close>

section \<open>The encoder\<close>

datatype SizeUpdate = SU_One nat | SU_Two nat nat

record Encoder =
  enc_table :: ETable
  size_update :: "SizeUpdate option"

record EncodeState =
  es_index :: Index
  es_value :: "HeaderValue option"

datatype Encode = Encode_Full | Encode_Partial EncodeState

definition Encoder_new :: "nat \<Rightarrow> nat \<Rightarrow> Encoder" where
  "Encoder_new max_size capacity = \<lparr>enc_table = ETable_new max_size capacity, size_update = None\<rparr>"

definition update_max_size :: "Encoder \<Rightarrow> nat \<Rightarrow> Encoder" where
  "update_max_size e val =
     (case size_update e of
        Some (SU_One old) \<Rightarrow>
          if val > old then
            if old > et_max_size (enc_table e) then e\<lparr>size_update := Some (SU_One val)\<rparr>
            else e\<lparr>size_update := Some (SU_Two old val)\<rparr>
          else e\<lparr>size_update := Some (SU_One val)\<rparr>
      | Some (SU_Two mn _) \<Rightarrow>
          if val < mn then e\<lparr>size_update := Some (SU_One val)\<rparr>
          else e\<lparr>size_update := Some (SU_Two mn val)\<rparr>
      | None \<Rightarrow>
          if val \<noteq> et_max_size (enc_table e) then e\<lparr>size_update := Some (SU_One val)\<rparr> else e)"

definition encode_size_updates :: "Encoder \<Rightarrow> DstBuf \<Rightarrow> ((unit, EncoderError) result \<times> Encoder \<times> DstBuf) option" where
  "encode_size_updates e dst =
     (case size_update e of
        Some (SU_One val) \<Rightarrow> do {
          t \<leftarrow> resize (enc_table e) val;
          (r, dst) \<leftarrow> encode_size_update val dst;
          Some (r, \<lparr>enc_table = t, size_update = None\<rparr>, dst)
        }
      | Some (SU_Two mn mx) \<Rightarrow> do {
          t \<leftarrow> resize (enc_table e) mn;
          t \<leftarrow> resize t mx;
          (r, dst) \<leftarrow> enc_then (encode_size_update mn dst) (encode_size_update mx);
          Some (r, \<lparr>enc_table = t, size_update = None\<rparr>, dst)
        }
      | None \<Rightarrow> Some (Ok (), e, dst))"

definition encode_header :: "http_ops \<Rightarrow> ETable \<Rightarrow> Index \<Rightarrow> DstBuf \<Rightarrow> encoding" where
  "encode_header H t ix dst =
     (case ix of
        Index_Indexed idx _ \<Rightarrow> encode_int idx 7 0x80 dst
      | Index_Name idx _ \<Rightarrow> do {
          header \<leftarrow> resolve t ix;
          encode_not_indexed idx (value_slice H header) (is_sensitive header) dst
        }
      | Index_Inserted _ \<Rightarrow> do {
          header \<leftarrow> resolve t ix;
          if is_sensitive header then None
          else if remaining_mut dst = 0 then Some (Err BufferOverflow, dst)
          else do {
            dst \<leftarrow> dst_put_u8 0x40 dst;
            enc_then (encode_str (name_as_slice (header_name header)) dst) (encode_str (value_slice H header))
          }
        }
      | Index_InsertedValue idx _ \<Rightarrow> do {
          header \<leftarrow> resolve t ix;
          if is_sensitive header then None
          else enc_then (encode_int idx 6 0x40 dst) (encode_str (value_slice H header))
        }
      | Index_NotIndexed _ \<Rightarrow> do {
          header \<leftarrow> resolve t ix;
          encode_not_indexed2 (name_as_slice (header_name header)) (value_slice H header) (is_sensitive header) dst
        })"

definition encode_header_without_name :: "ETable \<Rightarrow> Index \<Rightarrow> HeaderValue \<Rightarrow> DstBuf \<Rightarrow> encoding" where
  "encode_header_without_name t ix val dst =
     (case ix of
        Index_NotIndexed _ \<Rightarrow> do {
          header \<leftarrow> resolve t ix;
          encode_not_indexed2 (name_as_slice (header_name header)) (hv_bytes val) (hv_sensitive val) dst
        }
      | _ \<Rightarrow> do {
          idx \<leftarrow> resolve_idx ix;
          encode_not_indexed idx (hv_bytes val) (hv_sensitive val) dst
        })"

text \<open>The loop over the headers; what the iterator has not yielded yet is returned as well.\<close>

primrec encode_headers :: "http_ops \<Rightarrow> (Name \<Rightarrow> u64) \<Rightarrow> bytes option GHeader list \<Rightarrow> ETable \<Rightarrow> Index option \<Rightarrow> DstBuf \<Rightarrow>
    (Encode \<times> ETable \<times> DstBuf \<times> bytes option GHeader list) option" where
  "encode_headers H fnv [] t last_index dst = Some (Encode_Full, t, dst, [])"
| "encode_headers H fnv (h # hs) t last_index dst =
     (let pos = position dst in
      case reify h of
        Ok header \<Rightarrow> do {
          (ix, t) \<leftarrow> table_index H fnv t header;
          (r, dst) \<leftarrow> encode_header H t ix dst;
          (case r of
             Err _ \<Rightarrow> Some (Encode_Partial \<lparr>es_index = ix, es_value = None\<rparr>, t, rewind dst pos, hs)
           | Ok _ \<Rightarrow> encode_headers H fnv hs t (Some ix) dst)
        }
      | Err val \<Rightarrow>
          (case last_index of
             None \<Rightarrow> None
           | Some ix \<Rightarrow> do {
               (r, dst) \<leftarrow> encode_header_without_name t ix val dst;
               (case r of
                  Err _ \<Rightarrow> Some (Encode_Partial \<lparr>es_index = ix, es_value = Some val\<rparr>, t, rewind dst pos, hs)
                | Ok _ \<Rightarrow> encode_headers H fnv hs t last_index dst)
             }))"

definition Encoder_encode :: "http_ops \<Rightarrow> (Name \<Rightarrow> u64) \<Rightarrow> Encoder \<Rightarrow> EncodeState option \<Rightarrow> bytes option GHeader list \<Rightarrow> DstBuf \<Rightarrow>
    (Encode \<times> Encoder \<times> DstBuf \<times> bytes option GHeader list) option" where
  "Encoder_encode H fnv e resume headers dst = do {
     (r, e, dst) \<leftarrow> encode_size_updates e dst;
     (case r of
        Err _ \<Rightarrow> None
      | Ok _ \<Rightarrow>
          let run = (\<lambda>last_index dst. map_option (\<lambda>(ret, t, dst, hs). (ret, e\<lparr>enc_table := t\<rparr>, dst, hs))
                       (encode_headers H fnv headers (enc_table e) last_index dst))
          in case resume of
               None \<Rightarrow> run None dst
             | Some st \<Rightarrow>
                 let pos = position dst in do {
                   (res, dst) \<leftarrow> (case es_value st of
                      Some val \<Rightarrow> encode_header_without_name (enc_table e) (es_index st) val dst
                    | None \<Rightarrow> encode_header H (enc_table e) (es_index st) dst);
                   (case res of
                      Err _ \<Rightarrow> Some (Encode_Partial st, e, rewind dst pos, headers)
                    | Ok _ \<Rightarrow> run (Some (es_index st)) dst)
                 })
   }"

section \<open>The representations read back\<close>

text \<open>The first byte of an integer tells the representation it begins.\<close>

lemma loads_all:
  "list_all (\<lambda>k. Representation_load (0x80 OR of_nat k) = Ok Indexed) [0..<128]"
  "list_all (\<lambda>k. Representation_load (0x40 OR of_nat k) = Ok LiteralWithIndexing) [0..<64]"
  "list_all (\<lambda>k. Representation_load (of_nat k) = Ok LiteralWithoutIndexing) [0..<16]"
  "list_all (\<lambda>k. Representation_load (0x10 OR of_nat k) = Ok LiteralNeverIndexed) [0..<16]"
  "list_all (\<lambda>k. Representation_load (0x20 OR of_nat k) = Ok Representation.SizeUpdate) [0..<32]"
  by code_simp+

lemma hd_int_bytes: "\<exists>k < 2 ^ n. int_bytes v n first = (first OR of_nat k) # tl (int_bytes v n first)"
  by (cases "v < 2 ^ n - 1") (auto simp: int_bytes_def intro: exI [of _ v] exI [of _ "2 ^ n - 1"])

lemma load_int_bytes:
  "Representation_load (hd (int_bytes v 7 0x80)) = Ok Indexed"
  "Representation_load (hd (int_bytes v 6 0x40)) = Ok LiteralWithIndexing"
  "Representation_load (hd (int_bytes v 4 0)) = Ok LiteralWithoutIndexing"
  "Representation_load (hd (int_bytes v 4 0x10)) = Ok LiteralNeverIndexed"
  "Representation_load (hd (int_bytes v 5 0x20)) = Ok Representation.SizeUpdate"
  using loads_all hd_int_bytes [of 7 v "0x80"] hd_int_bytes [of 6 v "0x40"] hd_int_bytes [of 4 v 0] hd_int_bytes [of 4 v "0x10"]
    hd_int_bytes [of 5 v "0x20"]
  unfolding list_all_iff by (auto dest!: arg_cong [where f = hd])

text \<open>Reading a block of bytes: the header it gives and the decoder afterwards, whatever follows.\<close>

definition decodes :: "http_ops \<Rightarrow> Decoder \<Rightarrow> bytes \<Rightarrow> Header \<Rightarrow> Decoder \<Rightarrow> bool" where
  "decodes H d bs h d' \<longleftrightarrow> bs \<noteq> [] \<and> (\<forall>can_resize c rest. cur_bytes c = bs @ rest \<longrightarrow>
     decode_block H can_resize (hd bs) d c = Some (Ok (Some h, False), d', \<lparr>cur_inner = rest, cur_pos = 0\<rparr>))"

lemma decode_loop_block:
  assumes "decodes H d bs h d'" and "cur_bytes c = bs @ rest"
  shows "decode_loop H can_resize d c =
    map_option (\<lambda>(r, d, c, hs). (r, d, c, h # hs)) (decode_loop H False d' \<lparr>cur_inner = rest, cur_pos = 0\<rparr>)"
proof -
  have "peek_u8 c = Some (hd bs)" using assms by (cases bs) (auto simp: peek_u8_def decodes_def)
  then show ?thesis using assms by (subst decode_loop.simps) (simp add: decodes_def)
qed

definition SMALL :: nat where
  "SMALL = 0x0fffffff"

lemma int_bytes_ne: "int_bytes v n first \<noteq> []"
  by (simp add: int_bytes_def)

lemma try_int_bytes:
  assumes "cur_bytes c = int_bytes v n first @ rest" and "1 \<le> n" and "n \<le> 8" and "first AND mask n = 0" and "v \<le> SMALL"
  shows "\<exists>c'. try_int d c n = Some (Ok v, d, c') \<and> cur_bytes c' = rest \<and> cur_ok c'"
proof -
  have "v \<le> 2 ^ n - 1 + 0x0fffffff" using assms(5) unfolding SMALL_def by (rule order.trans) (rule le_add2)
  from cur_decode_int_bytes [OF assms(1-4) this] show ?thesis by (auto simp: try_int_def)
qed

lemma consume_ok: "cur_ok c \<Longrightarrow> consume c = Some \<lparr>cur_inner = cur_bytes c, cur_pos = 0\<rparr>"
  by (simp add: consume_Some)

lemma decodes_indexed:
  assumes "dtable_get H (table d) n = Some (Ok e)" and "n \<le> SMALL"
  shows "decodes H d (int_bytes n 7 0x80) e d"
  unfolding decodes_def
proof (intro conjI allI impI int_bytes_ne)
  fix cr c rest assume c: "cur_bytes c = int_bytes n 7 0x80 @ rest"
  obtain c' where c': "try_int d c 7 = Some (Ok n, d, c')" "cur_bytes c' = rest" "cur_ok c'"
    using try_int_bytes [OF c _ _ _ assms(2)] by (auto simp: mask_eq_exp_minus_1)
  show "decode_block H cr (hd (int_bytes n 7 0x80)) d c = Some (Ok (Some e, False), d, \<lparr>cur_inner = rest, cur_pos = 0\<rparr>)"
    using c' assms(1) by (simp add: decode_block_def load_int_bytes decode_indexed_def try_then_def consume_ok)
qed

lemma literal_named:
  assumes "cur_bytes c = int_bytes n p first @ bs @ rest" and "p = (if idx then 6 else 4)" and "first AND mask p = 0"
    and "n \<noteq> 0" and "n \<le> SMALL" and "dtable_get H (table d) n = Some (Ok e)" and "str_bytes val bs" and "huff_size val \<le> MAX_STR" and "dec_buffer d = []"
  shows "\<exists>c'. decode_literal H d c idx = Some (into_entry H (header_name e) val, d, c') \<and> cur_bytes c' = rest \<and> cur_ok c'"
proof -
  have p: "1 \<le> p" "p \<le> 8" using assms(2) by auto
  obtain c1 where c1: "try_int d c p = Some (Ok n, d, c1)" "cur_bytes c1 = bs @ rest"
    using try_int_bytes [OF assms(1) p assms(3,5)] by blast
  obtain c2 where "decode_string d c1 = Some (Ok val, d, c2)" "cur_bytes c2 = rest" "cur_ok c2"
    using decode_string_bytes [OF c1(2) assms(7-9)] by blast
  then show ?thesis using c1 assms(2,4,6) by (simp add: decode_literal_def try_then_def)
qed

lemma literal_new:
  assumes "cur_bytes c = int_bytes 0 p first @ ns @ bs @ rest" and "p = (if idx then 6 else 4)" and "first AND mask p = 0"
    and "str_bytes name ns" and "huff_size name \<le> MAX_STR" and "str_bytes val bs" and "huff_size val \<le> MAX_STR" and "dec_buffer d = []"
  shows "\<exists>c'. decode_literal H d c idx = Some (Header_new H name val, d, c') \<and> cur_bytes c' = rest \<and> cur_ok c'"
proof -
  have p: "1 \<le> p" "p \<le> 8" using assms(2) by auto
  obtain c1 where c1: "try_int d c p = Some (Ok 0, d, c1)" "cur_bytes c1 = ns @ bs @ rest"
    using try_int_bytes [OF assms(1) p assms(3)] by (auto simp: SMALL_def)
  obtain c2 where c2: "decode_string d c1 = Some (Ok name, d, c2)" "cur_bytes c2 = bs @ rest"
    using decode_string_bytes [OF c1(2) assms(4,5,8)] by blast
  obtain c3 where "decode_string d c2 = Some (Ok val, d, c3)" "cur_bytes c3 = rest" "cur_ok c3"
    using decode_string_bytes [OF c2(2) assms(6-8)] by blast
  then show ?thesis using c1 c2 assms(2) by (simp add: decode_literal_def try_then_def)
qed

text \<open>The three literal representations: their first byte, and the decoder they leave.\<close>

definition literal_kind :: "bool \<Rightarrow> nat \<Rightarrow> u8 \<Rightarrow> bool" where
  "literal_kind idx p first \<longleftrightarrow> idx \<and> p = 6 \<and> first = 0x40 \<or> \<not> idx \<and> p = 4 \<and> (first = 0 \<or> first = 0x10)"

definition after_literal :: "bool \<Rightarrow> Decoder \<Rightarrow> Header \<Rightarrow> Decoder" where
  "after_literal idx d h = (if idx then d\<lparr>table := dtable_insert (table d) h\<rparr> else d)"

lemma literal_kind_mask: "literal_kind idx p first \<Longrightarrow> p = (if idx then 6 else 4) \<and> first AND mask p = 0"
  by (auto simp: literal_kind_def mask_eq_exp_minus_1)

lemma block_literal:
  assumes "literal_kind idx p first" and "decode_literal H d c idx = Some (Ok h, d, c')" and "cur_bytes c' = rest" and "cur_ok c'"
  shows "decode_block H cr (hd (int_bytes n p first)) d c = Some (Ok (Some h, False), after_literal idx d h, \<lparr>cur_inner = rest, cur_pos = 0\<rparr>)"
  using assms by (auto simp: literal_kind_def decode_block_def load_int_bytes try_then_def consume_ok after_literal_def)

lemma decodes_named:
  assumes k: "literal_kind idx p first" and "n \<noteq> 0" and "n \<le> SMALL" and "dtable_get H (table d) n = Some (Ok e)"
    and "str_bytes val bs" and "huff_size val \<le> MAX_STR" and "dec_buffer d = []" and "into_entry H (header_name e) val = Ok h"
  shows "decodes H d (int_bytes n p first @ bs) h (after_literal idx d h)"
  unfolding decodes_def
proof (intro conjI allI impI)
  fix cr c rest assume c: "cur_bytes c = (int_bytes n p first @ bs) @ rest"
  obtain c' where "decode_literal H d c idx = Some (Ok h, d, c')" "cur_bytes c' = rest" "cur_ok c'"
    using literal_named [of c n p first bs rest idx H d e val] c literal_kind_mask [OF k] assms(2-) by auto
  from block_literal [OF k this] show "decode_block H cr (hd (int_bytes n p first @ bs)) d c =
      Some (Ok (Some h, False), after_literal idx d h, \<lparr>cur_inner = rest, cur_pos = 0\<rparr>)"
    by (simp add: int_bytes_ne)
qed (simp add: int_bytes_ne)

lemma decodes_new:
  assumes k: "literal_kind idx p first" and "str_bytes name ns" and "huff_size name \<le> MAX_STR" and "str_bytes val bs"
    and "huff_size val \<le> MAX_STR" and "dec_buffer d = []" and "Header_new H name val = Ok h"
  shows "decodes H d (first # ns @ bs) h (after_literal idx d h)"
proof -
  have eq: "int_bytes 0 p first = [first]" using k by (auto simp: literal_kind_def int_bytes_def)
  show ?thesis
    unfolding decodes_def
  proof (intro conjI allI impI)
    fix cr c rest assume c: "cur_bytes c = (first # ns @ bs) @ rest"
    obtain c' where "decode_literal H d c idx = Some (Ok h, d, c')" "cur_bytes c' = rest" "cur_ok c'"
      using literal_new [of c p first ns bs rest idx name val d H] c eq literal_kind_mask [OF k] assms(2-) by auto
    from block_literal [OF k this, of cr 0] show "decode_block H cr (hd (first # ns @ bs)) d c =
        Some (Ok (Some h, False), after_literal idx d h, \<lparr>cur_inner = rest, cur_pos = 0\<rparr>)"
      by (simp add: eq)
  qed simp
qed

section \<open>What is written\<close>

lemma int_writes:
  assumes "5 \<le> remaining_mut dst" and "v \<le> SMALL"
  shows "encode_int v n first dst = Some (Ok (), dst_add dst (int_bytes v n first))" and "length (int_bytes v n first) \<le> 5"
proof -
  have v: "v \<le> 2 ^ n - 1 + 0x0fffffff" using assms(2) unfolding SMALL_def by (rule order.trans) (rule le_add2)
  show l: "length (int_bytes v n first) \<le> 5" by (rule length_int_bytes [OF v])
  show "encode_int v n first dst = Some (Ok (), dst_add dst (int_bytes v n first))"
    using encode_int_bytes [OF _ v, of first dst] l assms(1) by (simp add: dst_add_def)
qed

lemma str_bytes_len: "str_bytes val bs \<Longrightarrow> length bs \<le> str_room val"
  by (auto simp: str_bytes_def str_room_def int_bytes_def split: if_splits)

lemma str_writes:
  assumes "length us + str_room val \<le> remaining_mut dst" and "huff_size val \<le> MAX_STR"
  shows "\<exists>bs. encode_str val (dst_add dst us) = Some (Ok (), dst_add dst (us @ bs)) \<and> str_bytes val bs \<and> length bs \<le> str_room val"
proof -
  have "str_room val \<le> remaining_mut (dst_add dst us)" using assms(1) by simp
  from encode_str_writes [OF this assms(2)] show ?thesis using str_bytes_len by auto
qed

lemma int_str_writes:
  assumes "5 + str_room val \<le> remaining_mut dst" and "n \<le> SMALL" and "huff_size val \<le> MAX_STR"
  shows "\<exists>bs. enc_then (encode_int n p first dst) (encode_str val) = Some (Ok (), dst_add dst (int_bytes n p first @ bs)) \<and>
    str_bytes val bs \<and> length (int_bytes n p first @ bs) \<le> 5 + str_room val"
proof -
  have "5 \<le> remaining_mut dst" using assms(1) by simp
  note i = int_writes [OF this assms(2), of p first]
  have "length (int_bytes n p first) + str_room val \<le> remaining_mut dst" using i(2) assms(1) by simp
  from str_writes [OF this assms(3)] obtain bs where
    "encode_str val (dst_add dst (int_bytes n p first)) = Some (Ok (), dst_add dst (int_bytes n p first @ bs))" "str_bytes val bs" "length bs \<le> str_room val"
    by blast
  then show ?thesis using i by (intro exI [of _ bs]) (simp add: enc_then_def)
qed

lemma new_writes:
  assumes "1 + str_room name + str_room val \<le> remaining_mut dst" and "huff_size name \<le> MAX_STR" and "huff_size val \<le> MAX_STR"
  shows "\<exists>ns bs. dst_put_u8 first dst \<bind> (\<lambda>dst. enc_then (encode_str name dst) (encode_str val)) = Some (Ok (), dst_add dst (first # ns @ bs)) \<and>
    str_bytes name ns \<and> str_bytes val bs \<and> length (first # ns @ bs) \<le> 1 + str_room name + str_room val"
proof -
  have "length [first] + str_room name \<le> remaining_mut dst" using assms(1) by simp
  from str_writes [OF this assms(2)] obtain ns where
    n: "encode_str name (dst_add dst [first]) = Some (Ok (), dst_add dst (first # ns))" "str_bytes name ns" "length ns \<le> str_room name" by auto
  have "length (first # ns) + str_room val \<le> remaining_mut dst" using n(3) assms(1) by simp
  from str_writes [OF this assms(3)] obtain bs where
    "encode_str val (dst_add dst (first # ns)) = Some (Ok (), dst_add dst (first # ns @ bs))" "str_bytes val bs" "length bs \<le> str_room val" by auto
  then show ?thesis using n assms(1) by (intro exI [of _ ns] exI [of _ bs]) (simp add: dst_put_u8_add enc_then_def)
qed

section \<open>One header\<close>

definition in_sync :: "ETable \<Rightarrow> Decoder \<Rightarrow> bool" where
  "in_sync t d \<longleftrightarrow> dt_entries (table d) = et_headers t \<and> dt_max_size (table d) = et_max_size t \<and> dtable_inv (table d) \<and> dec_buffer d = []"

text \<open>The strings of a header are short enough to be written, and the room it takes at most.\<close>

definition writable :: "http_ops \<Rightarrow> Header \<Rightarrow> bool" where
  "writable H h \<longleftrightarrow> valid_header H h \<and> huff_size (name_as_slice (header_name h)) \<le> MAX_STR \<and> huff_size (value_slice H h) \<le> MAX_STR"

definition header_room :: "http_ops \<Rightarrow> Header \<Rightarrow> nat" where
  "header_room H h = 5 + str_room (name_as_slice (header_name h)) + str_room (value_slice H h)"

lemma in_sync_get:
  assumes "in_sync t d" and "entry_at H (et_headers t) n = Some e"
  shows "dtable_get H (table d) n = Some (Ok e)" and "n \<noteq> 0"
proof -
  show "n \<noteq> 0" using assms(2) by (auto simp: entry_at_def get_static_Some split: if_splits)
  then show "dtable_get H (table d) n = Some (Ok e)"
    using assms by (auto simp: entry_at_def dtable_get_def in_sync_def DYN_OFFSET_def split: if_splits)
qed

lemma entry_at_small:
  assumes "et_inv fnv t" and "et_max_size t \<le> 2 ^ 32" and "entry_at H (et_headers t) n = Some e"
  shows "n \<le> SMALL"
proof -
  have "total_len (et_headers t) \<le> 2 ^ 32" using assms(1,2) by (auto simp: et_inv_def et_core_def et_headers_def)
  then have "32 * length (et_headers t) \<le> 2 ^ 32" using total_len_ge order.trans by blast
  then have "length (et_headers t) \<le> 2 ^ 27" by simp
  moreover have "n \<le> 61 \<or> n - DYN_OFFSET < length (et_headers t)" using assms(3) by (auto simp: entry_at_def index_Some split: if_splits)
  ultimately show ?thesis by (auto simp: SMALL_def DYN_OFFSET_def)
qed

lemma inserted_first:
  assumes "inserted t header t'"
  shows "index (et_slots t') 0 \<noteq> None" and "map_option slot_header (index (et_slots t') 0) = Some header" and "index (et_headers t') 0 = Some header"
  using assms by (cases "et_slots t'"; auto simp: inserted_def et_headers_def index_def)+

lemma in_sync_insert:
  assumes "in_sync t d" and "inserted t h t'"
  shows "in_sync t' (after_literal True d h)"
  using assms fit_le [of "et_max_size t" "h # et_headers t"]
  by (auto simp: in_sync_def inserted_def after_literal_def insert_fit dtable_inv_def simp del: fit.simps)

text \<open>What the index of the last header still tells of its name.\<close>

definition last_ok :: "http_ops \<Rightarrow> ETable \<Rightarrow> Index \<Rightarrow> Name \<Rightarrow> bool" where
  "last_ok H t ix nm \<longleftrightarrow> (case ix of
     Index_NotIndexed h \<Rightarrow> header_name h = nm
   | _ \<Rightarrow> \<exists>n e. resolve_idx ix = Some n \<and> entry_at H (et_headers t) n = Some e \<and> header_name e = nm)"

lemma index_spec_last: "index_spec H header t t' ix \<Longrightarrow> last_ok H t' ix (header_name header)"
  using inserted_first(3) [of t header t'] by (cases ix) (auto simp: last_ok_def unchanged_def entry_at_def DYN_OFFSET_def)

definition header_coded :: "http_ops \<Rightarrow> (DstBuf \<Rightarrow> encoding) \<Rightarrow> Header \<Rightarrow> DstBuf \<Rightarrow> Decoder \<Rightarrow> ETable \<Rightarrow> bool" where
  "header_coded H enc h dst d t' \<longleftrightarrow> (\<exists>bs d'. enc dst = Some (Ok (), dst_add dst bs) \<and> length bs \<le> header_room H h \<and>
    decodes H d bs (plain_header h) d' \<and> in_sync t' d' \<and> last_max_update d' = last_max_update d \<and> max_size_update d' = max_size_update d)"

context http_types
begin

lemma named_roundtrip:
  assumes inv: "et_inv fnv t" "et_max_size t \<le> 2 ^ 32" and sync: "in_sync t d" and e: "entry_at H (et_headers t) n = Some e" "header_name e = header_name h"
    and w: "writable H h" and room: "header_room H h \<le> remaining_mut dst" and k: "literal_kind idx p first"
  shows "\<exists>bs. enc_then (encode_int n p first dst) (encode_str (value_slice H h)) = Some (Ok (), dst_add dst bs) \<and> length bs \<le> header_room H h \<and>
    decodes H d bs (plain_header h) (after_literal idx d (plain_header h))"
proof -
  let ?val = "value_slice H h"
  have v: "valid_header H h" "huff_size ?val \<le> MAX_STR" "dec_buffer d = []" "5 + str_room ?val \<le> remaining_mut dst"
    using w sync room by (auto simp: writable_def in_sync_def header_room_def)
  note small = entry_at_small [OF inv e(1)] and get = in_sync_get [OF sync e(1)]
  obtain bs where bs: "enc_then (encode_int n p first dst) (encode_str ?val) = Some (Ok (), dst_add dst (int_bytes n p first @ bs))"
    "str_bytes ?val bs" "length (int_bytes n p first @ bs) \<le> 5 + str_room ?val"
    using int_str_writes [OF v(4) small v(2)] by blast
  have "decodes H d (int_bytes n p first @ bs) (plain_header h) (after_literal idx d (plain_header h))"
    using e(2) into_entry_value [OF v(1)] by (intro decodes_named [OF k get(2) small get(1) bs(2) v(2,3)]) auto
  then show ?thesis using bs by (auto simp: header_room_def)
qed

lemma new_roundtrip:
  assumes sync: "in_sync t d" and w: "writable H h" and room: "header_room H h \<le> remaining_mut dst" and k: "literal_kind idx p first"
  shows "\<exists>bs. dst_put_u8 first dst \<bind> (\<lambda>dst. enc_then (encode_str (name_as_slice (header_name h)) dst) (encode_str (value_slice H h))) = Some (Ok (), dst_add dst bs) \<and>
    length bs \<le> header_room H h \<and> decodes H d bs (plain_header h) (after_literal idx d (plain_header h))"
proof -
  let ?name = "name_as_slice (header_name h)" and ?val = "value_slice H h"
  have v: "valid_header H h" "huff_size ?name \<le> MAX_STR" "huff_size ?val \<le> MAX_STR" "dec_buffer d = []"
    "1 + str_room ?name + str_room ?val \<le> remaining_mut dst"
    using w sync room by (auto simp: writable_def in_sync_def header_room_def)
  obtain ns bs where bs: "dst_put_u8 first dst \<bind> (\<lambda>dst. enc_then (encode_str ?name dst) (encode_str ?val)) = Some (Ok (), dst_add dst (first # ns @ bs))"
    "str_bytes ?name ns" "str_bytes ?val bs" "length (first # ns @ bs) \<le> 1 + str_room ?name + str_room ?val"
    using new_writes [OF v(5,2,3)] by blast
  have "decodes H d (first # ns @ bs) (plain_header h) (after_literal idx d (plain_header h))"
    using Header_new_parts [OF v(1)] by (intro decodes_new [OF k bs(2) v(2) bs(3) v(3,4)]) auto
  then show ?thesis using bs by (intro exI [of _ "first # ns @ bs"]) (auto simp: header_room_def)
qed

text \<open>The mark of a sensitive value is the representation that is never indexed.\<close>

lemma literal_kinds: "literal_kind True 6 0x40" "literal_kind False 4 (if sens then 0x10 else 0)"
  by (auto simp: literal_kind_def)

lemma encode_not_indexed_int: "encode_not_indexed n val sens dst = enc_then (encode_int n 4 (if sens then 0x10 else 0) dst) (encode_str val)"
  by (simp add: encode_not_indexed_def)

lemma after_literal_False [simp]: "after_literal False d h = d"
  by (simp add: after_literal_def)

lemma encode_header_roundtrip:
  assumes inv: "et_inv fnv t" "et_max_size t \<le> 2 ^ 32" and spec: "index_spec H header t t' ix" and sync: "in_sync t d"
    and w: "writable H header" and room: "header_room H header \<le> remaining_mut dst"
  shows "header_coded H (encode_header H t' ix) header dst d t'"
proof -
  have keep: "in_sync t' d" if "unchanged t t'" using that sync by (auto simp: in_sync_def unchanged_def)
  have r: "remaining_mut dst \<noteq> 0" "5 \<le> remaining_mut dst" using room by (auto simp: header_room_def)
  have ins: "in_sync t' (after_literal True d (plain_header header))" if "inserted t header t'" "\<not> is_sensitive header"
    using in_sync_insert [OF sync that(1)] plain_plain [OF that(2)] by simp
  have res: "resolve t' ix = Some header" using spec inserted_first(2) [of t header t'] by (cases ix) auto
  note new = new_roundtrip [OF sync w room] and named = named_roundtrip [OF inv sync _ _ w room]
  have upd: "last_max_update (after_literal b d h) = last_max_update d" "max_size_update (after_literal b d h) = max_size_update d" for b h
    by (simp_all add: after_literal_def)
  show ?thesis
  proof (cases ix)
    case (Index_Indexed n h)
    then have e: "entry_at H (et_headers t) n = Some (plain_header header)" "unchanged t t'" using spec by auto
    note small = entry_at_small [OF inv e(1)] and get = in_sync_get [OF sync e(1)]
    show ?thesis
      using int_writes [OF r(2) small, of 7 "0x80"] decodes_indexed [OF get(1) small] keep [OF e(2)] Index_Indexed
      unfolding header_coded_def by (intro exI [of _ "int_bytes n 7 0x80"] exI [of _ d]) (auto simp: encode_header_def header_room_def)
  next
    case (Index_Name n h)
    then obtain e where e: "entry_at H (et_headers t) n = Some e" "header_name e = header_name header" "unchanged t t'" using spec by auto
    obtain bs where "encode_not_indexed n (value_slice H header) (is_sensitive header) dst = Some (Ok (), dst_add dst bs)"
      "length bs \<le> header_room H header" "decodes H d bs (plain_header header) d"
      using named [OF e(1,2) literal_kinds(2) [of "is_sensitive header"]] by (auto simp: encode_not_indexed_int)
    then show ?thesis using keep [OF e(3)] res Index_Name unfolding header_coded_def by (auto simp: encode_header_def)
  next
    case (Index_Inserted i)
    then have e: "inserted t header t'" "\<not> is_sensitive header" using spec by auto
    have "encode_header H t' ix dst =
        dst_put_u8 0x40 dst \<bind> (\<lambda>dst. enc_then (encode_str (name_as_slice (header_name header)) dst) (encode_str (value_slice H header)))"
      using e(2) res r(1) Index_Inserted by (auto simp: encode_header_def)
    then show ?thesis using new [OF literal_kinds(1)] ins [OF e] upd unfolding header_coded_def by metis
  next
    case (Index_InsertedValue n i)
    then obtain x where e: "inserted t header t'" "\<not> is_sensitive header" "entry_at H (et_headers t) n = Some x" "header_name x = header_name header"
      using spec by auto
    have "encode_header H t' ix dst = enc_then (encode_int n 6 0x40 dst) (encode_str (value_slice H header))"
      using e(2) res Index_InsertedValue by (auto simp: encode_header_def)
    then show ?thesis using named [OF e(3,4) literal_kinds(1)] ins [OF e(1,2)] upd unfolding header_coded_def by metis
  next
    case (Index_NotIndexed h)
    then have e: "unchanged t t'" using spec by auto
    show ?thesis using new [OF literal_kinds(2) [of "is_sensitive header"]] keep [OF e] res r Index_NotIndexed
      unfolding header_coded_def by (auto simp: encode_header_def encode_not_indexed2_def)
  qed
qed

lemma without_name_roundtrip:
  assumes inv: "et_inv fnv t" "et_max_size t \<le> 2 ^ 32" and l: "last_ok H t ix (NField n)" and sync: "in_sync t d"
    and w: "writable H (Field n v)" and room: "header_room H (Field n v) \<le> remaining_mut dst"
  shows "header_coded H (encode_header_without_name t ix v) (Field n v) dst d t"
proof -
  have r: "remaining_mut dst \<noteq> 0" using room by (auto simp: header_room_def)
  show ?thesis
  proof (cases "\<exists>h. ix = Index_NotIndexed h")
    case True
    then obtain h where h: "ix = Index_NotIndexed h" "header_name h = NField n" using l by (auto simp: last_ok_def)
    obtain bs where "dst_put_u8 (if hv_sensitive v then 0x10 else 0) dst \<bind> (\<lambda>dst. enc_then (encode_str n dst) (encode_str (hv_bytes v))) =
        Some (Ok (), dst_add dst bs)" "length bs \<le> header_room H (Field n v)" "decodes H d bs (plain_header (Field n v)) d"
      using new_roundtrip [OF sync w room literal_kinds(2) [of "hv_sensitive v"]] by auto
    then have "encode_header_without_name t ix v dst = Some (Ok (), dst_add dst bs) \<and> length bs \<le> header_room H (Field n v) \<and>
        decodes H d bs (plain_header (Field n v)) d"
      using h r by (simp add: encode_header_without_name_def encode_not_indexed2_def)
    then show ?thesis using sync unfolding header_coded_def by blast
  next
    case False
    then obtain m e where m: "resolve_idx ix = Some m" "entry_at H (et_headers t) m = Some e" "header_name e = header_name (Field n v)"
      using l by (cases ix) (auto simp: last_ok_def)
    obtain bs where "encode_not_indexed m (hv_bytes v) (hv_sensitive v) dst = Some (Ok (), dst_add dst bs)"
      "length bs \<le> header_room H (Field n v)" "decodes H d bs (plain_header (Field n v)) d"
      using named_roundtrip [OF inv sync m(2,3) w room literal_kinds(2) [of "hv_sensitive v"]] by (auto simp: encode_not_indexed_int)
    moreover have "encode_header_without_name t ix v dst = encode_not_indexed m (hv_bytes v) (hv_sensitive v) dst"
      using False m(1) by (cases ix) (auto simp: encode_header_without_name_def)
    ultimately show ?thesis using sync unfolding header_coded_def by auto
  qed
qed

end

section \<open>Header lists\<close>

text \<open>The headers an iterator stands for: a field without a name has that of the one before.\<close>

fun named :: "Name option \<Rightarrow> bytes option GHeader list \<Rightarrow> Header list option" where
  "named nm [] = Some []"
| "named nm (h # hs) = (case reify h of
     Ok header \<Rightarrow> map_option ((#) header) (named (Some (header_name header)) hs)
   | Err v \<Rightarrow> (case nm of Some (NField n) \<Rightarrow> map_option ((#) (Field n v)) (named nm hs) | _ \<Rightarrow> None))"

definition list_room :: "http_ops \<Rightarrow> Header list \<Rightarrow> nat" where
  "list_room H es = sum_list (map (header_room H) es)"

definition same_limits :: "Decoder \<Rightarrow> Decoder \<Rightarrow> bool" where
  "same_limits d d' \<longleftrightarrow> last_max_update d' = last_max_update d \<and> max_size_update d' = max_size_update d"

definition list_coded :: "http_ops \<Rightarrow> (Encode \<times> ETable \<times> DstBuf \<times> bytes option GHeader list) option \<Rightarrow> (Name \<Rightarrow> u64) \<Rightarrow> nat \<Rightarrow> Header list \<Rightarrow> DstBuf \<Rightarrow> Decoder \<Rightarrow> bool" where
  "list_coded H enc fnv m es dst d \<longleftrightarrow> (\<exists>bs t' d'. enc = Some (Encode_Full, t', dst_add dst bs, []) \<and> et_inv fnv t' \<and> et_max_size t' = m \<and>
     in_sync t' d' \<and> same_limits d d' \<and>
     (\<forall>can_resize c. cur_bytes c = bs \<longrightarrow> (\<exists>c'. decode_loop H can_resize d c = Some (Ok (), d', c', map plain_header es) \<and> cur_bytes c' = [])))"

context http_types
begin

lemma list_coded_Cons:
  assumes h: "decodes H d bs (plain_header e) d1" and l: "same_limits d d1" and rest: "list_coded H enc fnv m es (dst_add dst bs) d1"
  shows "list_coded H enc fnv m (e # es) dst d"
proof -
  obtain cs t' d' where r: "enc = Some (Encode_Full, t', dst_add (dst_add dst bs) cs, [])" "et_inv fnv t'" "et_max_size t' = m" "in_sync t' d'" "same_limits d1 d'"
    and dec: "\<And>can_resize c. cur_bytes c = cs \<Longrightarrow> \<exists>c'. decode_loop H can_resize d1 c = Some (Ok (), d', c', map plain_header es) \<and> cur_bytes c' = []"
    using rest unfolding list_coded_def by blast
  have "\<exists>c'. decode_loop H can_resize d c = Some (Ok (), d', c', map plain_header (e # es)) \<and> cur_bytes c' = []" if "cur_bytes c = bs @ cs" for can_resize c
    using dec [of "\<lparr>cur_inner = cs, cur_pos = 0\<rparr>" False] decode_loop_block [OF h that, of can_resize] by (auto simp: cur_bytes_def)
  then show ?thesis using r l unfolding list_coded_def same_limits_def by (intro exI [of _ "bs @ cs"] exI [of _ t'] exI [of _ d']) simp
qed

lemma encode_headers_roundtrip:
  assumes "et_inv fnv t" and "et_max_size t \<le> 2 ^ 32" and "in_sync t d" and "named nm hs = Some es"
    and "case nm of None \<Rightarrow> True | Some n \<Rightarrow> \<exists>ix. li = Some ix \<and> last_ok H t ix n"
    and "list_all (writable H) es" and "list_room H es \<le> remaining_mut dst"
  shows "list_coded H (encode_headers H fnv hs t li dst) fnv (et_max_size t) es dst d"
  using assms
proof (induction hs arbitrary: t d nm li es dst)
  case Nil
  then have "decode_loop H can_resize d c = Some (Ok (), d, c, [])" if "cur_bytes c = []" for can_resize c
    using that by (subst decode_loop.simps) (simp add: peek_u8_def)
  then show ?case using Nil by (auto simp: list_coded_def same_limits_def intro!: exI [of _ "[]"])
next
  case (Cons h hs)
  show ?case
  proof (cases "reify h")
    case (Ok header)
    then obtain es' where es: "es = header # es'" "named (Some (header_name header)) hs = Some es'" using Cons.prems(4) by auto
    have w: "writable H header" "header_room H header \<le> remaining_mut dst" "list_all (writable H) es'"
      using Cons.prems(6,7) es(1) by (auto simp: list_room_def)
    obtain ix t1 where t1: "table_index H fnv t header = Some (ix, t1)" "et_inv fnv t1" "index_spec H header t t1 ix"
      using table_index_spec [OF Cons.prems(1)] by blast
    obtain bs d1 where b: "encode_header H t1 ix dst = Some (Ok (), dst_add dst bs)" "length bs \<le> header_room H header"
      "decodes H d bs (plain_header header) d1" "in_sync t1 d1" "same_limits d d1"
      using encode_header_roundtrip [OF Cons.prems(1,2) t1(3) Cons.prems(3) w(1,2)] unfolding header_coded_def same_limits_def by blast
    have m: "et_max_size t1 = et_max_size t" using t1(3) by (cases ix) (auto simp: unchanged_def inserted_def)
    have "list_coded H (encode_headers H fnv hs t1 (Some ix) (dst_add dst bs)) fnv (et_max_size t1) es' (dst_add dst bs) d1"
      using Cons.IH [OF t1(2) _ b(4) es(2) _ w(3)] m Cons.prems(2,7) b(2) es(1) index_spec_last [OF t1(3)] by (simp add: list_room_def)
    moreover have "encode_headers H fnv (h # hs) t li dst = encode_headers H fnv hs t1 (Some ix) (dst_add dst bs)"
      using Ok t1(1) b(1) by simp
    ultimately show ?thesis using list_coded_Cons [OF b(3,5)] es(1) m by simp
  next
    case (Err v)
    then obtain n es' where es: "nm = Some (NField n)" "es = Field n v # es'" "named nm hs = Some es'"
      using Cons.prems(4) by (auto split: option.splits Name.splits)
    then obtain ix where ix: "li = Some ix" "last_ok H t ix (NField n)" using Cons.prems(5) by auto
    have w: "writable H (Field n v)" "header_room H (Field n v) \<le> remaining_mut dst" "list_all (writable H) es'"
      using Cons.prems(6,7) es(2) by (auto simp: list_room_def)
    obtain bs d1 where b: "encode_header_without_name t ix v dst = Some (Ok (), dst_add dst bs)" "length bs \<le> header_room H (Field n v)"
      "decodes H d bs (plain_header (Field n v)) d1" "in_sync t d1" "same_limits d d1"
      using without_name_roundtrip [OF Cons.prems(1,2) ix(2) Cons.prems(3) w(1,2)] unfolding header_coded_def same_limits_def by blast
    have "list_coded H (encode_headers H fnv hs t li (dst_add dst bs)) fnv (et_max_size t) es' (dst_add dst bs) d1"
      using Cons.IH [OF Cons.prems(1,2) b(4) es(3) Cons.prems(5) w(3)] Cons.prems(7) b(2) es(2) by (simp add: list_room_def)
    moreover have "encode_headers H fnv (h # hs) t li dst = encode_headers H fnv hs t li (dst_add dst bs)"
      using Err ix(1) b(1) by simp
    ultimately show ?thesis using list_coded_Cons [OF b(3,5)] es(2) by simp
  qed
qed

end

section \<open>Size updates\<close>

definition pending_updates :: "Encoder \<Rightarrow> nat list" where
  "pending_updates e = (case size_update e of None \<Rightarrow> [] | Some (SU_One v) \<Rightarrow> [v] | Some (SU_Two mn mx) \<Rightarrow> [mn, mx])"

text \<open>The largest size the decoder accepts in an update.\<close>

definition update_limit :: "Decoder \<Rightarrow> nat" where
  "update_limit d = (case max_size_update d of Some sz \<Rightarrow> sz | None \<Rightarrow> last_max_update d)"

lemma decode_size_update:
  assumes "cur_bytes c = int_bytes v 5 0x20 @ rest" and "v \<le> SMALL" and "v \<le> last_max_update d" and "set_max_size (table d) v = Some t"
  shows "decode_loop H True d c = decode_loop H True (d\<lparr>table := t\<rparr>) \<lparr>cur_inner = rest, cur_pos = 0\<rparr>"
proof -
  obtain c' where c': "try_int d c 5 = Some (Ok v, d, c')" "cur_bytes c' = rest" "cur_ok c'"
    using try_int_bytes [OF assms(1) _ _ _ assms(2)] by (auto simp: mask_eq_exp_minus_1)
  have "peek_u8 c = Some (hd (int_bytes v 5 0x20))" using assms(1) by (simp add: peek_u8_def int_bytes_def)
  moreover have "decode_block H True (hd (int_bytes v 5 0x20)) d c = Some (Ok (None, True), d\<lparr>table := t\<rparr>, \<lparr>cur_inner = rest, cur_pos = 0\<rparr>)"
    using c' assms(3,4) by (simp add: decode_block_def load_int_bytes process_size_update_def try_then_def consume_ok)
  ultimately show ?thesis by (subst decode_loop.simps) (auto simp: case_prod_unfold option.map_ident intro: option.map_cong [where f = id, simplified])
qed

lemma size_update_step:
  assumes "et_inv fnv t" and "in_sync t d" and "v \<le> SMALL" and "v \<le> last_max_update d"
  shows "\<exists>t' d'. resize t v = Some t' \<and> et_inv fnv t' \<and> et_max_size t' = v \<and> in_sync t' d' \<and> same_limits d d' \<and>
    (\<forall>c rest. cur_bytes c = int_bytes v 5 0x20 @ rest \<longrightarrow> decode_loop H True d c = decode_loop H True d' \<lparr>cur_inner = rest, cur_pos = 0\<rparr>)"
proof -
  have "v < 2 ^ 64" using assms(3) by (simp add: SMALL_def)
  from resize_fit [OF assms(1) this] obtain t' where t': "resize t v = Some t'" "et_inv fnv t'" "et_headers t' = fit v (et_headers t)" "et_max_size t' = v" by blast
  let ?d = "\<lparr>dt_entries = fit v (et_headers t), dt_size = total_len (fit v (et_headers t)), dt_max_size = v\<rparr>"
  have d: "set_max_size (table d) v = Some ?d" "in_sync t' (d\<lparr>table := ?d\<rparr>)"
    using assms(2) t' set_max_size_fit [of "table d" v] fit_le [of v "et_headers t"] by (auto simp: in_sync_def dtable_inv_def)
  show ?thesis
    using t' d(2) decode_size_update [OF _ assms(3,4) d(1)] by (intro exI [of _ t'] exI [of _ "d\<lparr>table := ?d\<rparr>"]) (auto simp: same_limits_def)
qed

lemma size_updates_roundtrip:
  assumes inv: "et_inv fnv (enc_table e)" "et_max_size (enc_table e) \<le> 2 ^ 32" and sync: "in_sync (enc_table e) d"
    and v: "list_all (\<lambda>v. v \<le> SMALL \<and> v \<le> last_max_update d) (pending_updates e)" and room: "10 \<le> remaining_mut dst"
  shows "\<exists>bs e' d'. encode_size_updates e dst = Some (Ok (), e', dst_add dst bs) \<and> length bs \<le> 10 \<and> size_update e' = None \<and>
    et_inv fnv (enc_table e') \<and> et_max_size (enc_table e') \<le> 2 ^ 32 \<and> in_sync (enc_table e') d' \<and> same_limits d d' \<and>
    (\<forall>c rest. cur_bytes c = bs @ rest \<longrightarrow> (\<exists>c'. cur_bytes c' = rest \<and> decode_loop H True d c = decode_loop H True d' c'))"
proof -
  have cb [simp]: "cur_bytes \<lparr>cur_inner = bs, cur_pos = 0\<rparr> = bs" for bs by (simp add: cur_bytes_def)
  have big: "v \<le> 2 ^ 32" if "v \<le> SMALL" for v using that by (simp add: SMALL_def)
  have r: "5 \<le> remaining_mut dst" using room by simp
  consider "size_update e = None" | (one) v where "size_update e = Some (SU_One v)" | (two) a b where "size_update e = Some (SU_Two a b)"
    by (metis SizeUpdate.exhaust option.exhaust)
  then show ?thesis
  proof cases
    case 1
    then show ?thesis using inv sync by (auto simp: encode_size_updates_def same_limits_def intro!: exI [of _ "[]"] exI [of _ e] exI [of _ d])
  next
    case (one w)
    then have w: "w \<le> SMALL" "w \<le> last_max_update d" using v by (auto simp: pending_updates_def)
    obtain t' d' where t': "resize (enc_table e) w = Some t'" "et_inv fnv t'" "et_max_size t' = w" "in_sync t' d'" "same_limits d d'"
      "\<And>c rest. cur_bytes c = int_bytes w 5 0x20 @ rest \<Longrightarrow> decode_loop H True d c = decode_loop H True d' \<lparr>cur_inner = rest, cur_pos = 0\<rparr>"
      using size_update_step [OF inv(1) sync w, of H] by blast
    have "encode_size_updates e dst = Some (Ok (), \<lparr>enc_table = t', size_update = None\<rparr>, dst_add dst (int_bytes w 5 0x20))"
      using one t'(1) int_writes(1) [OF r w(1)] by (simp add: encode_size_updates_def encode_size_update_def)
    then show ?thesis using t' int_writes(2) [OF r w(1), of 5 "0x20"] big [OF w(1)]
      by (intro exI [of _ "int_bytes w 5 0x20"] exI [of _ "\<lparr>enc_table = t', size_update = None\<rparr>"] exI [of _ d']) (auto intro!: exI [of _ "\<lparr>cur_inner = _, cur_pos = 0\<rparr>"])
  next
    case (two a b)
    then have w: "a \<le> SMALL" "a \<le> last_max_update d" "b \<le> SMALL" "b \<le> last_max_update d" using v by (auto simp: pending_updates_def)
    obtain t1 d1 where 1: "resize (enc_table e) a = Some t1" "et_inv fnv t1" "et_max_size t1 = a" "in_sync t1 d1" "same_limits d d1"
      "\<And>c rest. cur_bytes c = int_bytes a 5 0x20 @ rest \<Longrightarrow> decode_loop H True d c = decode_loop H True d1 \<lparr>cur_inner = rest, cur_pos = 0\<rparr>"
      using size_update_step [OF inv(1) sync w(1,2), of H] by blast
    have b1: "b \<le> last_max_update d1" using w(4) 1(5) by (simp add: same_limits_def)
    obtain t2 d2 where 2: "resize t1 b = Some t2" "et_inv fnv t2" "et_max_size t2 = b" "in_sync t2 d2" "same_limits d1 d2"
      "\<And>c rest. cur_bytes c = int_bytes b 5 0x20 @ rest \<Longrightarrow> decode_loop H True d1 c = decode_loop H True d2 \<lparr>cur_inner = rest, cur_pos = 0\<rparr>"
      using size_update_step [OF 1(2,4) w(3) b1, of H] by blast
    let ?a = "int_bytes a 5 0x20" and ?b = "int_bytes b 5 0x20"
    have la: "length ?a \<le> 5" "length ?b \<le> 5" using int_writes(2) [OF r] w by blast+
    have "5 \<le> remaining_mut (dst_add dst ?a)" using la(1) room by simp
    then have "encode_size_updates e dst = Some (Ok (), \<lparr>enc_table = t2, size_update = None\<rparr>, dst_add dst (?a @ ?b))"
      using two 1(1) 2(1) int_writes(1) [OF r w(1)] int_writes(1) [OF _ w(3)] by (simp add: encode_size_updates_def encode_size_update_def enc_then_def)
    then show ?thesis using 1(5,6) 2 la big [OF w(3)] unfolding same_limits_def
      by (intro exI [of _ "?a @ ?b"] exI [of _ "\<lparr>enc_table = t2, size_update = None\<rparr>"] exI [of _ d2]) (auto intro!: exI [of _ "\<lparr>cur_inner = _, cur_pos = 0\<rparr>"])
  qed
qed

section \<open>Properties of the encoder\<close>

lemma take_update:
  "Decoder_decode H d c = decode_loop H True (d\<lparr>max_size_update := None, last_max_update := update_limit d\<rparr>) c"
  by (cases d) (auto simp: Decoder_decode_def update_limit_def split: option.split)

text \<open>C1: Header blocks round trip. With its table in step with the decoder's, the encoder writes every list of
  headers that fits (fields without a name take the name before them) together with its queued size updates;
  the decoder reads exactly those headers back, consumes all of it, and the two dynamic tables are in step
  again, so that the next block can follow.\<close>

theorem hpack_headers_roundtrip:
  assumes "http_types H" and "et_inv fnv (enc_table e)" and "et_max_size (enc_table e) \<le> 2 ^ 32" and "in_sync (enc_table e) d"
    and "list_all (\<lambda>v. v \<le> SMALL \<and> v \<le> update_limit d) (pending_updates e)"
    and "named None hs = Some es" and "list_all (writable H) es" and "10 + list_room H es \<le> remaining_mut dst"
  shows "\<exists>bs e' d' c'. Encoder_encode H fnv e None hs dst =
      Some (Encode_Full, e', \<lparr>dst_bytes = dst_bytes dst @ bs, remaining_mut = remaining_mut dst - length bs\<rparr>, []) \<and>
    Decoder_decode H d \<lparr>cur_inner = bs, cur_pos = 0\<rparr> = Some (Ok (), d', c', map plain_header es) \<and> cur_bytes c' = [] \<and>
    et_inv fnv (enc_table e') \<and> et_max_size (enc_table e') \<le> 2 ^ 32 \<and> in_sync (enc_table e') d' \<and>
    pending_updates e' = [] \<and> update_limit d' = update_limit d"
proof -
  let ?d = "d\<lparr>max_size_update := None, last_max_update := update_limit d\<rparr>"
  have s: "in_sync (enc_table e) ?d" "10 \<le> remaining_mut dst" using assms(4,8) by (auto simp: in_sync_def)
  obtain us e1 d1 where 1: "encode_size_updates e dst = Some (Ok (), e1, dst_add dst us)" "length us \<le> 10" "size_update e1 = None"
    "et_inv fnv (enc_table e1)" "et_max_size (enc_table e1) \<le> 2 ^ 32" "in_sync (enc_table e1) d1" "same_limits ?d d1"
    "\<And>c rest. cur_bytes c = us @ rest \<Longrightarrow> \<exists>c'. cur_bytes c' = rest \<and> decode_loop H True ?d c = decode_loop H True d1 c'"
    using size_updates_roundtrip [OF assms(2,3) s(1) _ s(2), of H] assms(5) by auto
  have "list_room H es \<le> remaining_mut (dst_add dst us)" using 1(2) assms(8) by simp
  from http_types.encode_headers_roundtrip [OF assms(1) 1(4-6) assms(6) _ assms(7) this, of None]
  obtain bs t' d' where 2: "encode_headers H fnv hs (enc_table e1) None (dst_add dst us) = Some (Encode_Full, t', dst_add (dst_add dst us) bs, [])"
    "et_inv fnv t'" "et_max_size t' = et_max_size (enc_table e1)" "in_sync t' d'" "same_limits d1 d'"
    "\<And>can_resize c. cur_bytes c = bs \<Longrightarrow> \<exists>c'. decode_loop H can_resize d1 c = Some (Ok (), d', c', map plain_header es) \<and> cur_bytes c' = []"
    unfolding list_coded_def by auto
  have "Encoder_encode H fnv e None hs dst = Some (Encode_Full, e1\<lparr>enc_table := t'\<rparr>, dst_add dst (us @ bs), [])"
    using 1(1) 2(1) by (simp add: Encoder_encode_def)
  moreover have "\<exists>c'. Decoder_decode H d \<lparr>cur_inner = us @ bs, cur_pos = 0\<rparr> = Some (Ok (), d', c', map plain_header es) \<and> cur_bytes c' = []"
    using 1(8) [of "\<lparr>cur_inner = us @ bs, cur_pos = 0\<rparr>" bs] 2(6) [of _ True] by (auto simp: take_update cur_bytes_def)
  moreover have "update_limit d' = update_limit d" using 1(7) 2(5) by (simp add: same_limits_def update_limit_def)
  ultimately show ?thesis using 1(3,5) 2 unfolding dst_add_def
    by (intro exI [of _ "us @ bs"] exI [of _ "e1\<lparr>enc_table := t'\<rparr>"]) (auto simp: pending_updates_def)
qed

lemma huff_size_le: "huff_size src \<le> 4 * length src"
proof -
  have c: "fst (ENCODE_TABLE ! unat b) \<le> 30" for b :: u8
  proof -
    have "unat b < 2 ^ LENGTH(8)" by (rule unsigned_less)
    then show ?thesis using table_code(1) [of "unat b"] by (cases "ENCODE_TABLE ! unat b") simp
  qed
  have "sum_list (map (\<lambda>b. fst (ENCODE_TABLE ! unat b)) src) \<le> 30 * length src"
    by (induction src) (simp_all add: add_mono [OF c])
  then show ?thesis by (cases src) (auto simp: huff_size_def)
qed

lemma str_room_le:
  assumes "length src \<le> 31"
  shows "str_room src \<le> 1 + 4 * length src" and "huff_size src \<le> MAX_STR"
  using huff_size_le [of src] assms by (auto simp: str_room_def MAX_STR_def)

theorem hpack_headers_roundtrip_witness:
  "\<exists>bs e' d' c'. Encoder_encode std_http (\<lambda>_. 5) (Encoder_new 4096 0) None
      [Method (ascii ''GET''), Field (Some [97]) \<lparr>hv_bytes = [98], hv_sensitive = False\<rparr>, Field None \<lparr>hv_bytes = [99], hv_sensitive = True\<rparr>]
      \<lparr>dst_bytes = [], remaining_mut = 200\<rparr> = Some (Encode_Full, e', \<lparr>dst_bytes = bs, remaining_mut = 200 - length bs\<rparr>, []) \<and>
    Decoder_decode std_http (Decoder_new 4096) \<lparr>cur_inner = bs, cur_pos = 0\<rparr> = Some (Ok (), d', c',
      [Method (ascii ''GET''), Field [97] \<lparr>hv_bytes = [98], hv_sensitive = False\<rparr>, Field [97] \<lparr>hv_bytes = [99], hv_sensitive = False\<rparr>])"
proof -
  let ?hs = "[Method (ascii ''GET''), Field (Some [97]) \<lparr>hv_bytes = [98], hv_sensitive = False\<rparr>, Field None \<lparr>hv_bytes = [99], hv_sensitive = True\<rparr>]"
  let ?es = "[Method (ascii ''GET''), Field [97] \<lparr>hv_bytes = [98], hv_sensitive = False\<rparr>, Field [97] \<lparr>hv_bytes = [99], hv_sensitive = True\<rparr>] :: Header list"
  have inv: "et_inv (\<lambda>_. 5) (enc_table (Encoder_new 4096 0))" "et_headers (ETable_new 4096 0) = []"
    using ETable_new_inv [of 4096 0 "\<lambda>_. 5"] by (simp_all add: to_raw_capacity_def Encoder_new_def)
  have room: "str_room [97] \<le> 5" "str_room [98] \<le> 5" "str_room [99] \<le> 5" "str_room (ascii '':method'') \<le> 29" "str_room (ascii ''GET'') \<le> 13"
    using str_room_le(1) [of "[97]"] str_room_le(1) [of "[98]"] str_room_le(1) [of "[99]"] str_room_le(1) [of "ascii '':method''"]
      str_room_le(1) [of "ascii ''GET''"] by (simp_all add: ascii_def)
  have valid: "list_all (valid_header std_http) ?es" by code_simp
  have "list_all (writable std_http) ?es"
    using valid str_room_le(2) by (simp add: writable_def ascii_def)
  moreover have "10 + list_room std_http ?es \<le> 200"
    using room by (simp add: list_room_def header_room_def)
  ultimately show ?thesis
    using hpack_headers_roundtrip [OF std_http.http_types_axioms inv(1), of "Decoder_new 4096" ?hs ?es "\<lparr>dst_bytes = [], remaining_mut = 200\<rparr>"] inv(2)
    by (auto simp: Encoder_new_def in_sync_def Decoder_new_def DTable_new_def dtable_inv_def pending_updates_def ETable_new_def)
qed

text \<open>The entries left when the sizes are applied one after the other.\<close>

definition fits :: "nat list \<Rightarrow> Header list \<Rightarrow> Header list" where
  "fits vs hs = fold fit vs hs"

definition updates_ordered :: "Encoder \<Rightarrow> bool" where
  "updates_ordered e \<longleftrightarrow> sorted (pending_updates e)"

lemma fit_fit: "v \<le> w \<Longrightarrow> fit v (fit w hs) = fit v hs"
  by (induction w hs arbitrary: v rule: fit.induct) (auto simp: diff_le_mono)

lemma fit_larger: "w \<le> v \<Longrightarrow> fit v (fit w hs) = fit w hs"
  using fit_le [of w hs] by (intro fit_all) simp

text \<open>C33: However often the maximum table size is changed before the next header block, the at most two size
  updates that are written for it (the smallest size, then the last) evict what applying every change in turn
  would evict, and end with the size that was set last.\<close>

theorem hpack_size_updates_exact:
  assumes "total_len (et_headers (enc_table e)) \<le> et_max_size (enc_table e)" and "updates_ordered e"
  shows "fits (pending_updates (update_max_size e v)) (et_headers (enc_table e)) = fit v (fits (pending_updates e) (et_headers (enc_table e))) \<and>
    last (et_max_size (enc_table e) # pending_updates (update_max_size e v)) = v \<and> length (pending_updates (update_max_size e v)) \<le> 2 \<and>
    updates_ordered (update_max_size e v) \<and> enc_table (update_max_size e v) = enc_table e"
proof -
  consider "size_update e = None" | (one) w where "size_update e = Some (SU_One w)" | (two) a b where "size_update e = Some (SU_Two a b)"
    by (metis SizeUpdate.exhaust option.exhaust)
  then show ?thesis
  proof cases
    case 1
    then show ?thesis using assms(1) by (auto simp: update_max_size_def pending_updates_def fits_def updates_ordered_def fit_all)
  next
    case (one w)
    then show ?thesis
      using assms(1) by (auto simp: update_max_size_def pending_updates_def fits_def updates_ordered_def fit_all fit_fit)
  next
    case (two a b)
    then have "a \<le> b" using assms(2) by (simp add: updates_ordered_def pending_updates_def)
    then show ?thesis using two by (auto simp: update_max_size_def pending_updates_def fits_def updates_ordered_def fit_fit fit_larger)
  qed
qed

theorem hpack_size_updates_exact_witness:
  "pending_updates (update_max_size (update_max_size (update_max_size (Encoder_new 4096 0) 100) 50) 2000) = [50, 2000] \<and>
    last (4096 # pending_updates (update_max_size (update_max_size (update_max_size (Encoder_new 4096 0) 100) 50) 2000)) = 2000"
proof -
  let ?e = "update_max_size (update_max_size (Encoder_new 4096 0) 100) 50"
  have "enc_table ?e = ETable_new 4096 0" "pending_updates ?e = [50]" "pending_updates (update_max_size ?e 2000) = [50, 2000]"
    by (simp_all add: update_max_size_def Encoder_new_def ETable_new_def pending_updates_def)
  then show ?thesis using hpack_size_updates_exact [of ?e 2000] by (simp add: updates_ordered_def ETable_new_def et_headers_def)
qed

end
