(* ===== verification/Ws_Mask.thy ===== *)
theory Ws_Mask
  imports Byte_Buffer
begin

unbundle bit_operations_syntax

text \<open>
  Masking of WebSocket payloads, src/websocket/mask.rs: the fast version works on aligned 8-byte blocks in the
  byte order of the machine (\<open>big\<close>), with the address of the buffer deciding where the blocks begin.  It is
  compared with the byte-by-byte masking of RFC 6455.
\<close>

section \<open>Words in memory\<close>

definition word_byte :: "u64 \<Rightarrow> nat \<Rightarrow> u8" where
  "word_byte w i = ucast (drop_bit (8 * i) w)"

text \<open>The 8 bytes of a word, in the order of the machine, and the word made of 8 bytes.\<close>

definition to_ne_bytes :: "bool \<Rightarrow> u64 \<Rightarrow> bytes" where
  "to_ne_bytes big w = map (\<lambda>i. word_byte w (if big then 7 - i else i)) [0..<8]"

primrec le_word :: "bytes \<Rightarrow> u64" where
  "le_word [] = 0"
| "le_word (b # bs) = ucast b OR push_bit 8 (le_word bs)"

definition from_ne_bytes :: "bool \<Rightarrow> bytes \<Rightarrow> u64" where
  "from_ne_bytes big bs = le_word (if big then rev bs else bs)"

section \<open>The fast masking\<close>

definition xor_short :: "bool \<Rightarrow> bytes \<Rightarrow> u64 \<Rightarrow> bytes" where
  "xor_short big buf msk =
     (let b = from_ne_bytes big (buf @ replicate (8 - length buf) 0) XOR msk
      in take (length buf) (to_ne_bytes big b))"

text \<open>The view of a slice as words, and the bytes they occupy.\<close>

fun cast_slice :: "bool \<Rightarrow> bytes \<Rightarrow> u64 list" where
  "cast_slice big (b0 # b1 # b2 # b3 # b4 # b5 # b6 # b7 # bs) =
     from_ne_bytes big [b0, b1, b2, b3, b4, b5, b6, b7] # cast_slice big bs"
| "cast_slice big _ = []"

definition align_buf :: "usize \<Rightarrow> bytes \<Rightarrow> (bytes \<times> bytes \<times> bytes) option" where
  "align_buf start_ptr buf =
     (let end_ptr = start_ptr + of_nat (length buf);
          start_aligned = (start_ptr + 7) AND NOT 7;
          end_aligned = end_ptr AND NOT 7
      in if end_aligned \<ge> start_aligned then do {
           (tmp, tail) \<leftarrow> split_to (unat (end_aligned - start_ptr)) buf;
           (head, mid) \<leftarrow> split_to (unat (start_aligned - start_ptr)) tmp;
           Some (head, mid, tail)
         }
         else Some (buf, [], []))"

definition apply_mask :: "bool \<Rightarrow> usize \<Rightarrow> bytes \<Rightarrow> u32 \<Rightarrow> bytes option" where
  "apply_mask big ptr buf mask_u32 =
     (let mask_u64 = push_bit 32 (ucast mask_u32) OR ucast mask_u32 in do {
        (head, mid, tail) \<leftarrow> align_buf ptr buf;
        let head_len = length head;
            (head, mask_u64) =
              (if head_len > 0
               then (xor_short big head mask_u64,
                     if big then word_rotl (8 * head_len) mask_u64 else word_rotr (8 * head_len) mask_u64)
               else (head, mask_u64));
            mid = map (\<lambda>v. v XOR mask_u64) (cast_slice big mid);
            tail = (if length tail > 0 then xor_short big tail mask_u64 else tail)
        in Some (head @ concat (map (to_ne_bytes big) mid) @ tail)
      })"

section \<open>The masking of RFC 6455\<close>

text \<open>The key that is used for a byte: the bytes of the mask, least significant first, in turn.\<close>

definition mask_byte :: "bool \<Rightarrow> u32 \<Rightarrow> nat \<Rightarrow> u8" where
  "mask_byte big m i = ucast (drop_bit (8 * (if big then 3 - i mod 4 else i mod 4)) m)"

definition mask_from :: "bool \<Rightarrow> u32 \<Rightarrow> nat \<Rightarrow> bytes \<Rightarrow> bytes" where
  "mask_from big m k bs = map2 (\<lambda>i b. b XOR mask_byte big m i) [k..<k + length bs] bs"

lemma mask_from_append: "mask_from big m k (xs @ ys) = mask_from big m k xs @ mask_from big m (k + length xs) ys"
proof -
  have "[k..<k + length (xs @ ys)] = [k..<k + length xs] @ [k + length xs..<k + length xs + length ys]"
    using upt_add_eq_append [of k "k + length xs" "length ys"] by (simp add: add.assoc)
  then show ?thesis by (simp add: mask_from_def)
qed

lemma length_mask_from [simp]: "length (mask_from big m k bs) = length bs"
  by (simp add: mask_from_def)

lemma mask_from_nth: "i < length bs \<Longrightarrow> mask_from big m k bs ! i = bs ! i XOR mask_byte big m (k + i)"
  by (simp add: mask_from_def)

lemma mask_from_mask: "mask_from big m k (mask_from big m k bs) = bs"
  by (rule nth_equalityI) (simp_all add: mask_from_nth xor.assoc)

section \<open>Bytes of words\<close>

lemma bit_word_byte: "bit (word_byte w i) j \<longleftrightarrow> j < 8 \<and> bit w (8 * i + j)"
  by (auto simp: word_byte_def bit_simps)

lemma length_to_ne_bytes [simp]: "length (to_ne_bytes big w) = 8"
  by (simp add: to_ne_bytes_def)

lemma to_ne_bytes_nth: "i < 8 \<Longrightarrow> to_ne_bytes big w ! i = word_byte w (if big then 7 - i else i)"
  by (simp add: to_ne_bytes_def)

lemma bit_le_word: "bit (le_word bs) k \<longleftrightarrow> k < 64 \<and> k div 8 < length bs \<and> bit (bs ! (k div 8)) (k mod 8)"
proof (induction bs arbitrary: k)
  case (Cons b bs)
  show ?case
  proof (cases "k < 8")
    case True
    then show ?thesis by (auto simp: bit_simps)
  next
    case False
    then have "k div 8 = Suc ((k - 8) div 8)" "k mod 8 = (k - 8) mod 8" by (simp_all add: div_if mod_if)
    then show ?thesis using False Cons [of "k - 8"] by (auto simp: bit_simps dest: bit_imp_le_length)
  qed
qed simp

lemma word_byte_xor: "word_byte (v XOR w) i = word_byte v i XOR word_byte w i"
  by (rule bit_word_eqI) (auto simp: bit_word_byte bit_simps)

lemma word_byte_le_word: "i < length bs \<Longrightarrow> length bs \<le> 8 \<Longrightarrow> word_byte (le_word bs) i = bs ! i"
  by (rule bit_word_eqI) (auto simp: bit_word_byte bit_le_word)

lemma to_from_ne_bytes_xor:
  assumes "length bs = 8" and "i < 8"
  shows "to_ne_bytes big (from_ne_bytes big bs XOR w) ! i = bs ! i XOR to_ne_bytes big w ! i"
  using assms by (cases big) (simp_all add: to_ne_bytes_nth word_byte_xor from_ne_bytes_def word_byte_le_word rev_nth)

text \<open>The mask as a word, rotated so that its first byte is the one for position \<open>k\<close>.\<close>

definition mask_word :: "bool \<Rightarrow> u32 \<Rightarrow> nat \<Rightarrow> u64 \<Rightarrow> bool" where
  "mask_word big m k w \<longleftrightarrow> (\<forall>i < 8. to_ne_bytes big w ! i = mask_byte big m (k + i))"

lemma word_byte_doubled:
  assumes "j < 8"
  shows "word_byte (push_bit 32 (ucast (m :: u32)) OR ucast m) j = ucast (drop_bit (8 * (j mod 4)) m)"
proof (cases "j < 4")
  case True
  then show ?thesis by (intro bit_word_eqI) (auto simp: bit_word_byte bit_simps)
next
  case False
  define k where "k = j - 4"
  have k: "j = k + 4" "k < 4" using False assms by (simp_all add: k_def)
  have jk: "j mod 4 = k" using k by simp
  have "bit (word_byte (push_bit 32 (ucast m) OR ucast m) j) n = bit (ucast (drop_bit (8 * k) m) :: u8) n" if n: "n < LENGTH(8)" for n
  proof -
    have i: "8 * j + n = 8 * k + n + 32" using k by simp
    have hi: "\<not> bit m (8 * k + n + 32)"
    proof
      assume "bit m (8 * k + n + 32)"
      then have "8 * k + n + 32 < LENGTH(32)" by (rule bit_imp_le_length)
      then show False by simp
    qed
    show ?thesis using n k(2) by (simp add: bit_word_byte i bit_or_iff bit_push_bit_iff bit_ucast_iff bit_drop_bit_eq hi)
  qed
  then show ?thesis unfolding jk by (rule bit_word_eqI)
qed

lemma mask_word_first: "mask_word big m 0 (push_bit 32 (ucast m) OR ucast m)"
  unfolding mask_word_def
proof (intro allI impI)
  fix i :: nat assume i: "i < 8"
  then have "i = 0 \<or> i = 1 \<or> i = 2 \<or> i = 3 \<or> i = 4 \<or> i = 5 \<or> i = 6 \<or> i = 7" by linarith
  then have "(7 - i) mod 4 = 3 - i mod 4" by (elim disjE) simp_all
  then show "to_ne_bytes big (push_bit 32 (ucast m) OR ucast m) ! i = mask_byte big m (0 + i)"
    using i by (cases big) (simp_all add: to_ne_bytes_nth word_byte_doubled mask_byte_def)
qed

lemma mod_64: "j < 8 \<Longrightarrow> (8 * a + j) mod 64 = 8 * (a mod 8) + (j :: nat)"
  using mod_mult2_eq [of "8 * a + j" 8 8] by simp

lemma word_byte_rotr:
  assumes "i < 8"
  shows "word_byte (word_rotr (8 * h) w) i = word_byte w ((h + i) mod 8)"
proof (rule bit_word_eqI)
  fix j assume "j < LENGTH(8)"
  then have j: "j < 8" by simp
  have "(8 * i + j + 8 * h) mod 64 = 8 * ((h + i) mod 8) + j"
    using mod_64 [OF j, of "h + i"] by (simp add: algebra_simps)
  then show "bit (word_byte (word_rotr (8 * h) w) i) j \<longleftrightarrow> bit (word_byte w ((h + i) mod 8)) j"
    using assms j by (simp add: bit_word_byte bit_word_rotr_iff)
qed

lemma word_byte_rotl:
  assumes "i < 8" and "h < 8"
  shows "word_byte (word_rotl (8 * h) w) i = word_byte w ((i + (8 - h)) mod 8)"
proof (rule bit_word_eqI)
  fix j assume "j < LENGTH(8)"
  then have j: "j < 8" by simp
  have "(8 * i + j + (64 - 8 * h)) mod 64 = 8 * ((i + (8 - h)) mod 8) + j"
    using mod_64 [OF j, of "i + (8 - h)"] assms(2) by (simp add: algebra_simps)
  then show "bit (word_byte (word_rotl (8 * h) w) i) j \<longleftrightarrow> bit (word_byte w ((i + (8 - h)) mod 8)) j"
    using assms j by (simp add: bit_word_byte bit_word_rotl_iff)
qed

lemma mask_byte_mod: "mask_byte big m (k mod 8) = mask_byte big m k"
proof -
  have "k mod 8 mod 4 = k mod 4" by (rule mod_mod_cancel) simp
  then show ?thesis by (simp add: mask_byte_def)
qed

lemma mask_word_rotate:
  assumes "mask_word big m 0 w" and "h < 8"
  shows "mask_word big m h (if big then word_rotl (8 * h) w else word_rotr (8 * h) w)"
  unfolding mask_word_def
proof (intro allI impI)
  fix i :: nat assume i: "i < 8"
  have "7 - i + (8 - h) = 15 - (h + i)" using i assms(2) by simp
  moreover have "(15 - (h + i)) mod 8 = 7 - (h + i) mod 8"
  proof (cases "h + i < 8")
    case False
    then have "(h + i) mod 8 = h + i - 8" using i assms(2) by (simp add: mod_if)
    then show ?thesis using False by (simp add: mod_if)
  qed (simp add: mod_if)
  ultimately have "(7 - i + (8 - h)) mod 8 = 7 - (h + i) mod 8" by simp
  then have "to_ne_bytes big (if big then word_rotl (8 * h) w else word_rotr (8 * h) w) ! i = to_ne_bytes big w ! ((h + i) mod 8)"
    using i assms(2) by (cases big) (simp_all add: to_ne_bytes_nth word_byte_rotr word_byte_rotl)
  then show "to_ne_bytes big (if big then word_rotl (8 * h) w else word_rotr (8 * h) w) ! i = mask_byte big m (h + i)"
    using assms(1) mask_byte_mod by (simp add: mask_word_def)
qed

lemma xor_short_masks:
  assumes "mask_word big m k w" and "length bs < 8"
  shows "xor_short big bs w = mask_from big m k bs"
proof (rule nth_equalityI)
  fix i assume i: "i < length (xor_short big bs w)"
  then have l: "i < length bs" by (simp add: xor_short_def)
  have "to_ne_bytes big (from_ne_bytes big (bs @ replicate (8 - length bs) 0) XOR w) ! i = (bs @ replicate (8 - length bs) 0) ! i XOR to_ne_bytes big w ! i"
    using l assms(2) by (intro to_from_ne_bytes_xor) simp_all
  then show "xor_short big bs w ! i = mask_from big m k bs ! i"
    using l assms by (simp add: xor_short_def Let_def nth_append mask_from_nth mask_word_def)
qed (use assms(2) in \<open>simp add: xor_short_def\<close>)

lemma word_masked:
  assumes "mask_word big m k w" and "length bs = 8"
  shows "to_ne_bytes big (from_ne_bytes big bs XOR w) = mask_from big m k bs"
  using assms by (intro nth_equalityI) (simp_all add: to_from_ne_bytes_xor mask_from_nth mask_word_def)

lemma mask_from_period: "mask_from big m (k + 8) bs = mask_from big m k bs"
proof (rule nth_equalityI)
  fix i assume "i < length (mask_from big m (k + 8) bs)"
  moreover have "mask_byte big m (k + 8 + i) = mask_byte big m (k + i)"
  proof -
    have "(k + 8 + i) mod 8 = (k + i) mod 8" by (metis add.assoc add.commute mod_add_self2)
    then show ?thesis using mask_byte_mod [of big m "k + 8 + i"] mask_byte_mod [of big m "k + i"] by simp
  qed
  ultimately show "mask_from big m (k + 8) bs ! i = mask_from big m k bs ! i" by (simp add: mask_from_nth)
qed simp

lemma mask_from_periods: "mask_from big m (k + 8 * n) bs = mask_from big m k bs"
proof (induction n)
  case (Suc n)
  then show ?case using mask_from_period [of big m "k + 8 * n" bs] by (simp add: ac_simps)
qed simp

lemma cast_slice_append:
  assumes "length hs = 8"
  shows "cast_slice big (hs @ bs) = from_ne_bytes big hs # cast_slice big bs"
proof -
  have "hs = map ((!) hs) [0..<8]" using assms map_nth [of hs] by simp
  then have "hs = [hs ! 0, hs ! 1, hs ! 2, hs ! 3, hs ! 4, hs ! 5, hs ! 6, hs ! 7]" by (simp add: upt_rec numeral_eq_Suc)
  then show ?thesis by (metis append_Cons append_Nil cast_slice.simps(1))
qed

lemma words_masked:
  assumes "mask_word big m k w" and "length bs = 8 * n"
  shows "concat (map (to_ne_bytes big) (map (\<lambda>v. v XOR w) (cast_slice big bs))) = mask_from big m k bs"
  using assms(2)
proof (induction n arbitrary: bs)
  case 0
  then show ?case by (simp add: mask_from_def)
next
  case (Suc n)
  let ?h = "take 8 bs" and ?t = "drop 8 bs"
  have h: "length ?h = 8" "length ?t = 8 * n" using Suc.prems by simp_all
  have "cast_slice big bs = from_ne_bytes big ?h # cast_slice big ?t" using cast_slice_append [OF h(1), of big ?t] by simp
  moreover have "mask_from big m k bs = mask_from big m k ?h @ mask_from big m k ?t"
    using mask_from_append [of big m k ?h ?t] h(1) mask_from_period [of big m k ?t] by simp
  ultimately show ?case using Suc.IH [OF h(2)] word_masked [OF assms(1) h(1)] by simp
qed

section \<open>Alignment\<close>

lemma and_not_7: "unat (x AND - 8 :: usize) = 8 * (unat x div 8)"
proof -
  have m: "(- 8 :: usize) = NOT (mask 3)" by (simp add: mask_eq_exp_minus_1)
  have "x AND - 8 = push_bit 3 (drop_bit 3 x)"
    unfolding m by (rule bit_word_eqI) (auto simp: bit_simps)
  then have "unat (x AND - 8) = take_bit 64 (push_bit 3 (drop_bit 3 (take_bit 64 (unat x))))"
    by (simp add: unsigned_push_bit_eq unsigned_drop_bit_eq)
  moreover have "take_bit 64 (unat x) = unat x" using u64_bound [of x] by (simp add: take_bit_nat_eq_self)
  moreover have "8 * (unat x div 8) < 2 ^ 64" using u64_bound [of x] by (simp add: le_less_trans [OF times_div_less_eq_dividend])
  ultimately show ?thesis by (simp add: push_bit_eq_mult drop_bit_eq_div take_bit_nat_eq_self mult.commute)
qed

text \<open>The three segments: they make up the buffer, the middle one is a number of whole words.\<close>

lemma align_buf_splits:
  assumes "unat ptr + length buf + 7 < 2 ^ 64"
  shows "\<exists>head mid tail n. align_buf ptr buf = Some (head, mid, tail) \<and> buf = head @ mid @ tail \<and> length head < 8 \<and>
    length mid = 8 * n \<and> length tail < 8"
proof -
  let ?p = "unat ptr" and ?l = "length buf"
  define sa where "sa = (ptr + 7) AND NOT 7"
  define ea where "ea = (ptr + of_nat ?l) AND NOT 7"
  have s: "unat sa = 8 * ((?p + 7) div 8)"
    using assms by (simp add: sa_def and_not_7 unat_word_ariths)
  have l: "unat (of_nat ?l :: usize) = ?l" using assms by (simp add: unat_of_nat)
  have e: "unat ea = 8 * ((?p + ?l) div 8)"
    using assms l by (simp add: ea_def and_not_7 unat_word_ariths)
  have round: "?p \<le> 8 * ((?p + 7) div 8)" "8 * ((?p + 7) div 8) < ?p + 8" "8 * ((?p + ?l) div 8) \<le> ?p + ?l" "?p + ?l < 8 * ((?p + ?l) div 8) + 8"
    using mult_div_mod_eq [of 8 "?p + 7"] mult_div_mod_eq [of 8 "?p + ?l"] mod_less_divisor [of 8 "?p + 7"] mod_less_divisor [of 8 "?p + ?l"] by linarith+
  have ps: "ptr \<le> sa" using round(1) unfolding word_le_nat_alt s .
  show ?thesis
  proof (cases "sa \<le> ea")
    case True
    then have le: "unat sa \<le> unat ea" by (simp add: word_le_nat_alt)
    have d: "unat (ea - ptr) = unat ea - ?p" "unat (sa - ptr) = unat sa - ?p"
      using ps True by (simp_all add: unat_sub)
    define h where "h = unat sa - ?p"
    define t where "t = unat ea - ?p"
    have b: "h < 8" "h \<le> t" "t \<le> ?l" "?l - t < 8" "t - h = 8 * ((?p + ?l) div 8 - (?p + 7) div 8)"
      using le round unfolding s e h_def t_def by (simp_all add: diff_mult_distrib2)
    have "align_buf ptr buf = Some (take h (take t buf), drop h (take t buf), drop t buf)"
      unfolding align_buf_def Let_def sa_def [symmetric] ea_def [symmetric] d h_def [symmetric] t_def [symmetric]
      using True b by (simp add: split_to_def min_def)
    moreover have "buf = take h (take t buf) @ drop h (take t buf) @ drop t buf" by (metis append_assoc append_take_drop_id)
    moreover have "length (take h (take t buf)) = h" "length (drop h (take t buf)) = t - h" "length (drop t buf) = ?l - t"
      using b by simp_all
    ultimately show ?thesis using b(1,4,5) by metis
  next
    case False
    then have "align_buf ptr buf = Some (buf, [], [])"
      unfolding align_buf_def Let_def sa_def [symmetric] ea_def [symmetric] by simp
    moreover have "?l < 8" using False round unfolding word_le_nat_alt s e by simp
    ultimately show ?thesis by (intro exI [of _ buf] exI [of _ "[]"] exI [of _ 0]) simp
  qed
qed

lemma apply_mask_masks:
  assumes "unat ptr + length buf + 7 < 2 ^ 64"
  shows "apply_mask big ptr buf m = Some (mask_from big m 0 buf)"
proof -
  obtain head mid tail n where b: "align_buf ptr buf = Some (head, mid, tail)" "buf = head @ mid @ tail" "length head < 8" "length mid = 8 * n" "length tail < 8"
    using align_buf_splits [OF assms] by blast
  let ?w = "push_bit 32 (ucast m) OR ucast m :: u64"
  define w where "w = (if length head > 0 then if big then word_rotl (8 * length head) ?w else word_rotr (8 * length head) ?w else ?w)"
  have w: "mask_word big m (length head) w"
    using mask_word_rotate [OF mask_word_first b(3)] mask_word_first by (cases head) (simp_all add: w_def)
  have "mask_from big m (length head + length mid) tail = mask_from big m (length head) tail"
    by (simp add: b(4) mask_from_periods)
  then have t: "(if length tail > 0 then xor_short big tail w else tail) = mask_from big m (length head + length mid) tail"
    using xor_short_masks [OF w b(5)] by (auto simp: mask_from_def)
  have h: "(if length head > 0 then xor_short big head ?w else head) = mask_from big m 0 head"
    using xor_short_masks [OF mask_word_first b(3)] by (auto simp: mask_from_def)
  have "apply_mask big ptr buf m = Some (mask_from big m 0 head @ mask_from big m (length head) mid @ mask_from big m (length head + length mid) tail)"
    using b(1) unfolding h [symmetric] t [symmetric] words_masked [OF w b(4), symmetric]
    by (cases "length head > 0") (simp_all add: apply_mask_def Let_def w_def)
  then show ?thesis by (simp add: b(2) mask_from_append)
qed

lemma le_bytes_u32:
  assumes "j < 4"
  shows "le_bytes 4 (unat (m :: u32)) ! j = ucast (drop_bit (8 * j) m)"
proof -
  have "unat (drop_bit (8 * j) m) = unat m div 256 ^ j"
  proof -
    have "unat (drop_bit (8 * j) m) = drop_bit (8 * j) (unat m)"
      using u32_bound [of m] by (simp add: unsigned_drop_bit_eq take_bit_nat_eq_self)
    also have "\<dots> = unat m div 2 ^ (8 * j)" by (rule drop_bit_eq_div)
    finally show ?thesis by (simp add: power_mult)
  qed
  then have "ucast (drop_bit (8 * j) m) = (of_nat (unat m div 256 ^ j) :: u8)" by (metis of_nat_unat)
  moreover have "j = 0 \<or> j = 1 \<or> j = 2 \<or> j = 3" using assms by linarith
  ultimately show ?thesis unfolding le_bytes_def be_bytes_4 by (elim disjE) simp_all
qed

lemma be_bytes_u32:
  assumes "j < 4"
  shows "be_bytes 4 (unat (m :: u32)) ! j = ucast (drop_bit (8 * (3 - j)) m)"
proof -
  have "be_bytes 4 (unat m) ! j = le_bytes 4 (unat m) ! (3 - j)" using assms by (simp add: le_bytes_def rev_nth)
  then show ?thesis using le_bytes_u32 [of "3 - j" m] by simp
qed

section \<open>Properties of the masking\<close>

text \<open>C36: On a little-endian machine the block-wise masking is the masking of RFC 6455, byte \<open>i\<close> with byte
  \<open>i mod 4\<close> of the mask as it stands on the wire, wherever the buffer lies in memory and whatever its length;
  so applying it twice, at any two addresses, gives the payload back.  On a big-endian machine the bytes of
  the mask are taken in the opposite order.\<close>

theorem ws_mask_exact:
  assumes "unat ptr + length buf + 7 < 2 ^ 64" and "unat ptr2 + length buf + 7 < 2 ^ 64"
  shows "\<exists>masked. apply_mask big ptr buf m = Some masked \<and> length masked = length buf \<and>
    (\<forall>i < length buf. masked ! i = buf ! i XOR ((if big then be_bytes else le_bytes) 4 (unat m)) ! (i mod 4)) \<and>
    apply_mask big ptr2 masked m = Some buf"
proof -
  have "mask_byte big m i = (if big then be_bytes else le_bytes) 4 (unat m) ! (i mod 4)" for i
    using be_bytes_u32 [of "i mod 4" m] by (simp add: mask_byte_def le_bytes_u32)
  then show ?thesis using apply_mask_masks [OF assms(1)] apply_mask_masks [of ptr2 "mask_from big m 0 buf" big m] assms(2)
    by (intro exI [of _ "mask_from big m 0 buf"]) (simp add: mask_from_nth mask_from_mask)
qed

theorem ws_mask_exact_witness:
  "\<exists>masked. apply_mask False 3 [1, 2, 3, 4, 5, 6, 7, 8, 9, 10, 11, 12, 13, 14, 15] 0x04030201 = Some masked \<and> length masked = 15 \<and> masked ! 4 = 5 XOR 1"
proof -
  let ?buf = "[1, 2, 3, 4, 5, 6, 7, 8, 9, 10, 11, 12, 13, 14, 15] :: bytes"
  obtain masked where m: "apply_mask False 3 ?buf 0x04030201 = Some masked" "length masked = length ?buf"
    "\<And>i. i < length ?buf \<Longrightarrow> masked ! i = ?buf ! i XOR le_bytes 4 (unat (0x04030201 :: u32)) ! (i mod 4)"
    using ws_mask_exact [of 3 ?buf 0 False "0x04030201"] by auto
  have "masked ! 4 = 5 XOR 1" using m(3) [of 4] by (simp add: le_bytes_def be_bytes_4)
  then show ?thesis using m(1,2) by simp
qed

end
