(* ===== verification/Ws_Frame.thy ===== *)
theory Ws_Frame
  imports Ws_Mask Utf8
begin

unbundle bit_operations_syntax

text \<open>
  WebSocket frames: the operation and close codes of src/websocket/proto.rs, the errors of src/websocket/mod.rs,
  and the parser and writer of src/websocket/frame.rs.  A buffer is its bytes; its address, the byte order of
  the machine and the random mask are arguments.  A panic is \<open>None\<close>.
\<close>

section \<open>Codes\<close>

datatype OpCode = OpContinue | OpText | OpBinary | OpClose | OpPing | OpPong | OpBad

primrec OpCode_into :: "OpCode \<Rightarrow> u8" where
  "OpCode_into OpContinue = 0"
| "OpCode_into OpText = 1"
| "OpCode_into OpBinary = 2"
| "OpCode_into OpClose = 8"
| "OpCode_into OpPing = 9"
| "OpCode_into OpPong = 10"
| "OpCode_into OpBad = 8"

definition OpCode_from :: "u8 \<Rightarrow> OpCode" where
  "OpCode_from byte =
     (if byte = 0 then OpContinue
      else if byte = 1 then OpText
      else if byte = 2 then OpBinary
      else if byte = 8 then OpClose
      else if byte = 9 then OpPing
      else if byte = 10 then OpPong
      else OpBad)"

datatype CloseCode = Normal | Away | Protocol | Unsupported | Abnormal | Invalid | Policy | Size | Extension
  | Error | Restart | Again | Tls | Other u16

primrec CloseCode_into :: "CloseCode \<Rightarrow> u16" where
  "CloseCode_into Normal = 1000"
| "CloseCode_into Away = 1001"
| "CloseCode_into Protocol = 1002"
| "CloseCode_into Unsupported = 1003"
| "CloseCode_into Abnormal = 1006"
| "CloseCode_into Invalid = 1007"
| "CloseCode_into Policy = 1008"
| "CloseCode_into Size = 1009"
| "CloseCode_into Extension = 1010"
| "CloseCode_into Error = 1011"
| "CloseCode_into Restart = 1012"
| "CloseCode_into Again = 1013"
| "CloseCode_into Tls = 1015"
| "CloseCode_into (Other code) = code"

definition CloseCode_from :: "u16 \<Rightarrow> CloseCode" where
  "CloseCode_from code =
     (if code = 1000 then Normal
      else if code = 1001 then Away
      else if code = 1002 then Protocol
      else if code = 1003 then Unsupported
      else if code = 1006 then Abnormal
      else if code = 1007 then Invalid
      else if code = 1008 then Policy
      else if code = 1009 then Size
      else if code = 1010 then Extension
      else if code = 1011 then Error
      else if code = 1012 then Restart
      else if code = 1013 then Again
      else if code = 1015 then Tls
      else Other code)"

record CloseReason =
  cr_code :: CloseCode
  cr_description :: "bytes option"

datatype 'io WsError =
    UnmaskedFrame
  | MaskedFrame
  | InvalidOpcode u8
  | InvalidLength nat
  | BadOpCode
  | Overflow
  | ContinuationNotStarted
  | ContinuationStarted
  | ContinuationFragment OpCode
  | WsIo 'io

section \<open>The parser\<close>

text \<open>\<^verbatim>\<open>src[a..b]\<close>: a panic outside the bounds.\<close>

definition sub_slice :: "'a list \<Rightarrow> nat \<Rightarrow> nat \<Rightarrow> 'a list option" where
  "sub_slice xs a b = (if a \<le> b \<and> b \<le> length xs then Some (take (b - a) (drop a xs)) else None)"

text \<open>The length of the payload and the position behind it; \<open>Ok None\<close> when more input is needed.\<close>

definition parse_length :: "bytes \<Rightarrow> nat \<Rightarrow> u8 \<Rightarrow> nat \<Rightarrow> ((nat \<times> nat) option, 'io WsError) result option" where
  "parse_length src idx len max_size =
     (if len = 126 then
        if length src < 4 then Some (Ok None)
        else do {
          bs \<leftarrow> sub_slice src idx (idx + 2);
          Some (Ok (Some (idx + 2, be_val bs)))
        }
      else if len = 127 then
        if length src < 10 then Some (Ok None)
        else do {
          bs \<leftarrow> sub_slice src idx (idx + 8);
          if be_val bs > max_size then Some (Err Overflow)
          else Some (Ok (Some (idx + 8, be_val bs)))
        }
      else Some (Ok (Some (idx, unat len))))"

definition parse_metadata :: "bytes \<Rightarrow> bool \<Rightarrow> nat \<Rightarrow> ((nat \<times> bool \<times> OpCode \<times> nat \<times> u32 option) option, 'io WsError) result option" where
  "parse_metadata src server max_size =
     (if length src < 2 then Some (Ok None)
      else do {
        first \<leftarrow> index src 0;
        second \<leftarrow> index src 1;
        let finished = (first AND 0x80 \<noteq> 0);
            masked = (second AND 0x80 \<noteq> 0)
        in if \<not> masked \<and> server then Some (Err UnmaskedFrame)
           else if masked \<and> \<not> server then Some (Err MaskedFrame)
           else
             let opcode = OpCode_from (first AND 0x0F) in
             if opcode = OpBad then Some (Err (InvalidOpcode (first AND 0x0F)))
             else do {
               r \<leftarrow> parse_length src 2 (second AND 0x7F) max_size;
               (case r of
                  Err e \<Rightarrow> Some (Err e)
                | Ok None \<Rightarrow> Some (Ok None)
                | Ok (Some (idx, len)) \<Rightarrow>
                    if len > max_size then Some (Err Overflow)
                    else if server then
                      if length src < idx + 4 then Some (Ok None)
                      else do {
                        bs \<leftarrow> sub_slice src idx (idx + 4);
                        Some (Ok (Some (idx + 4, finished, opcode, len, Some (of_nat (be_val (rev bs))))))
                      }
                    else Some (Ok (Some (idx, finished, opcode, len, None))))
             }
      })"

definition parse :: "bool \<Rightarrow> usize \<Rightarrow> bytes \<Rightarrow> bool \<Rightarrow> nat \<Rightarrow>
    (((bool \<times> OpCode \<times> bytes option) option, 'io WsError) result \<times> bytes) option" where
  "parse big ptr src server max_size = do {
     r \<leftarrow> parse_metadata src server max_size;
     (case r of
        Err e \<Rightarrow> Some (Err e, src)
      | Ok None \<Rightarrow> Some (Ok None, src)
      | Ok (Some (idx, finished, opcode, len, msk)) \<Rightarrow>
          if length src < (idx + len) mod 2 ^ 64 then Some (Ok None, src)
          else do {
            (_, src) \<leftarrow> split_to idx src;
            if len = 0 then Some (Ok (Some (finished, opcode, None)), src)
            else do {
              (data, src) \<leftarrow> split_to len src;
              if (opcode = OpPing \<or> opcode = OpPong) \<and> len > 125 then Some (Err (InvalidLength len), src)
              else if opcode = OpClose \<and> len > 125 then Some (Ok (Some (True, OpClose, None)), src)
              else do {
                data \<leftarrow> (case msk of Some m \<Rightarrow> apply_mask big ptr data m | None \<Rightarrow> Some data);
                Some (Ok (Some (finished, opcode, Some data)), src)
              }
            }
          })
   }"

definition parse_close_payload :: "bytes \<Rightarrow> CloseReason option" where
  "parse_close_payload payload =
     (if length payload \<ge> 2 then
        let raw_code = of_nat (be_val (take 2 payload));
            code = CloseCode_from raw_code;
            description = (if length payload > 2 then Some (from_utf8_lossy (drop 2 payload)) else None)
        in Some \<lparr>cr_code = code, cr_description = description\<rparr>
      else None)"

section \<open>The writer\<close>

definition write_message :: "buf_ops \<Rightarrow> bool \<Rightarrow> usize \<Rightarrow> u32 \<Rightarrow> bytes \<Rightarrow> bytes \<Rightarrow> OpCode \<Rightarrow> bool \<Rightarrow> bool \<Rightarrow> bytes option" where
  "write_message B big ptr rnd dst payload op fin msk =
     (let one = (if fin then 0x80 OR OpCode_into op else OpCode_into op);
          payload_len = length payload;
          two = (if msk then 0x80 else 0 :: u8);
          dst =
            (if payload_len < 126 then dst @ [one, two OR of_nat payload_len]
             else if payload_len \<le> 65535 then dst @ [one, two OR 126] @ put_u16 B (of_nat payload_len)
             else dst @ [one, two OR 127] @ put_u64 B (of_nat payload_len))
      in if msk then
           let dst = dst @ put_u32_le B rnd @ payload;
               pos = length dst - payload_len
           in map_option (\<lambda>masked. take pos dst @ masked) (apply_mask big ptr (drop pos dst) rnd)
         else Some (dst @ payload))"

definition write_close :: "buf_ops \<Rightarrow> bool \<Rightarrow> usize \<Rightarrow> u32 \<Rightarrow> bytes \<Rightarrow> CloseReason option \<Rightarrow> bool \<Rightarrow> bytes option" where
  "write_close B big ptr rnd dst reason msk =
     (let payload = (case reason of
            None \<Rightarrow> []
          | Some reason \<Rightarrow>
              be_bytes 2 (unat (CloseCode_into (cr_code reason))) @
              (case cr_description reason of Some description \<Rightarrow> description | None \<Rightarrow> []))
      in write_message B big ptr rnd dst payload OpClose True msk)"

section \<open>What is written\<close>

definition len_bytes :: "nat \<Rightarrow> bytes" where
  "len_bytes n = (if n < 126 then [] else if n \<le> 65535 then be_bytes 2 n else be_bytes 8 n)"

definition len_code :: "nat \<Rightarrow> nat" where
  "len_code n = (if n < 126 then n else if n \<le> 65535 then 126 else 127)"

definition frame_head :: "OpCode \<Rightarrow> bool \<Rightarrow> bool \<Rightarrow> u32 \<Rightarrow> nat \<Rightarrow> bytes" where
  "frame_head op fin msk rnd n =
     (if fin then 0x80 OR OpCode_into op else OpCode_into op) # ((if msk then 0x80 else 0) OR of_nat (len_code n)) # len_bytes n @
     (if msk then le_bytes 4 (unat rnd) else [])"

definition frame_body :: "bool \<Rightarrow> bool \<Rightarrow> u32 \<Rightarrow> bytes \<Rightarrow> bytes" where
  "frame_body big msk rnd payload = (if msk then mask_from big rnd 0 payload else payload)"

lemma length_frame_head: "length (frame_head op fin msk rnd n) = 2 + length (len_bytes n) + (if msk then 4 else 0)"
  by (simp add: frame_head_def)

lemma length_frame_body [simp]: "length (frame_body big msk rnd payload) = length payload"
  by (simp add: frame_body_def)

context byte_buffer
begin

lemma write_message_writes:
  assumes "unat ptr + length payload + 7 < 2 ^ 64"
  shows "write_message B big ptr rnd dst payload op fin msk =
    Some (dst @ frame_head op fin msk rnd (length payload) @ frame_body big msk rnd payload)"
proof -
  have u: "length payload \<le> 65535 \<Longrightarrow> put_u16 B (of_nat (length payload)) = be_bytes 2 (length payload)"
    "put_u64 B (of_nat (length payload)) = be_bytes 8 (length payload)"
    using assms by (simp_all add: put_u16_law put_u64_law unat_of_nat)
  have m: "apply_mask big ptr payload rnd = Some (mask_from big rnd 0 payload)" by (rule apply_mask_masks [OF assms])
  show ?thesis
    using u m by (auto simp: write_message_def frame_head_def frame_body_def len_bytes_def len_code_def Let_def put_u32_le_law)
qed

end

section \<open>What is read\<close>

text \<open>A buffer that holds a part of a frame, or the frame and more.\<close>

definition comparable :: "'a list \<Rightarrow> 'a list \<Rightarrow> bool" where
  "comparable xs ys \<longleftrightarrow> (\<forall>i. i < length xs \<longrightarrow> i < length ys \<longrightarrow> xs ! i = ys ! i)"

lemma comparable_index: "comparable src fr \<Longrightarrow> i < length src \<Longrightarrow> i < length fr \<Longrightarrow> index src i = Some (fr ! i)"
  by (simp add: comparable_def index_def)

lemma comparable_slice:
  assumes "comparable src fr" and "a \<le> b" and "b \<le> length src" and "b \<le> length fr"
  shows "sub_slice src a b = Some (take (b - a) (drop a fr))"
proof -
  have "take (b - a) (drop a src) = take (b - a) (drop a fr)"
    using assms by (intro nth_equalityI) (auto simp: comparable_def)
  then show ?thesis using assms(2,3) by (simp add: sub_slice_def)
qed

lemma second_byte_all:
  "list_all (\<lambda>k. ((0x80 :: u8) OR of_nat k) AND 0x80 \<noteq> 0 \<and> ((0x80 :: u8) OR of_nat k) AND 0x7F = of_nat k \<and>
     (of_nat k :: u8) AND 0x80 = 0 \<and> (of_nat k :: u8) AND 0x7F = of_nat k) [0..<128]"
  by code_simp

lemma second_byte:
  assumes "k < 128"
  shows "((if msk then 0x80 else 0 :: u8) OR of_nat k) AND 0x80 \<noteq> 0 \<longleftrightarrow> msk" and "((if msk then 0x80 else 0 :: u8) OR of_nat k) AND 0x7F = of_nat k"
  using second_byte_all assms by (auto simp: list_all_iff)

lemma first_byte:
  assumes "op \<noteq> OpBad"
  shows "(if fin then 0x80 OR OpCode_into op else OpCode_into op) AND 0x80 \<noteq> 0 \<longleftrightarrow> fin"
    and "OpCode_from ((if fin then 0x80 OR OpCode_into op else OpCode_into op) AND 0x0F) = op"
  using assms by (cases op; cases fin; simp add: OpCode_from_def)+

lemma parse_length_reads:
  assumes c: "comparable src (b0 # b1 # len_bytes n @ rest)" and n: "n \<le> max_size" "n < 2 ^ 64" and "2 \<le> length src"
  shows "parse_length src 2 (of_nat (len_code n)) max_size =
    Some (Ok (if length src < 2 + length (len_bytes n) then None else Some (2 + length (len_bytes n), n)))"
proof -
  consider "n < 126" | (two) "126 \<le> n" "n \<le> 65535" | (eight) "65535 < n" by linarith
  then show ?thesis
  proof cases
    case 1
    then have "(of_nat n :: u8) \<noteq> 126" "(of_nat n :: u8) \<noteq> 127" "unat (of_nat n :: u8) = n"
      by (auto simp: unat_of_nat dest: arg_cong [where f = unat])
    then show ?thesis using 1 assms(4) by (simp add: parse_length_def len_code_def len_bytes_def)
  next
    case two
    then have l: "len_code n = 126" "len_bytes n = be_bytes 2 n" by (simp_all add: len_code_def len_bytes_def)
    have "sub_slice src 2 4 = Some (be_bytes 2 n)" if "4 \<le> length src"
      using comparable_slice [OF c, of 2 4] that l by simp
    then show ?thesis using two l by (simp add: parse_length_def be_val_bytes)
  next
    case eight
    then have l: "len_code n = 127" "len_bytes n = be_bytes 8 n" by (simp_all add: len_code_def len_bytes_def)
    have "sub_slice src 2 10 = Some (be_bytes 8 n)" if "10 \<le> length src"
      using comparable_slice [OF c, of 2 10] that l by simp
    then show ?thesis using l n by (simp add: parse_length_def be_val_bytes)
  qed
qed

lemma le_bytes_back: "of_nat (be_val (rev (le_bytes 4 (unat (m :: u32))))) = m"
  using u32_bound [of m] by (simp add: le_bytes_def be_val_bytes)

lemma parse_metadata_reads:
  assumes c: "comparable src (frame_head op fin msk rnd n @ body)" and op: "op \<noteq> OpBad" and n: "n \<le> max_size" "n < 2 ^ 64"
  shows "parse_metadata src msk max_size = Some (Ok (if length src < length (frame_head op fin msk rnd n) then None
    else Some (length (frame_head op fin msk rnd n), fin, op, n, if msk then Some rnd else None)))"
proof (cases "length src < 2")
  case True
  then show ?thesis by (simp add: parse_metadata_def frame_head_def)
next
  case False
  let ?b0 = "if fin then 0x80 OR OpCode_into op else OpCode_into op" and ?b1 = "(if msk then 0x80 else 0) OR of_nat (len_code n) :: u8"
  let ?l = "length (len_bytes n)" and ?m = "if msk then le_bytes 4 (unat rnd) else []"
  have hd: "frame_head op fin msk rnd n = ?b0 # ?b1 # len_bytes n @ ?m" by (simp add: frame_head_def)
  have "0 < length src" using False by linarith
  then have i: "index src 0 = Some ?b0" "index src 1 = Some ?b1"
    using comparable_index [OF c, of 0] comparable_index [OF c, of 1] False unfolding hd by auto
  have code: "len_code n < 128" by (simp add: len_code_def)
  have len: "parse_length src 2 (of_nat (len_code n)) max_size = Some (Ok (if length src < 2 + ?l then None else Some (2 + ?l, n)))"
    using c False by (intro parse_length_reads [OF _ n, of src ?b0 ?b1 "?m @ body"]) (simp_all add: hd)
  have m: "sub_slice src (2 + ?l) (2 + ?l + 4) = Some (le_bytes 4 (unat rnd))" if "msk" "2 + ?l + 4 \<le> length src"
    using comparable_slice [OF c [unfolded hd], of "2 + ?l" "2 + ?l + 4"] that by simp
  show ?thesis
    unfolding parse_metadata_def i Let_def bind.bind_lunit second_byte [OF code] first_byte [OF op] len
    using False op m n(1) le_bytes_back [of rnd] by (simp add: length_frame_head)
qed

lemma parse_reads:
  assumes c: "comparable src (frame_head op fin msk rnd (length payload) @ frame_body big msk rnd payload)"
    and op: "op \<noteq> OpBad" and n: "length payload \<le> max_size" "length payload < 2 ^ 63"
    and ctl: "op \<in> {OpPing, OpPong, OpClose} \<longrightarrow> length payload \<le> 125" and ptr: "unat ptr + length payload + 7 < 2 ^ 64"
  shows "(parse big ptr src msk max_size :: (((bool \<times> OpCode \<times> bytes option) option, 'io WsError) result \<times> bytes) option) =
    (let fr = frame_head op fin msk rnd (length payload) @ frame_body big msk rnd payload
     in if length src < length fr then Some (Ok None, src)
        else Some (Ok (Some (fin, op, if payload = [] then None else Some payload)), drop (length fr) src))"
proof -
  let ?h = "frame_head op fin msk rnd (length payload)" and ?b = "frame_body big msk rnd payload" and ?n = "length payload"
  have md: "(parse_metadata src msk max_size :: (_, 'io WsError) result option) = Some (Ok (if length src < length ?h then None else Some (length ?h, fin, op, ?n, if msk then Some rnd else None)))"
    using n by (intro parse_metadata_reads [OF c op]) simp_all
  have "length ?h \<le> 14" by (simp add: frame_head_def len_bytes_def)
  then have small: "(length ?h + ?n) mod 2 ^ 64 = length ?h + ?n" using n(2) by (intro mod_less) simp
  show ?thesis
  proof (cases "length src < length (?h @ ?b)")
    case True
    then show ?thesis using md small by (auto simp: parse_def)
  next
    case False
    then have "take (length (?h @ ?b)) src = ?h @ ?b"
      using c by (intro nth_equalityI) (auto simp: comparable_def)
    then obtain r where src: "src = ?h @ ?b @ r" by (metis append_assoc append_take_drop_id)
    have body: "(case if msk then Some rnd else None of Some m \<Rightarrow> apply_mask big ptr ?b m | None \<Rightarrow> Some ?b) = Some payload"
      using apply_mask_masks [of ptr ?b big rnd] ptr by (cases msk) (simp_all add: frame_body_def mask_from_mask)
    have s1: "split_to (length ?h) src = Some (?h, ?b @ r)" unfolding src by (rule split_to_append)
    have s2: "split_to ?n (?b @ r) = Some (?b, r)" using split_to_append [of ?b r] by simp
    have dr: "drop (length ?h + ?n) src = r" unfolding src by simp
    have ge: "\<not> length src < length ?h" "\<not> length src < length ?h + ?n" using False by simp_all
    have c1: "\<not> ((op = OpPing \<or> op = OpPong) \<and> 125 < ?n)" "\<not> (op = OpClose \<and> 125 < ?n)" using ctl by auto
    show ?thesis
    proof (cases "payload = []")
      case True
      have "parse big ptr src msk max_size = Some (Ok (Some (fin, op, None)) :: (_, 'io WsError) result, ?b @ r)"
        unfolding parse_def md bind.bind_lunit if_not_P [OF ge(1)] result.case option.case prod.case small if_not_P [OF ge(2)] s1
        using True by simp
      moreover have "?b = []" using True by (simp add: frame_body_def mask_from_def)
      ultimately show ?thesis using True dr ge by simp
    next
      case ne: False
      have "parse big ptr src msk max_size = Some (Ok (Some (fin, op, Some payload)) :: (_, 'io WsError) result, r)"
        unfolding parse_def md bind.bind_lunit if_not_P [OF ge(1)] result.case option.case prod.case small if_not_P [OF ge(2)] s1 s2
          if_not_P [OF c1(1)] if_not_P [OF c1(2)] body using ne by simp
      then show ?thesis using ne dr ge by simp
    qed
  qed
qed

lemma frame_roundtrip:
  assumes "byte_buffer B" and "op \<noteq> OpBad" and "length payload \<le> max_size" and "length payload < 2 ^ 63"
    and "op \<in> {OpPing, OpPong, OpClose} \<longrightarrow> length payload \<le> 125"
    and "unat ptr + length payload + 7 < 2 ^ 64" and "unat ptr2 + length payload + 7 < 2 ^ 64"
  shows "\<exists>fr. write_message B big ptr rnd dst payload op fin msk = Some (dst @ fr) \<and>
    (parse big ptr2 (fr @ rest) msk max_size :: (((bool \<times> OpCode \<times> bytes option) option, 'io WsError) result \<times> bytes) option) =
      Some (Ok (Some (fin, op, if payload = [] then None else Some payload)), rest) \<and>
    (k < length fr \<longrightarrow> (parse big ptr2 (take k fr) msk max_size :: (((bool \<times> OpCode \<times> bytes option) option, 'io WsError) result \<times> bytes) option) = Some (Ok None, take k fr))"
proof -
  define fr where "fr = frame_head op fin msk rnd (length payload) @ frame_body big msk rnd payload"
  have "comparable (fr @ rest) fr" "comparable (take k fr) fr" by (auto simp: comparable_def nth_append)
  note p = parse_reads [OF this(1) [unfolded fr_def] assms(2-5,7), folded fr_def, unfolded Let_def]
    parse_reads [OF this(2) [unfolded fr_def] assms(2-5,7), folded fr_def, unfolded Let_def]
  have "write_message B big ptr rnd dst payload op fin msk = Some (dst @ fr)"
    unfolding fr_def by (rule byte_buffer.write_message_writes [OF assms(1,6)])
  then show ?thesis by (intro exI [of _ fr]) (auto simp: p)
qed

section \<open>Properties of the frames\<close>

text \<open>C35: WebSocket frames round trip. Whatever a side writes, masked by a client and unmasked by a server, the
  other side parses back: a buffer that holds the frame and more yields its flags and payload and keeps what
  follows, a buffer that holds only a part of it asks for more and is left alone.  No slice or index of the
  parser is out of bounds.\<close>

theorem ws_frame_roundtrip:
  assumes "byte_buffer B" and "op \<noteq> OpBad" and "length payload \<le> max_size" and "length payload < 2 ^ 63"
    and "op \<in> {OpPing, OpPong, OpClose} \<longrightarrow> length payload \<le> 125"
    and "unat ptr + length payload + 7 < 2 ^ 64" and "unat ptr2 + length payload + 7 < 2 ^ 64"
  shows "\<exists>fr. write_message B big ptr rnd dst payload op fin msk = Some (dst @ fr) \<and>
    (parse big ptr2 (fr @ rest) msk max_size :: (((bool \<times> OpCode \<times> bytes option) option, 'io WsError) result \<times> bytes) option) =
      Some (Ok (Some (fin, op, if payload = [] then None else Some payload)), rest) \<and>
    (k < length fr \<longrightarrow> (parse big ptr2 (take k fr) msk max_size :: (((bool \<times> OpCode \<times> bytes option) option, 'io WsError) result \<times> bytes) option) = Some (Ok None, take k fr))"
  using frame_roundtrip [OF assms] .

theorem ws_frame_roundtrip_witness:
  "\<exists>fr. write_message std_buf False 5 0x04030201 [7] [104, 105] OpText True True = Some (7 # fr) \<and>
    parse False 9 (fr @ [1]) True 65536 = Some (Ok (Some (True, OpText, Some [104, 105])) :: (_, unit WsError) result, [1])"
  using ws_frame_roundtrip [OF std.byte_buffer_axioms, of OpText "[104, 105]" 65536 5 9 False "0x04030201" "[7]" True True "[1]" 0]
  by auto

end
