(* ===== verification/Ws_Codec.thy ===== *)
theory Ws_Codec
  imports Ws_Frame
begin

unbundle bit_operations_syntax

text \<open>
  The WebSocket codec of src/websocket/codec.rs: messages to frames and frames to what a service sees, with
  the flags that track a fragmented message on either side.
\<close>

section \<open>Messages and frames\<close>

datatype Item = FirstText bytes | FirstBinary bytes | Continue bytes | Last bytes

datatype Message =
    Msg_Text bytes
  | Msg_Binary bytes
  | Msg_Continuation Item
  | Msg_Ping bytes
  | Msg_Pong bytes
  | Msg_Close "CloseReason option"
  | Msg_Nop

datatype WsFrame =
    Frame_Text bytes
  | Frame_Binary bytes
  | Frame_Continuation Item
  | Frame_Ping bytes
  | Frame_Pong bytes
  | Frame_Close "CloseReason option"

section \<open>The codec\<close>

record WsCodec =
  wc_flags :: u8
  wc_max_size :: nat

definition FLAG_SERVER :: u8 where "FLAG_SERVER = 1"
definition FLAG_CONTINUATION :: u8 where "FLAG_CONTINUATION = 2"
definition FLAG_W_CONTINUATION :: u8 where "FLAG_W_CONTINUATION = 4"

definition has_flag :: "WsCodec \<Rightarrow> u8 \<Rightarrow> bool" where
  "has_flag c x \<longleftrightarrow> wc_flags c AND x = x"

definition insert_flag :: "u8 \<Rightarrow> WsCodec \<Rightarrow> WsCodec" where
  "insert_flag x c = c\<lparr>wc_flags := wc_flags c OR x\<rparr>"

definition remove_flag :: "u8 \<Rightarrow> WsCodec \<Rightarrow> WsCodec" where
  "remove_flag x c = c\<lparr>wc_flags := wc_flags c AND NOT x\<rparr>"

definition WsCodec_new :: WsCodec where
  "WsCodec_new = \<lparr>wc_flags = FLAG_SERVER, wc_max_size = 65536\<rparr>"

definition ws_max_size :: "WsCodec \<Rightarrow> nat \<Rightarrow> WsCodec" where
  "ws_max_size c sz = c\<lparr>wc_max_size := sz\<rparr>"

definition client_mode :: "WsCodec \<Rightarrow> WsCodec" where
  "client_mode c = remove_flag FLAG_SERVER c"

definition Codec_encode :: "buf_ops \<Rightarrow> bool \<Rightarrow> usize \<Rightarrow> u32 \<Rightarrow> WsCodec \<Rightarrow> Message \<Rightarrow> bytes \<Rightarrow>
    ((unit, 'io WsError) result \<times> WsCodec \<times> bytes) option" where
  "Codec_encode B big ptr rnd c item dst =
     (let write = (\<lambda>c data op fin. map_option (\<lambda>dst. (Ok (), c, dst))
            (write_message B big ptr rnd dst data op fin (\<not> has_flag c FLAG_SERVER)))
      in case item of
        Msg_Text txt \<Rightarrow> write c txt OpText True
      | Msg_Binary bin \<Rightarrow> write c bin OpBinary True
      | Msg_Ping txt \<Rightarrow> write c txt OpPing True
      | Msg_Pong txt \<Rightarrow> write c txt OpPong True
      | Msg_Close reason \<Rightarrow>
          map_option (\<lambda>dst. (Ok (), c, dst)) (write_close B big ptr rnd dst reason (\<not> has_flag c FLAG_SERVER))
      | Msg_Continuation cont \<Rightarrow>
          (case cont of
             FirstText data \<Rightarrow>
               if has_flag c FLAG_W_CONTINUATION then Some (Err ContinuationStarted, c, dst)
               else write (insert_flag FLAG_W_CONTINUATION c) data OpBinary False
           | FirstBinary data \<Rightarrow>
               if has_flag c FLAG_W_CONTINUATION then Some (Err ContinuationStarted, c, dst)
               else write (insert_flag FLAG_W_CONTINUATION c) data OpText False
           | Continue data \<Rightarrow>
               if has_flag c FLAG_W_CONTINUATION then write c data OpContinue False
               else Some (Err ContinuationNotStarted, c, dst)
           | Last data \<Rightarrow>
               if has_flag c FLAG_W_CONTINUATION then write (remove_flag FLAG_W_CONTINUATION c) data OpContinue True
               else Some (Err ContinuationNotStarted, c, dst))
      | Msg_Nop \<Rightarrow> Some (Ok (), c, dst))"

definition Codec_decode :: "bool \<Rightarrow> usize \<Rightarrow> WsCodec \<Rightarrow> bytes \<Rightarrow> ((WsFrame option, 'io WsError) result \<times> WsCodec \<times> bytes) option" where
  "Codec_decode big ptr c src = do {
     (r, src) \<leftarrow> parse big ptr src (has_flag c FLAG_SERVER) (wc_max_size c);
     Some (case r of
        Ok (Some (finished, opcode, payload)) \<Rightarrow>
          let pl = (case payload of Some pl \<Rightarrow> pl | None \<Rightarrow> []) in
          if \<not> finished then
            (case opcode of
               OpContinue \<Rightarrow>
                 if has_flag c FLAG_CONTINUATION then (Ok (Some (Frame_Continuation (Continue pl))), c, src)
                 else (Err ContinuationNotStarted, c, src)
             | OpBinary \<Rightarrow>
                 if \<not> has_flag c FLAG_CONTINUATION
                 then (Ok (Some (Frame_Continuation (FirstBinary pl))), insert_flag FLAG_CONTINUATION c, src)
                 else (Err ContinuationStarted, c, src)
             | OpText \<Rightarrow>
                 if \<not> has_flag c FLAG_CONTINUATION
                 then (Ok (Some (Frame_Continuation (FirstText pl))), insert_flag FLAG_CONTINUATION c, src)
                 else (Err ContinuationStarted, c, src)
             | _ \<Rightarrow> (Err (ContinuationFragment opcode), c, src))
          else
            (case opcode of
               OpContinue \<Rightarrow>
                 if has_flag c FLAG_CONTINUATION
                 then (Ok (Some (Frame_Continuation (Last pl))), remove_flag FLAG_CONTINUATION c, src)
                 else (Err ContinuationNotStarted, c, src)
             | OpBad \<Rightarrow> (Err BadOpCode, c, src)
             | OpClose \<Rightarrow>
                 (case payload of
                    Some pl \<Rightarrow> (Ok (Some (Frame_Close (parse_close_payload pl))), c, src)
                  | None \<Rightarrow> (Ok (Some (Frame_Close None)), c, src))
             | OpPing \<Rightarrow> (Ok (Some (Frame_Ping pl)), c, src)
             | OpPong \<Rightarrow> (Ok (Some (Frame_Pong pl)), c, src)
             | OpBinary \<Rightarrow> (Ok (Some (Frame_Binary pl)), c, src)
             | OpText \<Rightarrow> (Ok (Some (Frame_Text pl)), c, src))
      | Ok None \<Rightarrow> (Ok None, c, src)
      | Err e \<Rightarrow> (Err e, c, src))
   }"

section \<open>Flags\<close>

lemma has_flag_bit:
  "has_flag c FLAG_SERVER \<longleftrightarrow> bit (wc_flags c) 0" "has_flag c FLAG_CONTINUATION \<longleftrightarrow> bit (wc_flags c) 1"
  "has_flag c FLAG_W_CONTINUATION \<longleftrightarrow> bit (wc_flags c) 2"
proof -
  have e: "x AND 2 ^ k = 2 ^ k \<longleftrightarrow> bit x k" if "k < 8" for x :: u8 and k
    using that by (auto simp: bit_eq_iff [of "x AND 2 ^ k"] bit_and_iff bit_exp_iff)
  show "has_flag c FLAG_SERVER \<longleftrightarrow> bit (wc_flags c) 0" "has_flag c FLAG_CONTINUATION \<longleftrightarrow> bit (wc_flags c) 1"
    "has_flag c FLAG_W_CONTINUATION \<longleftrightarrow> bit (wc_flags c) 2"
    using e [of 0 "wc_flags c"] e [of 1 "wc_flags c"] e [of 2 "wc_flags c"]
    by (simp_all add: has_flag_def FLAG_SERVER_def FLAG_CONTINUATION_def FLAG_W_CONTINUATION_def)
qed

lemma flag_bits: "bit (1 :: u8) n \<longleftrightarrow> n = 0" "bit (2 :: u8) n \<longleftrightarrow> n = 1" "bit (4 :: u8) n \<longleftrightarrow> n = 2"
proof -
  have p: "bit (2 ^ k :: u8) n \<longleftrightarrow> n = k" if "k < 8" for k
    using that by (auto simp: bit_exp_iff)
  show "bit (1 :: u8) n \<longleftrightarrow> n = 0" "bit (2 :: u8) n \<longleftrightarrow> n = 1" "bit (4 :: u8) n \<longleftrightarrow> n = 2"
    using p [of 0] p [of 1] p [of 2] by simp_all
qed

lemma flags_simps [simp]:
  "wc_max_size (insert_flag x c) = wc_max_size c" "wc_max_size (remove_flag x c) = wc_max_size c"
  "has_flag (insert_flag FLAG_W_CONTINUATION c) FLAG_SERVER = has_flag c FLAG_SERVER"
  "has_flag (insert_flag FLAG_CONTINUATION c) FLAG_SERVER = has_flag c FLAG_SERVER"
  "has_flag (remove_flag FLAG_W_CONTINUATION c) FLAG_SERVER = has_flag c FLAG_SERVER"
  "has_flag (remove_flag FLAG_CONTINUATION c) FLAG_SERVER = has_flag c FLAG_SERVER"
  "has_flag (insert_flag FLAG_W_CONTINUATION c) FLAG_W_CONTINUATION" "has_flag (insert_flag FLAG_CONTINUATION c) FLAG_CONTINUATION"
  "\<not> has_flag (remove_flag FLAG_W_CONTINUATION c) FLAG_W_CONTINUATION" "\<not> has_flag (remove_flag FLAG_CONTINUATION c) FLAG_CONTINUATION"
  unfolding has_flag_bit
  by (simp_all add: insert_flag_def remove_flag_def FLAG_SERVER_def FLAG_CONTINUATION_def FLAG_W_CONTINUATION_def bit_or_iff bit_and_iff
      bit_not_iff flag_bits)

section \<open>Two codecs in step\<close>

definition in_step :: "WsCodec \<Rightarrow> WsCodec \<Rightarrow> bool" where
  "in_step e d \<longleftrightarrow> has_flag d FLAG_SERVER = (\<not> has_flag e FLAG_SERVER) \<and>
     has_flag d FLAG_CONTINUATION = has_flag e FLAG_W_CONTINUATION"

text \<open>The messages the encoder takes in its state.\<close>

definition takes :: "WsCodec \<Rightarrow> Message \<Rightarrow> bool" where
  "takes e m = (case m of
     Msg_Continuation (FirstText _) \<Rightarrow> \<not> has_flag e FLAG_W_CONTINUATION
   | Msg_Continuation (FirstBinary _) \<Rightarrow> \<not> has_flag e FLAG_W_CONTINUATION
   | Msg_Continuation _ \<Rightarrow> has_flag e FLAG_W_CONTINUATION
   | _ \<Rightarrow> True)"

definition close_payload :: "CloseReason option \<Rightarrow> bytes" where
  "close_payload reason = (case reason of
     None \<Rightarrow> []
   | Some r \<Rightarrow> be_bytes 2 (unat (CloseCode_into (cr_code r))) @ (case cr_description r of Some s \<Rightarrow> s | None \<Rightarrow> []))"

primrec item_data :: "Item \<Rightarrow> bytes" where
  "item_data (FirstText d) = d"
| "item_data (FirstBinary d) = d"
| "item_data (Continue d) = d"
| "item_data (Last d) = d"

primrec msg_payload :: "Message \<Rightarrow> bytes" where
  "msg_payload (Msg_Text d) = d"
| "msg_payload (Msg_Binary d) = d"
| "msg_payload (Msg_Continuation i) = item_data i"
| "msg_payload (Msg_Ping d) = d"
| "msg_payload (Msg_Pong d) = d"
| "msg_payload (Msg_Close r) = close_payload r"
| "msg_payload Msg_Nop = []"

definition is_control :: "Message \<Rightarrow> bool" where
  "is_control m = (case m of Msg_Ping _ \<Rightarrow> True | Msg_Pong _ \<Rightarrow> True | Msg_Close _ \<Rightarrow> True | _ \<Rightarrow> False)"

text \<open>What the other side makes of a message: the first fragment arrives with the other type.\<close>

definition seen_reason :: "CloseReason \<Rightarrow> CloseReason" where
  "seen_reason r = \<lparr>cr_code = CloseCode_from (CloseCode_into (cr_code r)),
     cr_description = (case cr_description r of Some s \<Rightarrow> if s = [] then None else Some (from_utf8_lossy s) | None \<Rightarrow> None)\<rparr>"

primrec seen :: "Message \<Rightarrow> WsFrame option" where
  "seen (Msg_Text d) = Some (Frame_Text d)"
| "seen (Msg_Binary d) = Some (Frame_Binary d)"
| "seen (Msg_Continuation i) = Some (Frame_Continuation (case i of FirstText d \<Rightarrow> FirstBinary d | FirstBinary d \<Rightarrow> FirstText d | _ \<Rightarrow> i))"
| "seen (Msg_Ping d) = Some (Frame_Ping d)"
| "seen (Msg_Pong d) = Some (Frame_Pong d)"
| "seen (Msg_Close r) = Some (Frame_Close (map_option seen_reason r))"
| "seen Msg_Nop = None"

lemma parse_close: "close_payload (Some r) \<noteq> []" "parse_close_payload (close_payload (Some r)) = Some (seen_reason r)"
proof -
  let ?c = "CloseCode_into (cr_code r)"
  have "of_nat (be_val (be_bytes 2 (unat ?c))) = ?c" using u16_bound [of ?c] by (simp add: be_val_bytes)
  then show "parse_close_payload (close_payload (Some r)) = Some (seen_reason r)"
    by (simp add: parse_close_payload_def close_payload_def seen_reason_def Let_def split: option.split)
  have "length (close_payload (Some r)) \<noteq> 0" by (simp add: close_payload_def)
  then show "close_payload (Some r) \<noteq> []" by auto
qed

lemma close_payload_simps: "close_payload r = [] \<longleftrightarrow> r = None" "parse_close_payload (close_payload r) = map_option seen_reason r"
  using parse_close by (cases r; simp add: close_payload_def [of None] parse_close_payload_def)+

section \<open>Properties of the codec\<close>

text \<open>The conditions on a message: its payload fits the receiver's limit, a control frame's the protocol's.\<close>

definition sendable :: "nat \<Rightarrow> Message \<Rightarrow> bool" where
  "sendable max_size m \<longleftrightarrow> length (msg_payload m) \<le> max_size \<and> length (msg_payload m) < 2 ^ 62 \<and>
     (is_control m \<longrightarrow> length (msg_payload m) \<le> 125)"

text \<open>The frame of a message and the state the writer is left in.\<close>

definition msg_head :: "WsCodec \<Rightarrow> Message \<Rightarrow> OpCode \<times> bool \<times> WsCodec" where
  "msg_head e m = (case m of
     Msg_Text _ \<Rightarrow> (OpText, True, e)
   | Msg_Binary _ \<Rightarrow> (OpBinary, True, e)
   | Msg_Ping _ \<Rightarrow> (OpPing, True, e)
   | Msg_Pong _ \<Rightarrow> (OpPong, True, e)
   | Msg_Close _ \<Rightarrow> (OpClose, True, e)
   | Msg_Continuation (FirstText _) \<Rightarrow> (OpBinary, False, insert_flag FLAG_W_CONTINUATION e)
   | Msg_Continuation (FirstBinary _) \<Rightarrow> (OpText, False, insert_flag FLAG_W_CONTINUATION e)
   | Msg_Continuation (Continue _) \<Rightarrow> (OpContinue, False, e)
   | Msg_Continuation (Last _) \<Rightarrow> (OpContinue, True, remove_flag FLAG_W_CONTINUATION e)
   | Msg_Nop \<Rightarrow> (OpBad, True, e))"

lemma encode_msg:
  assumes "takes e m" and "m \<noteq> Msg_Nop" and "msg_head e m = (op, fin, e')"
  shows "Codec_encode B big ptr rnd e m dst =
    map_option (\<lambda>dst. (Ok (), e', dst)) (write_message B big ptr rnd dst (msg_payload m) op fin (\<not> has_flag e FLAG_SERVER))"
  using assms by (auto simp: Codec_encode_def takes_def msg_head_def write_close_def close_payload_def Let_def split: Message.splits Item.splits)

lemma decode_msg:
  assumes "in_step e d" and "takes e m" and "m \<noteq> Msg_Nop" and "msg_head e m = (op, fin, e')"
    and "parse big ptr src (has_flag d FLAG_SERVER) (wc_max_size d) =
      Some (Ok (Some (fin, op, if msg_payload m = [] then None else Some (msg_payload m))) :: (_, 'io WsError) result, rest)"
  shows "\<exists>d'. Codec_decode big ptr d src = Some (Ok (seen m) :: (_, 'io WsError) result, d', rest) \<and> in_step e' d' \<and> wc_max_size d' = wc_max_size d"
  using assms
  by (auto simp: Codec_decode_def in_step_def takes_def msg_head_def Let_def close_payload_simps split: Message.splits Item.splits option.splits)

text \<open>C34: A WebSocket connection in both directions. With the two codecs in step (one client, one server, the same
  fragmented message open), a message is refused without any change exactly when it does not continue the
  fragments; otherwise the frame the encoder appends is decoded by the other side, which sees the message and is
  in step again.  The first fragment of a text message is seen as the first of a binary one, and conversely.\<close>

theorem ws_codec_roundtrip:
  assumes "byte_buffer B" and "in_step e d" and "sendable (wc_max_size d) m" and "m \<noteq> Msg_Nop"
    and "unat ptr < 2 ^ 62" and "unat ptr2 < 2 ^ 62"
  shows "if takes e m
    then \<exists>fr e' d'. Codec_encode B big ptr rnd e m dst = Some (Ok () :: (unit, 'io WsError) result, e', dst @ fr) \<and>
      Codec_decode big ptr2 d (fr @ rest) = Some (Ok (seen m) :: (_, 'io WsError) result, d', rest) \<and> in_step e' d' \<and> wc_max_size d' = wc_max_size d
    else \<exists>err. Codec_encode B big ptr rnd e m dst = Some (Err err :: (unit, 'io WsError) result, e, dst)"
proof (cases "takes e m")
  case True
  obtain op fin e' where h: "msg_head e m = (op, fin, e')" by (cases "msg_head e m")
  let ?n = "length (msg_payload m)"
  have n: "?n \<le> wc_max_size d" "?n < 2 ^ 63" "unat ptr + ?n + 7 < 2 ^ 64" "unat ptr2 + ?n + 7 < 2 ^ 64"
    using assms(3,5,6) by (simp_all add: sendable_def)
  have op: "op \<noteq> OpBad" using h assms(4) by (auto simp: msg_head_def split: Message.splits Item.splits)
  have ctl: "op \<in> {OpPing, OpPong, OpClose} \<longrightarrow> ?n \<le> 125"
    using h assms(3) by (auto simp: msg_head_def sendable_def is_control_def split: Message.splits Item.splits)
  have srv: "has_flag d FLAG_SERVER = (\<not> has_flag e FLAG_SERVER)" using assms(2) by (simp add: in_step_def)
  obtain fr where fr: "write_message B big ptr rnd dst (msg_payload m) op fin (\<not> has_flag e FLAG_SERVER) = Some (dst @ fr)"
    "parse big ptr2 (fr @ rest) (\<not> has_flag e FLAG_SERVER) (wc_max_size d) =
      Some (Ok (Some (fin, op, if msg_payload m = [] then None else Some (msg_payload m))) :: (_, 'io WsError) result, rest)"
    using frame_roundtrip [OF assms(1) op n(1,2) ctl n(3,4), where big = big and rnd = rnd and dst = dst and fin = fin and
        msk = "\<not> has_flag e FLAG_SERVER" and rest = rest and k = 0] by blast
  obtain d' where d': "Codec_decode big ptr2 d (fr @ rest) = Some (Ok (seen m) :: (_, 'io WsError) result, d', rest)" "in_step e' d'" "wc_max_size d' = wc_max_size d"
    using decode_msg [OF assms(2) True assms(4) h fr(2) [folded srv]] by blast
  moreover have "Codec_encode B big ptr rnd e m dst = Some (Ok () :: (unit, 'io WsError) result, e', dst @ fr)"
    by (simp add: encode_msg [OF True assms(4) h] fr(1))
  ultimately show ?thesis using True by auto
next
  case False
  then show ?thesis by (auto simp: takes_def Codec_encode_def split: Message.splits Item.splits)
qed

theorem ws_codec_roundtrip_witness:
  "\<exists>fr e' d'. Codec_encode std_buf False 0 5 WsCodec_new (Msg_Continuation (FirstText [104])) [] = Some (Ok () :: (unit, unit WsError) result, e', fr) \<and>
    Codec_decode False 0 (client_mode WsCodec_new) fr =
      Some (Ok (Some (Frame_Continuation (FirstBinary [104]))) :: (_, unit WsError) result, d', []) \<and> in_step e' d'"
proof -
  let ?m = "Msg_Continuation (FirstText [104])"
  have f: "in_step WsCodec_new (client_mode WsCodec_new)" "takes WsCodec_new ?m" "sendable (wc_max_size (client_mode WsCodec_new)) ?m"
    by (simp_all add: in_step_def takes_def sendable_def is_control_def client_mode_def WsCodec_new_def remove_flag_def has_flag_def
        FLAG_SERVER_def FLAG_CONTINUATION_def FLAG_W_CONTINUATION_def)
  show ?thesis
    using ws_codec_roundtrip [OF std.byte_buffer_axioms f(1,3), of 0 0 False 5 "[]" "[]", where 'io = unit] f(2) by auto
qed

end
