(* ===== verification/Spec2Isabelle.thy ===== *)
theory Spec2Isabelle
  imports
    Delay_Queue_Runs
    H2_Frame_Props
    H2_State
    H2_Flow
    H2_Control
    Hpack_Encoder
    Ws_Codec
begin

text \<open>
  Verification development for kayrx.
\<close>

end
